(* ===== verification/Prelude.thy ===== *)
theory Prelude
  imports Main "HOL-Library.Word" "HOL-Library.Finite_Map" "HOL-Library.Char_ord"
    "HOL-Library.List_Lexorder" "HOL-Library.Product_Lexorder"
begin

text \<open>
  Shared vocabulary of the development.

  Go's \<^verbatim>\<open>string\<close> is a byte sequence and HOL's \<^typ>\<open>string\<close> is a list of 8-bit
  characters, so the two coincide, order included (bytewise lexicographic, from
  \<^verbatim>\<open>Char_ord\<close> and \<^verbatim>\<open>List_Lexorder\<close>). A \<^verbatim>\<open>[]byte\<close> is a \<open>slice\<close>: \<^term>\<open>None\<close> is the nil
  slice, which JSON prints differently from an empty one. A Go map is a finite map
  (\<^typ>\<open>('k, 'v) fmap\<close>); a \<^verbatim>\<open>for ... range\<close> loop over it runs over a list of its
  entries, in key order where the model has to fix an order.

  The theory also holds the interfaces the components share as locales: comparison
  functions that read a key (\<open>key_order\<close>), merge functions that are semilattices
  on the values the program produces (\<open>merge_semilattice\<close>) and encoders with a left
  inverse (\<open>codec\<close>).
\<close>

named_theorems go_simps \<open>unfolding rules for the small Go helpers\<close>
named_theorems merge_simps \<open>how the merge functions act on well-formed values\<close>
named_theorems wf_intros \<open>closure of the well-formedness predicates\<close>

type_synonym slice = "string option"
type_synonym u64 = "64 word"

section \<open>Byte slices\<close>

definition bytes :: "slice \<Rightarrow> string" where
  "bytes b = (case b of None \<Rightarrow> [] | Some s \<Rightarrow> s)"

text \<open>\<^verbatim>\<open>append([]byte(nil), b...)\<close>: appending nothing to nil leaves nil.\<close>

definition append_nil :: "slice \<Rightarrow> slice" where
  "append_nil b = (if bytes b = [] then None else b)"

definition to_slice :: "string \<Rightarrow> slice" where
  "to_slice s = (if s = [] then None else Some s)"

definition canon_slice :: "slice \<Rightarrow> bool" where
  "canon_slice b \<longleftrightarrow> b \<noteq> Some []"

lemma bytes_simps [simp]: "bytes None = []" "bytes (Some s) = s"
  by (simp_all add: bytes_def)

lemma append_nil_simps [simp]:
  "append_nil None = None" "append_nil (Some []) = None" "append_nil (Some (c # s)) = Some (c # s)"
  by (simp_all add: append_nil_def)

lemma bytes_append_nil [simp]: "bytes (append_nil b) = bytes b"
  by (simp add: append_nil_def)

lemma canon_append_nil [simp, intro!]: "canon_slice (append_nil b)"
  by (cases b) (auto simp: append_nil_def canon_slice_def)

lemma append_nil_canon [simp]: "canon_slice b \<Longrightarrow> append_nil b = b"
  by (cases b) (auto simp: append_nil_def canon_slice_def)

lemma append_nil_idem [simp]: "append_nil (append_nil b) = append_nil b"
  by simp

lemma canon_slice_simps [simp]: "canon_slice None" "canon_slice (Some (c # s))" "\<not> canon_slice (Some [])"
  by (simp_all add: canon_slice_def)

lemma canon_to_slice [simp, intro!]: "canon_slice (to_slice s)"
  by (simp add: to_slice_def canon_slice_def)

lemma bytes_to_slice [simp]: "bytes (to_slice s) = s"
  by (simp add: to_slice_def)

lemma canon_slice_eqI: "canon_slice a \<Longrightarrow> canon_slice b \<Longrightarrow> bytes a = bytes b \<Longrightarrow> a = b"
  by (cases a; cases b) (auto simp: canon_slice_def)

section \<open>Three-way comparison\<close>

text \<open>
  Go's comparison functions return a negative, zero or positive \<^verbatim>\<open>int\<close>. \<open>cmp_of\<close> is the
  one of a linear order; \<^verbatim>\<open>bytes.Compare\<close> is its instance at byte strings.
\<close>

definition cmp_of :: "'k::linorder \<Rightarrow> 'k \<Rightarrow> int" where
  "cmp_of a b = (if a < b then -1 else if a = b then 0 else 1)"

lemma cmp_of_sign [simp]:
  "0 \<le> cmp_of a b \<longleftrightarrow> b \<le> a" "cmp_of a b < 0 \<longleftrightarrow> a < b"
  "0 < cmp_of a b \<longleftrightarrow> b < a" "cmp_of a b = 0 \<longleftrightarrow> a = b"
  by (auto simp: cmp_of_def)

lemma cmp_of_prod:
  "cmp_of (a, x) (b, y) = (if cmp_of a b \<noteq> 0 then cmp_of a b else cmp_of x y)"
  by (auto simp: cmp_of_def less_prod_def')

section \<open>The interface of a comparison function\<close>

locale key_order =
  fixes cmp :: "'a \<Rightarrow> 'a \<Rightarrow> int"
    and key :: "'a \<Rightarrow> 'k::linorder"
  assumes cmp_key: "cmp a b = cmp_of (key a) (key b)"
begin

lemma sign:
  "0 \<le> cmp a b \<longleftrightarrow> key b \<le> key a" "cmp a b < 0 \<longleftrightarrow> key a < key b"
  "0 < cmp a b \<longleftrightarrow> key b < key a" "cmp a b = 0 \<longleftrightarrow> key a = key b"
  by (simp_all add: cmp_key)

lemma refl: "cmp a a = 0"
  by (simp add: sign)

lemma antisym: "cmp a b = - cmp b a"
  by (auto simp: cmp_key cmp_of_def)

lemma trans: "0 \<le> cmp a b \<Longrightarrow> 0 \<le> cmp b c \<Longrightarrow> 0 \<le> cmp a c"
  by (auto simp: sign)

text \<open>Keeping the larger of two values, the first one on a tie.\<close>

lemma pick_key: "key (if 0 \<le> cmp a b then a else b) = max (key a) (key b)"
  by (auto simp: sign max_def)

lemma pick_assoc:
  "(if 0 \<le> cmp (if 0 \<le> cmp a b then a else b) c then (if 0 \<le> cmp a b then a else b) else c)
   = (if 0 \<le> cmp a (if 0 \<le> cmp b c then b else c) then a else (if 0 \<le> cmp b c then b else c))"
  by (auto simp: sign)

lemma pick_commute:
  assumes "key a = key b \<Longrightarrow> a = b"
  shows "(if 0 \<le> cmp a b then a else b) = (if 0 \<le> cmp b a then b else a)"
  using assms by (auto simp: sign)

end

section \<open>The interface of a merge function\<close>

text \<open>
  The contract every conflict policy promises on the values the program itself makes
  (\<open>wf\<close>): merging is closed, associative, commutative and idempotent. From it follows
  what replication relies on: merging a batch of values gives the same result whatever
  the order and however often each is delivered.
\<close>

locale merge_semilattice =
  fixes wf :: "'a \<Rightarrow> bool"
    and merge :: "'a \<Rightarrow> 'a \<Rightarrow> 'a"
  assumes closed: "wf a \<Longrightarrow> wf b \<Longrightarrow> wf (merge a b)"
    and assoc: "wf a \<Longrightarrow> wf b \<Longrightarrow> wf c \<Longrightarrow> merge (merge a b) c = merge a (merge b c)"
    and comm: "wf a \<Longrightarrow> wf b \<Longrightarrow> merge a b = merge b a"
    and idem: "wf a \<Longrightarrow> merge a a = a"
begin

lemma left_comm: "wf a \<Longrightarrow> wf b \<Longrightarrow> wf c \<Longrightarrow> merge a (merge b c) = merge b (merge a c)"
  by (metis assoc comm)

lemma absorb: "wf a \<Longrightarrow> wf b \<Longrightarrow> merge a (merge a b) = merge a b"
  by (metis assoc idem)

lemma absorb_right: "wf a \<Longrightarrow> wf b \<Longrightarrow> merge (merge a b) b = merge a b"
  by (metis assoc idem)

lemma below_trans:
  "wf a \<Longrightarrow> wf b \<Longrightarrow> wf c \<Longrightarrow> merge a b = b \<Longrightarrow> merge b c = c \<Longrightarrow> merge a c = c"
  by (metis assoc)

lemma below_antisym: "wf a \<Longrightarrow> wf b \<Longrightarrow> merge a b = b \<Longrightarrow> merge b a = a \<Longrightarrow> a = b"
  by (metis comm)

lemma wf_foldl: "wf a \<Longrightarrow> (\<And>x. x \<in> set xs \<Longrightarrow> wf x) \<Longrightarrow> wf (foldl merge a xs)"
  by (induction xs arbitrary: a) (auto intro: closed)

lemma foldl_pull:
  "wf a \<Longrightarrow> wf b \<Longrightarrow> (\<And>x. x \<in> set xs \<Longrightarrow> wf x) \<Longrightarrow>
    foldl merge (merge a b) xs = merge a (foldl merge b xs)"
  by (induction xs arbitrary: b) (simp_all add: assoc closed)

lemma foldl_absorb:
  assumes "wf a" and "\<And>x. x \<in> set xs \<Longrightarrow> wf x" and "y \<in> set xs"
  shows "merge y (foldl merge a xs) = foldl merge a xs"
  using assms
proof (induction xs arbitrary: a)
  case Nil
  then show ?case by simp
next
  case (Cons x xs)
  have w: "wf y" "wf x" and wxs: "\<And>z. z \<in> set xs \<Longrightarrow> wf z" using Cons.prems by auto
  show ?case
  proof (cases "y \<in> set xs")
    case True
    then show ?thesis using Cons.IH [of "merge a x"] Cons.prems by (auto intro: closed)
  next
    case False
    then have y: "y = x" using Cons.prems by simp
    have "merge x (foldl merge (merge x a) xs) = merge x (merge x (foldl merge a xs))"
      using foldl_pull [of x a xs] w wxs Cons.prems(1) by simp
    also have "\<dots> = merge x (foldl merge a xs)"
      using absorb wf_foldl [OF Cons.prems(1) wxs] w by simp
    also have "\<dots> = foldl merge (merge x a) xs"
      using foldl_pull [of x a xs] w wxs Cons.prems(1) by simp
    finally show ?thesis using comm [of a x] w Cons.prems(1) y by simp
  qed
qed

lemma foldl_start:
  assumes "wf a" and "\<And>x. x \<in> set xs \<Longrightarrow> wf x"
  shows "merge a (foldl merge a xs) = foldl merge a xs"
  using foldl_pull [of a a xs] assms idem by metis

lemma foldl_below:
  assumes "wf a" and "\<And>x. x \<in> set xs \<Longrightarrow> wf x" and "wf u"
    and "merge a u = u" and "\<And>x. x \<in> set xs \<Longrightarrow> merge x u = u"
  shows "merge (foldl merge a xs) u = u"
  using assms
proof (induction xs arbitrary: a)
  case Nil
  then show ?case by simp
next
  case (Cons x xs)
  have "merge (merge a x) u = u" using Cons.prems assoc [of a x u] by simp
  then show ?case using Cons.IH [of "merge a x"] Cons.prems by (auto intro: closed)
qed

text \<open>The result of merging a batch depends only on the set of values in it.\<close>

lemma foldl_set_eq:
  assumes "set (a # xs) = set (b # ys)" and "\<And>x. x \<in> set (a # xs) \<Longrightarrow> wf x"
  shows "foldl merge a xs = foldl merge b ys"
proof -
  let ?l = "foldl merge a xs" and ?r = "foldl merge b ys"
  have wy: "\<And>x. x \<in> set (b # ys) \<Longrightarrow> wf x" using assms by blast
  have wl: "wf ?l" by (rule wf_foldl) (use assms in auto)
  have wr: "wf ?r" by (rule wf_foldl) (use wy in auto)
  have upl: "merge x ?l = ?l" if "x \<in> set (a # xs)" for x
    using foldl_absorb [of a xs x] foldl_start [of a xs] assms(2) that by auto
  have upr: "merge x ?r = ?r" if "x \<in> set (b # ys)" for x
    using foldl_absorb [of b ys x] foldl_start [of b ys] wy that by auto
  have "merge ?l ?r = ?r"
    by (rule foldl_below) (use assms wr upr in auto)
  moreover have "merge ?r ?l = ?l"
    by (rule foldl_below) (use assms(1) wy wl upl in auto)
  ultimately show ?thesis using comm wl wr by metis
qed

end

section \<open>The interface of a system of steps\<close>

text \<open>
  A system whose steps keep an invariant and only move forward in a preorder of its states: then so
  do runs of any length.
\<close>

locale forward_system =
  fixes step :: "'s \<Rightarrow> 's \<Rightarrow> bool" and ok :: "'s \<Rightarrow> bool" and before :: "'s \<Rightarrow> 's \<Rightarrow> bool"
  assumes step_ok: "ok s \<Longrightarrow> step s t \<Longrightarrow> ok t"
    and step_forward: "ok s \<Longrightarrow> step s t \<Longrightarrow> before s t"
    and before_refl: "ok s \<Longrightarrow> before s s"
    and before_trans: "ok s \<Longrightarrow> ok t \<Longrightarrow> ok u \<Longrightarrow> before s t \<Longrightarrow> before t u \<Longrightarrow> before s u"
begin

lemma run_forward:
  assumes "step\<^sup>*\<^sup>* s t" "ok s"
  shows "ok t \<and> before s t"
  using assms
proof (induction rule: rtranclp_induct)
  case base
  then show ?case by (simp add: before_refl)
next
  case (step t u)
  then have "ok t" "ok u" "before t u" using step_ok step_forward by blast+
  with step show ?case using before_trans by blast
qed

end

section \<open>The interface of an encoder\<close>

locale codec =
  fixes enc :: "'a \<Rightarrow> string" and dec :: "string \<Rightarrow> 'a option" and ok :: "'a \<Rightarrow> bool"
  assumes dec_enc: "ok a \<Longrightarrow> dec (enc a) = Some a"
begin

lemma enc_inj: "ok a \<Longrightarrow> ok b \<Longrightarrow> enc a = enc b \<Longrightarrow> a = b"
  using dec_enc by (metis option.inject)

end

section \<open>Finite maps\<close>

lemma fmap_eqI: "(\<And>k. fmlookup m k = fmlookup n k) \<Longrightarrow> m = n"
  by (rule fmap_ext) simp

lemma sorted_list_of_fmap_code [code]:
  "sorted_list_of_fmap (fmap_of_list xs) = sort_key fst (AList.clearjunk xs)"
proof -
  let ?ys = "sort_key fst (AList.clearjunk xs)"
  have d: "distinct (map fst ?ys)"
    by (simp add: distinct_map distinct_clearjunk [unfolded distinct_map])
  have s: "sorted (map fst ?ys)" by simp
  have m: "map_of ?ys = map_of xs"
    by (metis map_of_clearjunk distinct_clearjunk d map_of_inject_set set_sort distinct_map)
  have "sorted_list_of_fset (fmdom (fmap_of_list xs)) = map fst ?ys"
  proof -
    have "set (map fst ?ys) = fset (fmdom (fmap_of_list xs))"
      by (simp add: fmdom_of_list fset_of_list.rep_eq AList.dom_clearjunk)
    then show ?thesis
      using d s sorted_list_of_set.idem_if_sorted_distinct
      by (metis sorted_list_of_fset.rep_eq)
  qed
  then have "sorted_list_of_fmap (fmap_of_list xs) = map (\<lambda>k. (k, the (map_of ?ys k))) (map fst ?ys)"
    by (simp add: sorted_list_of_fmap_def fmlookup_of_list m)
  also have "\<dots> = ?ys"
    using d by (auto simp: map_idI o_def intro!: map_idI)
  finally show ?thesis .
qed

lemma distinct_sorted_list_of_fmap [simp]: "distinct (map fst (sorted_list_of_fmap m))"
  by (simp add: sorted_list_of_fmap_def o_def sorted_list_of_fset.rep_eq)

lemma sorted_sorted_list_of_fmap [simp]: "sorted (map fst (sorted_list_of_fmap m))"
  by (simp add: sorted_list_of_fmap_def o_def sorted_list_of_fset.rep_eq)

lemma fmap_of_sorted_list [simp]: "fmap_of_list (sorted_list_of_fmap m) = m"
  by (rule fmap_eqI) (simp add: fmlookup_of_list)

lemma in_sorted_list_of_fmap: "(k, v) \<in> set (sorted_list_of_fmap m) \<longleftrightarrow> fmlookup m k = Some v"
  using map_of_sorted_list [of m] distinct_sorted_list_of_fmap [of m]
  by (metis map_of_eq_Some_iff)

lemma keys_sorted_list_of_fmap [simp]: "set (map fst (sorted_list_of_fmap m)) = fmdom' m"
  by (auto simp: in_sorted_list_of_fmap fmlookup_dom'_iff image_iff)
    (metis fst_conv in_sorted_list_of_fmap)

lemma fmpred_lookup: "fmpred P m \<Longrightarrow> fmlookup m k = Some v \<Longrightarrow> P k v"
  by (rule fmpredD)

lemma foldl_fmupd:
  "distinct (map fst xs) \<Longrightarrow> foldl (\<lambda>m (k, v). fmupd k v m) m0 xs = m0 ++\<^sub>f fmap_of_list xs"
proof (induction xs arbitrary: m0)
  case Nil
  then show ?case by (simp add: fmap_eqI)
next
  case (Cons x xs)
  obtain k v where x: "x = (k, v)" by (cases x)
  have "foldl (\<lambda>m (k, v). fmupd k v m) m0 (x # xs) = fmupd k v m0 ++\<^sub>f fmap_of_list xs"
    using Cons by (simp add: x)
  also have "\<dots> = m0 ++\<^sub>f fmap_of_list (x # xs)"
    using Cons.prems map_of_eq_None_iff [of xs k]
    by (intro fmap_eqI) (force simp: x fmlookup_of_list fset_of_list_elem)
  finally show ?case .
qed

lemma lookup_filtered:
  assumes "distinct (map fst es)"
  shows "map_of (filter Q es) key =
    (case map_of es key of Some val \<Rightarrow> (if Q (key, val) then Some val else None) | None \<Rightarrow> None)"
  using assms
proof (induction es)
  case (Cons e es)
  have "map_of (filter Q es) (fst e) = None"
    using Cons.prems by (auto simp: map_of_eq_None_iff)
  with Cons show ?case by (cases e) (auto split: option.splits)
qed simp

section \<open>Text up to a separator\<close>

lemma takeWhile_sep: "c \<notin> set l \<Longrightarrow> takeWhile (\<lambda>x. x \<noteq> c) (l @ c # r) = l"
  by (induction l) auto

lemma dropWhile_sep: "c \<notin> set l \<Longrightarrow> dropWhile (\<lambda>x. x \<noteq> c) (l @ c # r) = c # r"
  by (induction l) auto

section \<open>Counters\<close>

lemma word_less_succ: "n + 1 \<noteq> (0 :: 'a::len word) \<Longrightarrow> n < n + 1"
proof -
  assume "n + 1 \<noteq> 0"
  then have "unat (n + 1) = Suc (unat n)" using unatSuc [of n] by (simp add: add.commute)
  then show ?thesis by (simp add: word_less_nat_alt)
qed

end
