(* ===== verification/Go_Text.thy ===== *)
theory Go_Text
  imports Prelude
begin

text \<open>
  What the program uses of Go's \<^verbatim>\<open>fmt\<close>, \<^verbatim>\<open>strconv\<close>, \<^verbatim>\<open>unicode/utf8\<close> and \<^verbatim>\<open>encoding/base64\<close>:
  decimal numbers, the length of a valid UTF-8 sequence, UTF-8 encoding of a code point
  and standard base64, each with the round trip the payload codecs rest on.
\<close>

definition byte :: "char \<Rightarrow> nat" where
  "byte c = of_char c"

lemma byte_less [simp]: "byte c < 256"
  by (simp add: byte_def)

lemma byte_inject [simp]: "byte a = byte b \<longleftrightarrow> a = b"
  by (simp add: byte_def)

lemma byte_char_of [simp]: "n < 256 \<Longrightarrow> byte (char_of n) = n"
  by (simp add: byte_def)

lemma char_of_byte [simp]: "char_of (byte c) = c"
  by (simp add: byte_def)

section \<open>Decimal numbers\<close>

definition digit :: "nat \<Rightarrow> char" where
  "digit n = char_of (48 + n)"

definition is_digit :: "char \<Rightarrow> bool" where
  "is_digit c \<longleftrightarrow> 48 \<le> byte c \<and> byte c \<le> 57"

fun itoa_nat :: "nat \<Rightarrow> string" where
  "itoa_nat n = (if n < 10 then [digit n] else itoa_nat (n div 10) @ [digit (n mod 10)])"

declare itoa_nat.simps [simp del]

definition itoa :: "int \<Rightarrow> string" where
  "itoa i = (if i < 0 then CHR ''-'' # itoa_nat (nat (- i)) else itoa_nat (nat i))"

definition digits_val :: "string \<Rightarrow> nat" where
  "digits_val s = foldl (\<lambda>a c. 10 * a + (byte c - 48)) 0 s"

text \<open>\<^verbatim>\<open>strconv.ParseUint(s, 10, 64)\<close>: digits only, within 64 bits.\<close>

definition parse_uint :: "nat \<Rightarrow> string \<Rightarrow> nat option" where
  "parse_uint w s =
     (if s \<noteq> [] \<and> list_all is_digit s \<and> digits_val s < 2 ^ w then Some (digits_val s) else None)"

text \<open>\<^verbatim>\<open>strconv.ParseInt(s, 10, 64)\<close>: an optional sign, then the same.\<close>

definition parse_int64 :: "string \<Rightarrow> int option" where
  "parse_int64 s =
     (case s of
        c # r \<Rightarrow>
          if c = CHR ''-'' then
            (if r \<noteq> [] \<and> list_all is_digit r \<and> digits_val r \<le> 2 ^ 63 then Some (- int (digits_val r)) else None)
          else if list_all is_digit s \<and> digits_val s < 2 ^ 63 then Some (int (digits_val s)) else None
      | [] \<Rightarrow> None)"

lemma byte_digit [simp]: "n < 10 \<Longrightarrow> byte (digit n) = 48 + n"
  by (simp add: digit_def)

lemma is_digit_digit [simp]: "n < 10 \<Longrightarrow> is_digit (digit n)"
  by (simp add: is_digit_def)

lemma itoa_nat_digits: "itoa_nat n \<noteq> [] \<and> list_all is_digit (itoa_nat n)"
proof (induction n rule: itoa_nat.induct)
  case (1 n)
  then show ?case by (subst itoa_nat.simps, subst (2) itoa_nat.simps) auto
qed

lemma itoa_nat_val: "digits_val (itoa_nat n) = n"
proof (induction n rule: itoa_nat.induct)
  case (1 n)
  show ?case
  proof (cases "n < 10")
    case True
    then show ?thesis by (subst itoa_nat.simps) (simp add: digits_val_def)
  next
    case False
    then have "digits_val (itoa_nat n) = 10 * digits_val (itoa_nat (n div 10)) + n mod 10"
      by (subst itoa_nat.simps) (simp add: digits_val_def)
    with 1 False show ?thesis by simp
  qed
qed

lemma parse_uint_itoa: "n < 2 ^ w \<Longrightarrow> parse_uint w (itoa_nat n) = Some n"
  by (simp add: parse_uint_def itoa_nat_val itoa_nat_digits)

lemma parse_int64_itoa_nat: "n < 2 ^ 63 \<Longrightarrow> parse_int64 (itoa_nat n) = Some (int n)"
proof -
  assume n: "n < 2 ^ 63"
  obtain c r where cr: "itoa_nat n = c # r" using itoa_nat_digits by (metis neq_Nil_conv)
  have "is_digit c" using itoa_nat_digits [of n] cr by simp
  then have "c \<noteq> CHR ''-''" by (auto simp: is_digit_def byte_def)
  then show ?thesis
    using n itoa_nat_digits [of n] itoa_nat_val [of n] by (simp add: parse_int64_def cr)
qed

lemma itoa_nat_inject: "itoa_nat a = itoa_nat b \<longleftrightarrow> a = b"
  using itoa_nat_val by metis

lemma itoa_nat_head: "\<exists>c r. itoa_nat n = c # r \<and> is_digit c \<and> list_all is_digit r"
  using itoa_nat_digits [of n] by (cases "itoa_nat n") auto

section \<open>UTF-8\<close>

definition in_range :: "nat \<Rightarrow> nat \<Rightarrow> char \<Rightarrow> bool" where
  "in_range lo hi c \<longleftrightarrow> lo \<le> byte c \<and> byte c \<le> hi"

abbreviation is_cont :: "char \<Rightarrow> bool" where
  "is_cont \<equiv> in_range 128 191"

text \<open>
  The number of bytes of the valid sequence a string starts with, and 0 where
  \<^verbatim>\<open>utf8.DecodeRuneInString\<close> reports \<^verbatim>\<open>RuneError\<close> of width at most one.
\<close>

definition rune2 :: "char \<Rightarrow> char \<Rightarrow> bool" where
  "rune2 a b \<longleftrightarrow> in_range 194 223 a \<and> is_cont b"

definition rune3 :: "char \<Rightarrow> char \<Rightarrow> char \<Rightarrow> bool" where
  "rune3 a b c \<longleftrightarrow> in_range 224 239 a \<and> is_cont c \<and>
     in_range (if byte a = 224 then 160 else 128) (if byte a = 237 then 159 else 191) b"

definition rune4 :: "char \<Rightarrow> char \<Rightarrow> char \<Rightarrow> char \<Rightarrow> bool" where
  "rune4 a b c d \<longleftrightarrow> in_range 240 244 a \<and> is_cont c \<and> is_cont d \<and>
     in_range (if byte a = 240 then 144 else 128) (if byte a = 244 then 143 else 191) b"

fun utf8_len :: "string \<Rightarrow> nat" where
  "utf8_len [] = 0"
| "utf8_len (a # r) =
     (if byte a < 128 then 1
      else
        (case r of
           [] \<Rightarrow> 0
         | b # r2 \<Rightarrow>
             if rune2 a b then 2
             else
               (case r2 of
                  [] \<Rightarrow> 0
                | c # r3 \<Rightarrow>
                    if rune3 a b c then 3
                    else (case r3 of [] \<Rightarrow> 0 | d # _ \<Rightarrow> if rune4 a b c d then 4 else 0))))"

text \<open>The bytes of a code point (\<^verbatim>\<open>utf8.AppendRune\<close>).\<close>

definition utf8_encode :: "nat \<Rightarrow> string" where
  "utf8_encode n =
     (if n < 128 then [char_of n]
      else if n < 2048 then [char_of (192 + n div 64), char_of (128 + n mod 64)]
      else if n < 65536 then
        [char_of (224 + n div 4096), char_of (128 + n div 64 mod 64), char_of (128 + n mod 64)]
      else [char_of (240 + n div 262144), char_of (128 + n div 4096 mod 64),
            char_of (128 + n div 64 mod 64), char_of (128 + n mod 64)])"

definition replacement :: string where
  "replacement = utf8_encode 65533"

text \<open>The shapes of a valid sequence; every byte of a longer one is above ASCII.\<close>

lemma rune_high:
  "rune2 a b \<Longrightarrow> 128 \<le> byte a \<and> 128 \<le> byte b"
  "rune3 a b c \<Longrightarrow> 128 \<le> byte a \<and> 128 \<le> byte b \<and> 128 \<le> byte c"
  "rune4 a b c d \<Longrightarrow> 128 \<le> byte a \<and> 128 \<le> byte b \<and> 128 \<le> byte c \<and> 128 \<le> byte d"
  by (auto simp: rune2_def rune3_def rune4_def in_range_def split: if_splits)

lemma rune_lead:
  "rune2 a b \<Longrightarrow> \<not> rune3 a c d \<and> \<not> rune4 a c d e"
  "rune3 a c d \<Longrightarrow> \<not> rune2 a b \<and> \<not> rune4 a b e f"
  "rune4 a c d e \<Longrightarrow> \<not> rune2 a b \<and> \<not> rune3 a b f"
  by (auto simp: rune2_def rune3_def rune4_def in_range_def)

lemma utf8_len_rune [simp]:
  "byte a < 128 \<Longrightarrow> utf8_len (a # r) = 1"
  "rune2 a b \<Longrightarrow> utf8_len (a # b # r) = 2"
  "rune3 a b c \<Longrightarrow> utf8_len (a # b # c # r) = 3"
  "rune4 a b c d \<Longrightarrow> utf8_len (a # b # c # d # r) = 4"
  using rune_high(1) [of a b] rune_high(2) [of a b c] rune_high(3) [of a b c d]
    rune_lead(2) [of a b c b] rune_lead(3) [of a b c d b c]
  by auto

declare utf8_len.simps(2) [simp del]

lemma utf8_len_cases:
  assumes "utf8_len s \<noteq> 0"
  obtains (one) a t where "s = a # t" "byte a < 128"
  | (two) a b t where "s = a # b # t" "rune2 a b"
  | (three) a b c t where "s = a # b # c # t" "rune3 a b c"
  | (four) a b c d t where "s = a # b # c # d # t" "rune4 a b c d"
  using assms by (cases s) (auto simp: utf8_len.simps split: list.splits if_splits)

lemma utf8_len_le: "utf8_len s \<le> length s"
proof (cases "utf8_len s = 0")
  case False
  then show ?thesis by (cases rule: utf8_len_cases) auto
qed simp

function valid_utf8 :: "string \<Rightarrow> bool" where
  "valid_utf8 [] = True"
| "valid_utf8 (a # r) =
     (utf8_len (a # r) \<noteq> 0 \<and> valid_utf8 (drop (utf8_len (a # r) - 1) r))"
  by pat_completeness auto
termination
  by (relation "measure length") auto

text \<open>The equations of \<open>valid_utf8\<close> by shape, and the induction they give.\<close>

lemma valid_utf8_simps [simp]:
  "byte a < 128 \<Longrightarrow> valid_utf8 (a # r) = valid_utf8 r"
  "rune2 a b \<Longrightarrow> valid_utf8 (a # b # r) = valid_utf8 r"
  "rune3 a b c \<Longrightarrow> valid_utf8 (a # b # c # r) = valid_utf8 r"
  "rune4 a b c d \<Longrightarrow> valid_utf8 (a # b # c # d # r) = valid_utf8 r"
  by simp_all

declare valid_utf8.simps(2) [simp del]

lemma valid_utf8_induct [consumes 1, case_names nil one two three four]:
  assumes "valid_utf8 s"
    and "P []"
    and "\<And>a t. byte a < 128 \<Longrightarrow> valid_utf8 t \<Longrightarrow> P t \<Longrightarrow> P (a # t)"
    and "\<And>a b t. rune2 a b \<Longrightarrow> valid_utf8 t \<Longrightarrow> P t \<Longrightarrow> P (a # b # t)"
    and "\<And>a b c t. rune3 a b c \<Longrightarrow> valid_utf8 t \<Longrightarrow> P t \<Longrightarrow> P (a # b # c # t)"
    and "\<And>a b c d t. rune4 a b c d \<Longrightarrow> valid_utf8 t \<Longrightarrow> P t \<Longrightarrow> P (a # b # c # d # t)"
  shows "P s"
  using assms(1)
proof (induction s rule: length_induct)
  case (1 s)
  show ?case
  proof (cases s)
    case Nil
    then show ?thesis using assms(2) by simp
  next
    case (Cons a r)
    with 1(2) have "utf8_len s \<noteq> 0" by (simp add: valid_utf8.simps)
    then show ?thesis
      by (cases rule: utf8_len_cases) (use 1 assms(3-) in auto)
  qed
qed

lemma valid_utf8_ascii: "list_all (\<lambda>c. byte c < 128) s \<Longrightarrow> valid_utf8 s"
  by (induction s) simp_all

lemma valid_utf8_append: "valid_utf8 s \<Longrightarrow> valid_utf8 t \<Longrightarrow> valid_utf8 (s @ t)"
  by (induction s rule: valid_utf8_induct) simp_all

section \<open>Base64\<close>

definition b64_chr :: "nat \<Rightarrow> char" where
  "b64_chr n = char_of (if n < 26 then n + 65 else if n < 52 then n + 71
     else if n < 62 then n - 4 else if n = 62 then 43 else 47)"

definition b64_val :: "char \<Rightarrow> nat option" where
  "b64_val c =
     (let x = byte c in
      if 65 \<le> x \<and> x \<le> 90 then Some (x - 65)
      else if 97 \<le> x \<and> x \<le> 122 then Some (x - 71)
      else if 48 \<le> x \<and> x \<le> 57 then Some (x + 4)
      else if x = 43 then Some 62
      else if x = 47 then Some 63
      else None)"

fun b64_enc :: "string \<Rightarrow> string" where
  "b64_enc [] = []"
| "b64_enc [a] = [b64_chr (byte a div 4), b64_chr (byte a mod 4 * 16), CHR ''='', CHR ''='']"
| "b64_enc [a, b] =
     [b64_chr (byte a div 4), b64_chr (byte a mod 4 * 16 + byte b div 16),
      b64_chr (byte b mod 16 * 4), CHR ''='']"
| "b64_enc (a # b # c # r) =
     b64_chr (byte a div 4) # b64_chr (byte a mod 4 * 16 + byte b div 16)
     # b64_chr (byte b mod 16 * 4 + byte c div 64) # b64_chr (byte c mod 64) # b64_enc r"

fun b64_quanta :: "string \<Rightarrow> string option" where
  "b64_quanta [] = Some []"
| "b64_quanta (w # x # y # z # r) =
     (case (b64_val w, b64_val x) of
        (Some i, Some j) \<Rightarrow>
          if y = CHR ''='' then
            (if z = CHR ''='' \<and> r = [] then Some [char_of (i * 4 + j div 16)] else None)
          else
            (case b64_val y of
               None \<Rightarrow> None
             | Some k \<Rightarrow>
                 if z = CHR ''='' then
                   (if r = [] then Some [char_of (i * 4 + j div 16), char_of (j mod 16 * 16 + k div 4)]
                    else None)
                 else
                   (case b64_val z of
                      None \<Rightarrow> None
                    | Some l \<Rightarrow>
                        map_option (\<lambda>t. char_of (i * 4 + j div 16) # char_of (j mod 16 * 16 + k div 4)
                           # char_of (k mod 4 * 64 + l) # t) (b64_quanta r)))
      | _ \<Rightarrow> None)"
| "b64_quanta _ = None"

text \<open>\<^verbatim>\<open>base64.StdEncoding.Decode\<close> skips line breaks.\<close>

definition b64_dec :: "string \<Rightarrow> string option" where
  "b64_dec s = b64_quanta (filter (\<lambda>c. byte c \<noteq> 10 \<and> byte c \<noteq> 13) s)"

lemma byte_b64_chr: "n < 64 \<Longrightarrow> byte (b64_chr n) =
    (if n < 26 then n + 65 else if n < 52 then n + 71 else if n < 62 then n - 4 else if n = 62 then 43 else 47)"
  by (auto simp: b64_chr_def)

lemma b64_val_chr [simp]: "n < 64 \<Longrightarrow> b64_val (b64_chr n) = Some n"
  by (auto simp: b64_val_def byte_b64_chr Let_def)

lemma b64_chr_neq_pad [simp]: "n < 64 \<Longrightarrow> b64_chr n \<noteq> CHR ''=''"
proof
  assume "n < 64" "b64_chr n = CHR ''=''"
  then have "b64_val (CHR ''='') = Some n" by (metis b64_val_chr)
  then show False by (simp add: b64_val_def byte_def)
qed

lemma byte_parts [simp]:
  "byte a div 4 < 64" "byte b div 16 < 16" "byte c div 64 < 4"
  "byte b div 16 div 16 = 0" "byte c div 64 div 4 = 0"
  "byte b div 16 mod 16 * 16 + byte b mod 16 = byte b"
  "byte c div 64 mod 4 * 64 + byte c mod 64 = byte c"
proof -
  show *: "byte a div 4 < 64" "byte b div 16 < 16" "byte c div 64 < 4"
    by (rule less_mult_imp_div_less, simp)+
  show "byte b div 16 div 16 = 0" "byte c div 64 div 4 = 0"
    "byte b div 16 mod 16 * 16 + byte b mod 16 = byte b"
    "byte c div 64 mod 4 * 64 + byte c mod 64 = byte c"
    using * by simp_all
qed

lemma byte_sextets [simp]:
  "byte a mod 4 * 16 < 64" "byte a mod 4 * 16 + byte b div 16 < 64"
  "byte b mod 16 * 4 < 64" "byte b mod 16 * 4 + byte c div 64 < 64"
proof -
  have "byte a mod 4 \<le> 3" "byte b mod 16 \<le> 15" "byte b div 16 < 16" "byte c div 64 < 4" by simp_all
  then show "byte a mod 4 * 16 < 64" "byte a mod 4 * 16 + byte b div 16 < 64"
    "byte b mod 16 * 4 < 64" "byte b mod 16 * 4 + byte c div 64 < 64" by linarith+
qed

lemma b64_quanta_enc: "b64_quanta (b64_enc s) = Some s"
  by (induction s rule: b64_enc.induct) simp_all

definition b64_safe :: "char \<Rightarrow> bool" where
  "b64_safe c \<longleftrightarrow> byte c < 128 \<and> (b64_val c \<noteq> None \<or> c = CHR ''='')"

lemma b64_safe_chr: "n < 64 \<Longrightarrow> b64_safe (b64_chr n)"
  by (auto simp: b64_safe_def byte_b64_chr)

lemma b64_enc_safe: "list_all b64_safe (b64_enc s)"
proof -
  have "b64_safe (CHR ''='')" by (simp add: b64_safe_def byte_def)
  then show ?thesis
    by (induction s rule: b64_enc.induct) (auto intro: b64_safe_chr)
qed

lemma b64_safe_not_break: "b64_safe c \<Longrightarrow> byte c \<noteq> 10 \<and> byte c \<noteq> 13"
  by (auto simp: b64_safe_def b64_val_def byte_def)

lemma b64_dec_enc: "b64_dec (b64_enc s) = Some s"
proof -
  have "filter (\<lambda>c. byte c \<noteq> 10 \<and> byte c \<noteq> 13) (b64_enc s) = b64_enc s"
    using b64_enc_safe [of s] b64_safe_not_break by (auto simp: list_all_iff filter_id_conv)
  then show ?thesis by (simp add: b64_dec_def b64_quanta_enc)
qed

lemma valid_utf8_b64: "valid_utf8 (b64_enc s)"
  using b64_enc_safe [of s] by (intro valid_utf8_ascii) (auto simp: b64_safe_def list_all_iff)

interpretation b64: codec b64_enc b64_dec "\<lambda>_. True"
  by unfold_locales (rule b64_dec_enc)

lemma valid_utf8_itoa_nat: "valid_utf8 (itoa_nat n)"
  using itoa_nat_digits [of n]
  by (intro valid_utf8_ascii) (auto simp: list_all_iff is_digit_def)

end
