(* ===== verification/Go_JSON.thy ===== *)
theory Go_JSON
  imports Go_Text
begin

text \<open>
  What the program uses of Go's \<^verbatim>\<open>encoding/json\<close> (Go 1.22): the text \<^verbatim>\<open>json.Marshal\<close> prints for
  a document, the parser behind \<^verbatim>\<open>json.Unmarshal\<close>, and how it stores a document into Go
  values of the basic types, errors included. Strings are escaped as Go does it (HTML
  characters, control characters, the two line separators, invalid UTF-8 as U+FFFD). A number
  keeps its literal, because the decoder parses it by the target type. The parser recurses on
  fuel; the length of the input is enough, since every call reads at least one byte
  (\<open>parse_fuel_enough\<close>). A document that nests deeper than Go's scanner allows is refused like one that does
  not parse (\<open>nests\<close>); no payload of the program nests deeper than four.
\<close>

datatype json =
    JNull
  | JBool bool
  | JNum string
  | JStr string
  | JArr "json list"
  | JObj "(string \<times> json) list"

abbreviation quote_chr :: char where "quote_chr \<equiv> CHR 0x22"
abbreviation backslash :: char where "backslash \<equiv> CHR 0x5C"

section \<open>Printing\<close>

definition hex_digit :: "nat \<Rightarrow> char" where
  "hex_digit n = (if n < 10 then char_of (48 + n) else char_of (87 + n))"

definition esc_ascii :: "char \<Rightarrow> string" where
  "esc_ascii a =
     (let x = byte a in
      if x = 34 \<or> x = 92 then [backslash, a]
      else if x = 8 then [backslash, CHR ''b'']
      else if x = 12 then [backslash, CHR ''f'']
      else if x = 10 then [backslash, CHR ''n'']
      else if x = 13 then [backslash, CHR ''r'']
      else if x = 9 then [backslash, CHR ''t'']
      else if x < 32 \<or> x = 60 \<or> x = 62 \<or> x = 38
        then [backslash, CHR ''u'', CHR ''0'', CHR ''0'', hex_digit (x div 16), hex_digit (x mod 16)]
      else [a])"

function quote_body :: "string \<Rightarrow> string" where
  "quote_body [] = []"
| "quote_body (a # r) =
     (if byte a < 128 then esc_ascii a @ quote_body r
      else
        let n = utf8_len (a # r); rune = take n (a # r) in
        if n = 0 then backslash # ''ufffd'' @ quote_body r
        else (if rune = utf8_encode 0x2028 then backslash # ''u2028''
              else if rune = utf8_encode 0x2029 then backslash # ''u2029''
              else rune) @ quote_body (drop (n - 1) r))"
  by pat_completeness auto
termination
  by (relation "measure length") auto

definition quote :: "string \<Rightarrow> string" where
  "quote s = quote_chr # quote_body s @ [quote_chr]"

fun json_print :: "json \<Rightarrow> string"
  and print_elems :: "json list \<Rightarrow> string"
  and print_members :: "(string \<times> json) list \<Rightarrow> string" where
  "json_print JNull = ''null''"
| "json_print (JBool b) = (if b then ''true'' else ''false'')"
| "json_print (JNum s) = s"
| "json_print (JStr s) = quote s"
| "json_print (JArr xs) = CHR ''['' # print_elems xs @ '']''"
| "json_print (JObj ms) = CHR ''{'' # print_members ms @ ''}''"
| "print_elems [] = []"
| "print_elems [x] = json_print x"
| "print_elems (x # y # xs) = json_print x @ CHR '','' # print_elems (y # xs)"
| "print_members [] = []"
| "print_members [(k, v)] = quote k @ CHR '':'' # json_print v"
| "print_members ((k, v) # m # ms) = quote k @ CHR '':'' # json_print v @ CHR '','' # print_members (m # ms)"

section \<open>Parsing\<close>

definition is_ws :: "char \<Rightarrow> bool" where
  "is_ws c \<longleftrightarrow> byte c = 32 \<or> byte c = 9 \<or> byte c = 10 \<or> byte c = 13"

definition skip_ws :: "string \<Rightarrow> string" where
  "skip_ws s = dropWhile is_ws s"

definition hex_val :: "char \<Rightarrow> nat option" where
  "hex_val c =
     (let x = byte c in
      if 48 \<le> x \<and> x \<le> 57 then Some (x - 48)
      else if 97 \<le> x \<and> x \<le> 102 then Some (x - 87)
      else if 65 \<le> x \<and> x \<le> 70 then Some (x - 55)
      else None)"

fun hex4 :: "string \<Rightarrow> nat option" where
  "hex4 (a # b # c # d # _) =
     (case (hex_val a, hex_val b, hex_val c, hex_val d) of
        (Some i, Some j, Some k, Some l) \<Rightarrow> Some (i * 4096 + j * 256 + k * 16 + l)
      | _ \<Rightarrow> None)"
| "hex4 _ = None"

text \<open>The second half of a surrogate pair, if the text goes on with one.\<close>

definition low_surrogate :: "string \<Rightarrow> nat option" where
  "low_surrogate s =
     (case s of
        a # b # t \<Rightarrow>
          if a = backslash \<and> b = CHR ''u'' then
            (case hex4 t of
               Some l \<Rightarrow> if 0xDC00 \<le> l \<and> l < 0xE000 then Some l else None
             | None \<Rightarrow> None)
          else None
      | _ \<Rightarrow> None)"

text \<open>What follows a backslash: the bytes it stands for and how many characters it takes.\<close>

definition unescape :: "string \<Rightarrow> (string \<times> nat) option" where
  "unescape s =
     (case s of
        [] \<Rightarrow> None
      | e # t \<Rightarrow>
          if e = quote_chr \<or> e = backslash \<or> e = CHR ''/'' then Some ([e], 1)
          else if e = CHR ''b'' then Some ([CHR 0x08], 1)
          else if e = CHR ''f'' then Some ([CHR 0x0C], 1)
          else if e = CHR ''n'' then Some ([CHR 0x0A], 1)
          else if e = CHR ''r'' then Some ([CHR 0x0D], 1)
          else if e = CHR ''t'' then Some ([CHR 0x09], 1)
          else if e = CHR ''u'' then
            (case hex4 t of
               None \<Rightarrow> None
             | Some u \<Rightarrow>
                 if 0xD800 \<le> u \<and> u < 0xE000 then
                   (case low_surrogate (drop 4 t) of
                      Some l \<Rightarrow>
                        if u < 0xDC00 then Some (utf8_encode (0x10000 + (u - 0xD800) * 0x400 + (l - 0xDC00)), 11)
                        else Some (replacement, 5)
                    | None \<Rightarrow> Some (replacement, 5))
                 else Some (utf8_encode u, 5))
          else None)"

definition prepend :: "string \<Rightarrow> (string \<times> string) option \<Rightarrow> (string \<times> string) option" where
  "prepend s = map_option (\<lambda>(t, r). (s @ t, r))"

text \<open>The contents of a string literal, from after its opening quote.\<close>

function parse_str :: "string \<Rightarrow> (string \<times> string) option" where
  "parse_str [] = None"
| "parse_str (a # r) =
     (if a = quote_chr then Some ([], r)
      else if a = backslash then
        (case unescape r of None \<Rightarrow> None | Some (s, k) \<Rightarrow> prepend s (parse_str (drop k r)))
      else if byte a < 32 then None
      else if byte a < 128 then prepend [a] (parse_str r)
      else
        let n = utf8_len (a # r) in
        if n = 0 then prepend replacement (parse_str r)
        else prepend (take n (a # r)) (parse_str (drop (n - 1) r)))"
  by pat_completeness auto
termination
  by (relation "measure length") auto

definition parse_frac :: "string \<Rightarrow> (string \<times> string) option" where
  "parse_frac s =
     (case s of
        c # r \<Rightarrow>
          if c = CHR ''.'' then
            (if takeWhile is_digit r = [] then None
             else Some (c # takeWhile is_digit r, dropWhile is_digit r))
          else Some ([], s)
      | [] \<Rightarrow> Some ([], []))"

definition parse_exp :: "string \<Rightarrow> (string \<times> string) option" where
  "parse_exp s =
     (case s of
        c # r \<Rightarrow>
          if c = CHR ''e'' \<or> c = CHR ''E'' then
            (let (sg, t) = (case r of d # t \<Rightarrow> if d = CHR ''+'' \<or> d = CHR ''-'' then ([d], t) else ([], r)
                                    | [] \<Rightarrow> ([], [])) in
             if takeWhile is_digit t = [] then None
             else Some (c # sg @ takeWhile is_digit t, dropWhile is_digit t))
          else Some ([], s)
      | [] \<Rightarrow> Some ([], []))"

definition parse_int_part :: "string \<Rightarrow> string \<times> string" where
  "parse_int_part s =
     (case s of
        c # r \<Rightarrow> if c = CHR ''0'' then ([c], r) else (takeWhile is_digit s, dropWhile is_digit s)
      | [] \<Rightarrow> ([], []))"

definition parse_num :: "string \<Rightarrow> (string \<times> string) option" where
  "parse_num s =
     (let (sg, s1) = (case s of c # r \<Rightarrow> if c = CHR ''-'' then ([c], r) else ([], s) | [] \<Rightarrow> ([], []));
          (ip, s2) = parse_int_part s1 in
      if ip = [] then None
      else
        (case parse_frac s2 of
           None \<Rightarrow> None
         | Some (fp, s3) \<Rightarrow>
             (case parse_exp s3 of None \<Rightarrow> None | Some (ep, s4) \<Rightarrow> Some (sg @ ip @ fp @ ep, s4))))"

definition parse_lit :: "string \<Rightarrow> json \<Rightarrow> string \<Rightarrow> (json \<times> string) option" where
  "parse_lit w j s = (if take (length w) s = w then Some (j, drop (length w) s) else None)"

fun parse_value :: "nat \<Rightarrow> string \<Rightarrow> (json \<times> string) option"
  and parse_elems :: "nat \<Rightarrow> string \<Rightarrow> (json list \<times> string) option"
  and parse_members :: "nat \<Rightarrow> string \<Rightarrow> ((string \<times> json) list \<times> string) option" where
  "parse_value 0 s = None"
| "parse_value (Suc n) s =
     (case skip_ws s of
        [] \<Rightarrow> None
      | c # r \<Rightarrow>
          if c = CHR ''{'' then
            (case skip_ws r of
               d # t \<Rightarrow>
                 if d = CHR ''}'' then Some (JObj [], t)
                 else map_option (\<lambda>(ms, u). (JObj ms, u)) (parse_members n r)
             | [] \<Rightarrow> None)
          else if c = CHR ''['' then
            (case skip_ws r of
               d # t \<Rightarrow>
                 if d = CHR '']'' then Some (JArr [], t)
                 else map_option (\<lambda>(xs, u). (JArr xs, u)) (parse_elems n r)
             | [] \<Rightarrow> None)
          else if c = quote_chr then map_option (\<lambda>(s, u). (JStr s, u)) (parse_str r)
          else if c = CHR ''t'' then parse_lit ''true'' (JBool True) (c # r)
          else if c = CHR ''f'' then parse_lit ''false'' (JBool False) (c # r)
          else if c = CHR ''n'' then parse_lit ''null'' JNull (c # r)
          else map_option (\<lambda>(l, u). (JNum l, u)) (parse_num (c # r)))"
| "parse_elems 0 s = None"
| "parse_elems (Suc n) s =
     (case parse_value n s of
        None \<Rightarrow> None
      | Some (x, r) \<Rightarrow>
          (case skip_ws r of
             c # t \<Rightarrow>
               if c = CHR '','' then map_option (\<lambda>(xs, u). (x # xs, u)) (parse_elems n t)
               else if c = CHR '']'' then Some ([x], t)
               else None
           | [] \<Rightarrow> None))"
| "parse_members 0 s = None"
| "parse_members (Suc n) s =
     (case skip_ws s of
        [] \<Rightarrow> None
      | q # r \<Rightarrow>
          if q \<noteq> quote_chr then None
          else
            (case parse_str r of
               None \<Rightarrow> None
             | Some (k, r1) \<Rightarrow>
                 (case skip_ws r1 of
                    [] \<Rightarrow> None
                  | c # r2 \<Rightarrow>
                      if c \<noteq> CHR '':'' then None
                      else
                        (case parse_value n r2 of
                           None \<Rightarrow> None
                         | Some (v, r3) \<Rightarrow>
                             (case skip_ws r3 of
                                d # t \<Rightarrow>
                                  if d = CHR '','' then map_option (\<lambda>(ms, u). ((k, v) # ms, u)) (parse_members n t)
                                  else if d = CHR ''}'' then Some ([(k, v)], t)
                                  else None
                              | [] \<Rightarrow> None)))))"

text \<open>The scanner counts open arrays and objects and gives up beyond \<open>max_nesting\<close>.\<close>

abbreviation max_nesting :: nat where "max_nesting \<equiv> 10000"

fun nests :: "nat \<Rightarrow> json \<Rightarrow> bool" where
  "nests d (JArr xs) = (0 < d \<and> list_all (nests (d - 1)) xs)"
| "nests d (JObj ms) = (0 < d \<and> list_all (\<lambda>(k, v). nests (d - 1) v) ms)"
| "nests d _ = True"

text \<open>A whole document: one value and nothing but white space after it.\<close>

definition json_parse :: "string \<Rightarrow> json option" where
  "json_parse s =
     (case parse_value (Suc (length s)) s of
        Some (v, r) \<Rightarrow> if skip_ws r = [] \<and> nests max_nesting v then Some v else None
      | None \<Rightarrow> None)"

section \<open>Strings survive printing and parsing\<close>

lemma prepend_simps [simp]:
  "prepend s None = None" "prepend s (Some (t, r)) = Some (s @ t, r)"
  by (simp_all add: prepend_def)

lemma hex_val_digit [simp]: "n < 16 \<Longrightarrow> hex_val (hex_digit n) = Some n"
  by (auto simp: hex_val_def hex_digit_def Let_def)

lemma hex_val_0 [simp]: "hex_val (CHR ''0'') = Some 0"
  by (simp add: hex_val_def byte_def)

lemma byte_eq_char: "n < 256 \<Longrightarrow> byte a = n \<longleftrightarrow> a = char_of n"
  using byte_inject [of a "char_of n"] by simp

lemma byte_quote [simp]: "byte quote_chr = 34" "byte backslash = 92"
  by (simp_all add: byte_def)

lemma byte_special:
  "byte a = 34 \<longleftrightarrow> a = quote_chr" "byte a = 92 \<longleftrightarrow> a = backslash" "byte a = 8 \<longleftrightarrow> a = CHR 0x08"
  "byte a = 12 \<longleftrightarrow> a = CHR 0x0C" "byte a = 10 \<longleftrightarrow> a = CHR 0x0A" "byte a = 13 \<longleftrightarrow> a = CHR 0x0D"
  "byte a = 9 \<longleftrightarrow> a = CHR 0x09"
  using byte_inject [of a quote_chr] byte_inject [of a backslash] byte_inject [of a "CHR 0x08"]
    byte_inject [of a "CHR 0x0C"] byte_inject [of a "CHR 0x0A"] byte_inject [of a "CHR 0x0D"]
    byte_inject [of a "CHR 0x09"]
  by (simp_all add: byte_def del: byte_inject of_char_eq_iff)

lemma esc_ascii_plain:
  assumes "byte a \<notin> {34, 92, 60, 62, 38}" "32 \<le> byte a"
  shows "esc_ascii a = [a]"
  using assms by (auto simp: esc_ascii_def Let_def)

lemma unescape_u_low:
  assumes "n < 128"
  shows "unescape (CHR ''u'' # CHR ''0'' # CHR ''0'' # hex_digit (n div 16) # hex_digit (n mod 16) # t)
    = Some ([char_of n], 5)"
proof -
  have "n div 16 < 16" using assms by (intro less_mult_imp_div_less) simp
  moreover have "n div 16 * 16 + n mod 16 = n" by simp
  ultimately show ?thesis
    using assms by (simp add: unescape_def utf8_encode_def)
qed

lemma parse_str_escape:
  "parse_str (backslash # e) = (case unescape e of None \<Rightarrow> None | Some (s, k) \<Rightarrow> prepend s (parse_str (drop k e)))"
  by simp

lemma parse_str_esc_ascii:
  assumes "byte a < 128"
  shows "parse_str (esc_ascii a @ t) = prepend [a] (parse_str t)"
proof -
  consider (two) "byte a \<in> {34, 92, 8, 12, 10, 13, 9}"
    | (hex) "byte a \<notin> {34, 92, 8, 12, 10, 13, 9}" "byte a < 32 \<or> byte a = 60 \<or> byte a = 62 \<or> byte a = 38"
    | (plain) "byte a \<notin> {34, 92, 60, 62, 38}" "32 \<le> byte a"
    by force
  then show ?thesis
  proof cases
    case two
    then show ?thesis
      unfolding byte_special insert_iff empty_iff
      by (elim disjE) (simp_all add: esc_ascii_def unescape_def byte_def)
  next
    case hex
    then have "esc_ascii a = [backslash, CHR ''u'', CHR ''0'', CHR ''0'', hex_digit (byte a div 16), hex_digit (byte a mod 16)]"
      by (auto simp: esc_ascii_def Let_def)
    then show ?thesis
      using unescape_u_low [OF assms] by (simp del: parse_str.simps add: parse_str_escape)
  next
    case plain
    then have "a \<noteq> quote_chr" "a \<noteq> backslash" by (metis byte_quote insertCI)+
    with plain assms show ?thesis
      by (simp add: esc_ascii_plain)
  qed
qed

lemma quote_body_high:
  "rune2 a b \<Longrightarrow> quote_body (a # b # t) = a # b # quote_body t"
  "rune4 a b c d \<Longrightarrow> quote_body (a # b # c # d # t) = a # b # c # d # quote_body t"
  "rune3 a b c \<Longrightarrow> quote_body (a # b # c # t) =
     (if [a, b, c] = utf8_encode 0x2028 then backslash # ''u2028''
      else if [a, b, c] = utf8_encode 0x2029 then backslash # ''u2029'' else [a, b, c]) @ quote_body t"
  using rune_high(1) [of a b] rune_high(2) [of a b c] rune_high(3) [of a b c d]
  by (auto simp: Let_def utf8_encode_def)

lemma high_not_quote: "128 \<le> byte a \<Longrightarrow> a \<noteq> quote_chr \<and> a \<noteq> backslash"
  by auto

lemma parse_str_high:
  "rune2 a b \<Longrightarrow> parse_str (a # b # t) = prepend [a, b] (parse_str t)"
  "rune3 a b c \<Longrightarrow> parse_str (a # b # c # t) = prepend [a, b, c] (parse_str t)"
  "rune4 a b c d \<Longrightarrow> parse_str (a # b # c # d # t) = prepend [a, b, c, d] (parse_str t)"
  using rune_high(1) [of a b] rune_high(2) [of a b c] rune_high(3) [of a b c d] high_not_quote [of a]
  by (auto simp: Let_def)

lemma parse_str_separator:
  "parse_str (backslash # ''u2028'' @ t) = prepend (utf8_encode 0x2028) (parse_str t)"
  "parse_str (backslash # ''u2029'' @ t) = prepend (utf8_encode 0x2029) (parse_str t)"
  by (simp_all add: unescape_def hex_val_def byte_def)

lemma parse_str_quote:
  "valid_utf8 s \<Longrightarrow> parse_str (quote_body s @ quote_chr # r) = Some (s, r)"
proof (induction s rule: valid_utf8_induct)
  case nil
  then show ?case by simp
next
  case (one a t)
  then show ?case by (simp add: parse_str_esc_ascii del: parse_str.simps)
next
  case (two a b t)
  then show ?case by (simp add: parse_str_high quote_body_high del: parse_str.simps quote_body.simps)
next
  case (three a b c t)
  then show ?case
    using parse_str_separator [of "quote_body t @ quote_chr # r"]
    by (simp add: parse_str_high quote_body_high del: parse_str.simps quote_body.simps)
next
  case (four a b c d t)
  then show ?case by (simp add: parse_str_high quote_body_high del: parse_str.simps quote_body.simps)
qed

section \<open>Documents survive printing and parsing\<close>

text \<open>What may follow a number without being read as part of it.\<close>

definition num_stop :: "string \<Rightarrow> bool" where
  "num_stop r = (case r of [] \<Rightarrow> True | c # _ \<Rightarrow>
     \<not> is_digit c \<and> c \<noteq> CHR ''.'' \<and> c \<noteq> CHR ''e'' \<and> c \<noteq> CHR ''E'')"

lemma num_stop_punct [simp]:
  "num_stop []" "num_stop (CHR '','' # r)" "num_stop (CHR ''}'' # r)" "num_stop (CHR '']'' # r)"
  by (simp_all add: num_stop_def is_digit_def byte_def)

lemma span_digits:
  assumes "list_all is_digit s" "num_stop r"
  shows "takeWhile is_digit (s @ r) = s" "dropWhile is_digit (s @ r) = r"
proof -
  have "takeWhile is_digit r = []" "dropWhile is_digit r = r"
    using assms(2) by (cases r; simp add: num_stop_def)+
  then show "takeWhile is_digit (s @ r) = s" "dropWhile is_digit (s @ r) = r"
    using assms(1) by (simp_all add: list_all_iff takeWhile_append2 dropWhile_append2)
qed

lemma itoa_nat_leading_zero: "itoa_nat n = CHR ''0'' # r \<Longrightarrow> r = [] \<and> n = 0"
proof (induction n arbitrary: r rule: itoa_nat.induct)
  case (1 n)
  show ?case
  proof (cases "n < 10")
    case True
    then have "digit n = CHR ''0''" "r = []" using "1.prems" by (simp_all add: itoa_nat.simps)
    moreover have "byte (digit n) = 48 + n" using True by simp
    ultimately show ?thesis by (simp add: byte_def)
  next
    case False
    then have eq: "itoa_nat (n div 10) @ [digit (n mod 10)] = CHR ''0'' # r"
      using "1.prems" by (subst (asm) itoa_nat.simps) simp
    then obtain t where "itoa_nat (n div 10) = CHR ''0'' # t"
      using itoa_nat_head [of "n div 10"] by auto
    then have "n div 10 = 0" using "1.IH" [OF False] by blast
    with False show ?thesis by simp
  qed
qed

lemma parse_num_itoa:
  assumes "num_stop r"
  shows "parse_num (itoa_nat n @ r) = Some (itoa_nat n, r)"
proof -
  obtain c t where ct: "itoa_nat n = c # t" "is_digit c" "list_all is_digit t"
    using itoa_nat_head by blast
  have minus: "c \<noteq> CHR ''-''" using ct(2) by (auto simp: is_digit_def byte_def)
  have ip: "parse_int_part (itoa_nat n @ r) = (itoa_nat n, r)"
  proof (cases "c = CHR ''0''")
    case True
    then have "t = []" using ct itoa_nat_leading_zero by blast
    then show ?thesis using ct True by (simp add: parse_int_part_def)
  next
    case False
    then show ?thesis
      using ct span_digits [of "c # t" r] assms by (simp add: parse_int_part_def)
  qed
  have fr: "parse_frac r = Some ([], r)" "parse_exp r = Some ([], r)"
    using assms by (cases r; simp add: num_stop_def parse_frac_def parse_exp_def)+
  show ?thesis
    using ct minus ip fr by (simp add: parse_num_def)
qed

text \<open>The documents the program prints: decimal numbers and valid UTF-8.\<close>

fun wf_json :: "json \<Rightarrow> bool" where
  "wf_json JNull = True"
| "wf_json (JBool b) = True"
| "wf_json (JNum s) = (s = itoa_nat (digits_val s))"
| "wf_json (JStr s) = valid_utf8 s"
| "wf_json (JArr xs) = list_all wf_json xs"
| "wf_json (JObj ms) = list_all (\<lambda>(k, v). valid_utf8 k \<and> wf_json v) ms"

text \<open>The first byte of a printed value tells the parser which case it is in.\<close>

lemma skip_ws_head: "\<not> is_ws c \<Longrightarrow> skip_ws (c # r) = c # r"
  by (simp add: skip_ws_def)

lemma skip_ws_punct [simp]:
  "skip_ws (CHR '','' # r) = CHR '','' # r" "skip_ws (CHR '':'' # r) = CHR '':'' # r"
  "skip_ws (CHR ''}'' # r) = CHR ''}'' # r" "skip_ws (CHR '']'' # r) = CHR '']'' # r"
  "skip_ws (CHR ''{'' # r) = CHR ''{'' # r" "skip_ws (CHR ''['' # r) = CHR ''['' # r"
  "skip_ws (quote_chr # r) = quote_chr # r" "skip_ws (CHR ''t'' # r) = CHR ''t'' # r"
  "skip_ws (CHR ''f'' # r) = CHR ''f'' # r" "skip_ws (CHR ''n'' # r) = CHR ''n'' # r"
  "skip_ws [] = []"
  by (simp_all add: skip_ws_def is_ws_def byte_def)

lemma skip_ws_digit: "is_digit c \<Longrightarrow> skip_ws (c # r) = c # r"
  by (rule skip_ws_head) (auto simp: is_ws_def is_digit_def)

lemma not_digit [simp]:
  "\<not> is_digit (CHR ''{'')" "\<not> is_digit (CHR ''['')" "\<not> is_digit quote_chr" "\<not> is_digit (CHR ''t'')"
  "\<not> is_digit (CHR ''f'')" "\<not> is_digit (CHR ''n'')" "\<not> is_digit (CHR ''}'')" "\<not> is_digit (CHR '']'')"
  by (simp_all add: is_digit_def byte_def)

lemma digit_not_ws: "is_digit c \<Longrightarrow> \<not> is_ws c"
  by (auto simp: is_ws_def is_digit_def)

lemma not_ws [simp]:
  "\<not> is_ws (CHR ''{'')" "\<not> is_ws (CHR ''['')" "\<not> is_ws quote_chr" "\<not> is_ws (CHR ''t'')"
  "\<not> is_ws (CHR ''f'')" "\<not> is_ws (CHR ''n'')"
  by (simp_all add: is_ws_def byte_def)

lemma json_print_head:
  assumes "wf_json j"
  shows "\<exists>c t. json_print j = c # t \<and> c \<noteq> CHR ''}'' \<and> c \<noteq> CHR '']'' \<and> \<not> is_ws c"
proof (cases j)
  case (JNum s)
  then obtain c t where ct: "s = c # t" "is_digit c"
    using assms itoa_nat_head [of "digits_val s"] by auto
  then have "c \<noteq> CHR ''}''" "c \<noteq> CHR '']''" "\<not> is_ws c"
    using not_digit digit_not_ws by metis+
  with ct JNum show ?thesis by simp
next
  case (JBool b)
  then show ?thesis by (cases b) simp_all
qed (simp_all add: quote_def)

lemma parse_value_other:
  assumes "is_digit c"
  shows "parse_value (Suc n) (c # r) = map_option (\<lambda>(l, u). (JNum l, u)) (parse_num (c # r))"
proof -
  have "c \<noteq> CHR ''{''" "c \<noteq> CHR ''[''" "c \<noteq> quote_chr" "c \<noteq> CHR ''t''" "c \<noteq> CHR ''f''" "c \<noteq> CHR ''n''"
    using assms not_digit by metis+
  then show ?thesis by (simp add: skip_ws_digit assms)
qed

lemma parse_value_num:
  assumes "s = itoa_nat (digits_val s)" "num_stop r"
  shows "parse_value (Suc n) (s @ r) = Some (JNum s, r)"
proof -
  obtain c t where ct: "s = c # t" "is_digit c"
    using assms(1) itoa_nat_head [of "digits_val s"] by auto
  have "parse_num (s @ r) = Some (s, r)"
    using parse_num_itoa [OF assms(2), of "digits_val s"] assms(1) by simp
  then show ?thesis
    using ct parse_value_other [of c n "t @ r"] by (simp del: parse_value.simps)
qed

text \<open>One step of the list parsers.\<close>

lemma parse_elems_step:
  "parse_value n s = Some (x, CHR '']'' # r) \<Longrightarrow> parse_elems (Suc n) s = Some ([x], r)"
  "parse_value n s = Some (x, CHR '','' # t) \<Longrightarrow> parse_elems n t = Some (xs, r) \<Longrightarrow>
     parse_elems (Suc n) s = Some (x # xs, r)"
  by simp_all

lemma parse_members_step:
  "valid_utf8 k \<Longrightarrow> parse_value n s = Some (v, CHR ''}'' # r) \<Longrightarrow>
     parse_members (Suc n) (quote k @ CHR '':'' # s) = Some ([(k, v)], r)"
  "valid_utf8 k \<Longrightarrow> parse_value n s = Some (v, CHR '','' # t) \<Longrightarrow> parse_members n t = Some (ms, r) \<Longrightarrow>
     parse_members (Suc n) (quote k @ CHR '':'' # s) = Some ((k, v) # ms, r)"
  using parse_str_quote [of k "CHR '':'' # s"]
  by (simp_all add: quote_def del: parse_str.simps parse_value.simps)

lemma parse_value_arr:
  "c \<noteq> CHR '']'' \<Longrightarrow> \<not> is_ws c \<Longrightarrow> parse_elems n (c # t) = Some (xs, r) \<Longrightarrow>
     parse_value (Suc n) (CHR ''['' # c # t) = Some (JArr xs, r)"
  by (simp add: skip_ws_head)

lemma parse_value_obj:
  "parse_members n (quote_chr # t) = Some (ms, r) \<Longrightarrow>
     parse_value (Suc n) (CHR ''{'' # quote_chr # t) = Some (JObj ms, r)"
  by simp

lemmas parser_step_simps = parse_value.simps(2) parse_elems.simps(2) parse_members.simps(2)
declare parser_step_simps [simp del]

lemma parse_print:
  "wf_json j \<Longrightarrow> num_stop r \<Longrightarrow> length (json_print j) \<le> n \<Longrightarrow>
     parse_value n (json_print j @ r) = Some (j, r)"
  "list_all wf_json xs \<Longrightarrow> xs \<noteq> [] \<Longrightarrow> length (print_elems xs) < n \<Longrightarrow>
     parse_elems n (print_elems xs @ CHR '']'' # r) = Some (xs, r)"
  "list_all (\<lambda>(k, v). valid_utf8 k \<and> wf_json v) ms \<Longrightarrow> ms \<noteq> [] \<Longrightarrow> length (print_members ms) < n \<Longrightarrow>
     parse_members n (print_members ms @ CHR ''}'' # r) = Some (ms, r)"
proof (induction j and xs and ms arbitrary: n r and n r and n r
    rule: json_print_print_elems_print_members.induct)
  case 1
  then show ?case by (cases n) (simp_all add: parse_lit_def parse_value.simps)
next
  case (2 b)
  then show ?case by (cases n; cases b) (simp_all add: parse_lit_def parse_value.simps)
next
  case (3 s)
  then show ?case
    using itoa_nat_head [of "digits_val s"] by (cases n) (auto simp: parse_value_num)
next
  case (4 s)
  then show ?case by (cases n) (simp_all add: quote_def parse_str_quote parse_value.simps del: parse_str.simps)
next
  case (5 xs)
  then obtain m where m: "n = Suc m" by (cases n) auto
  show ?case
  proof (cases xs)
    case Nil
    then show ?thesis by (simp add: m parse_value.simps)
  next
    case (Cons x ys)
    then obtain c t where "print_elems xs = c # t" "c \<noteq> CHR '']''" "\<not> is_ws c"
      using json_print_head [of x] "5.prems"(1) by (cases ys) auto
    moreover have "parse_elems m (print_elems xs @ CHR '']'' # r) = Some (xs, r)"
      using "5.IH" [of m r] "5.prems" Cons m by simp
    ultimately show ?thesis
      using parse_value_arr [of c m "t @ CHR '']'' # r" xs r] m by simp
  qed
next
  case (6 ms)
  then obtain m where m: "n = Suc m" by (cases n) auto
  show ?case
  proof (cases ms)
    case Nil
    then show ?thesis by (simp add: m parse_value.simps)
  next
    case (Cons x ys)
    then obtain t where "print_members ms = quote_chr # t"
      by (cases x; cases ys) (auto simp: quote_def)
    moreover have "parse_members m (print_members ms @ CHR ''}'' # r) = Some (ms, r)"
      using "6.IH" [of m r] "6.prems" Cons m by simp
    ultimately show ?thesis
      using parse_value_obj [of m "t @ CHR ''}'' # r" ms r] m by simp
  qed
next
  case 7
  then show ?case by simp
next
  case (8 x)
  then obtain m where m: "n = Suc m" by (cases n) auto
  show ?case
    using parse_elems_step(1) [of m _ x r] "8.IH" [of "CHR '']'' # r" m] "8.prems" m by simp
next
  case (9 x y xs)
  then obtain m where m: "n = Suc m" by (cases n) auto
  have "parse_value m (json_print x @ CHR '','' # print_elems (y # xs) @ CHR '']'' # r)
      = Some (x, CHR '','' # print_elems (y # xs) @ CHR '']'' # r)"
    using "9.IH"(1) [of _ m] "9.prems" m by simp
  moreover have "parse_elems m (print_elems (y # xs) @ CHR '']'' # r) = Some (y # xs, r)"
    using "9.IH"(2) [of m r] "9.prems" m by simp
  ultimately show ?case using parse_elems_step(2) m by simp
next
  case 10
  then show ?case by simp
next
  case (11 k v)
  then obtain m where m: "n = Suc m" by (cases n) auto
  have "parse_value m (json_print v @ CHR ''}'' # r) = Some (v, CHR ''}'' # r)"
    using "11.IH" [of "CHR ''}'' # r" m] "11.prems" m by simp
  then show ?case
    using parse_members_step(1) [of k m] "11.prems" m by simp
next
  case (12 k v mm ms)
  then obtain m where m: "n = Suc m" by (cases n) auto
  let ?rest = "print_members (mm # ms) @ CHR ''}'' # r"
  have "parse_value m (json_print v @ CHR '','' # ?rest) = Some (v, CHR '','' # ?rest)"
    using "12.IH"(1) [of _ m] "12.prems" m by simp
  moreover have "parse_members m ?rest = Some (mm # ms, r)"
    using "12.IH"(2) [of m r] "12.prems" m by simp
  ultimately show ?case
    using parse_members_step(2) [of k m] "12.prems" m by simp
qed

lemma json_parse_print: "wf_json j \<Longrightarrow> nests max_nesting j \<Longrightarrow> json_parse (json_print j) = Some j"
  using parse_print(1) [of j "[]" "Suc (length (json_print j))"] by (simp add: json_parse_def)

interpretation json_codec: codec json_print json_parse "\<lambda>j. wf_json j \<and> nests max_nesting j"
  by unfold_locales (simp add: json_parse_print)

section \<open>Storing a document into Go values\<close>

text \<open>
  \<^verbatim>\<open>json.Unmarshal\<close> stores what fits and goes on after a value of the wrong type, reporting the
  first such error at the end. Each \<open>into_\<close> function takes the document and the old value and
  returns the new value and whether an error was saved. Null leaves a scalar or a struct as
  it is and sets a slice or a map to nil.
\<close>

type_synonym 'a stored = "'a \<times> bool"

definition into_bool :: "json \<Rightarrow> bool \<Rightarrow> bool stored" where
  "into_bool j old = (case j of JBool b \<Rightarrow> (b, False) | JNull \<Rightarrow> (old, False) | _ \<Rightarrow> (old, True))"

definition into_string :: "json \<Rightarrow> string \<Rightarrow> string stored" where
  "into_string j old = (case j of JStr s \<Rightarrow> (s, False) | JNull \<Rightarrow> (old, False) | _ \<Rightarrow> (old, True))"

definition into_u64 :: "json \<Rightarrow> u64 \<Rightarrow> u64 stored" where
  "into_u64 j old =
     (case j of
        JNum l \<Rightarrow> (case parse_uint 64 l of Some n \<Rightarrow> (of_nat n, False) | None \<Rightarrow> (old, True))
      | JNull \<Rightarrow> (old, False)
      | _ \<Rightarrow> (old, True))"

definition into_int :: "json \<Rightarrow> int \<Rightarrow> int stored" where
  "into_int j old =
     (case j of
        JNum l \<Rightarrow> (case parse_int64 l of Some n \<Rightarrow> (n, False) | None \<Rightarrow> (old, True))
      | JNull \<Rightarrow> (old, False)
      | _ \<Rightarrow> (old, True))"

text \<open>An element of a \<^verbatim>\<open>[]byte\<close> that is written as an array of numbers.\<close>

definition into_u8 :: "json \<Rightarrow> char stored" where
  "into_u8 j =
     (case j of
        JNum l \<Rightarrow> (case parse_uint 8 l of Some n \<Rightarrow> (char_of n, False) | None \<Rightarrow> (CHR 0x00, True))
      | JNull \<Rightarrow> (CHR 0x00, False)
      | _ \<Rightarrow> (CHR 0x00, True))"

definition into_bytes :: "json \<Rightarrow> slice \<Rightarrow> slice stored" where
  "into_bytes j old =
     (case j of
        JStr s \<Rightarrow> (case b64_dec s of Some b \<Rightarrow> (Some b, False) | None \<Rightarrow> (old, True))
      | JArr xs \<Rightarrow> (Some (map (fst \<circ> into_u8) xs), list_ex (snd \<circ> into_u8) xs)
      | JNull \<Rightarrow> (None, False)
      | _ \<Rightarrow> (old, True))"

definition json_of_bytes :: "slice \<Rightarrow> json" where
  "json_of_bytes b = (case b of None \<Rightarrow> JNull | Some s \<Rightarrow> JStr (b64_enc s))"

definition json_of_u64 :: "u64 \<Rightarrow> json" where
  "json_of_u64 n = JNum (itoa_nat (unat n))"

text \<open>
  A member's name selects a struct field up to case. Besides the letters themselves only the
  long s (U+017F) and the Kelvin sign (U+212A) fold to ASCII letters.
\<close>

fun fold_name :: "string \<Rightarrow> nat list" where
  "fold_name [] = []"
| "fold_name (a # r) =
     (if in_range 97 122 a then (byte a - 32) # fold_name r
      else
        (case r of
           b # t \<Rightarrow>
             if byte a = 0xC5 \<and> byte b = 0xBF then 83 # fold_name t
             else
               (case t of
                  c # u \<Rightarrow>
                    if byte a = 0xE2 \<and> byte b = 0x84 \<and> byte c = 0xAA then 75 # fold_name u
                    else byte a # fold_name r
                | [] \<Rightarrow> byte a # fold_name r)
         | [] \<Rightarrow> [byte a]))"

definition names :: "string \<Rightarrow> string \<Rightarrow> bool" where
  "names field k \<longleftrightarrow> fold_name k = fold_name field"

text \<open>Storing what was printed gives the printed value back, without an error.\<close>

named_theorems into_simps

lemma into_bool_JBool [into_simps]: "into_bool (JBool b) old = (b, False)"
  by (simp add: into_bool_def)

lemma into_string_JStr [into_simps]: "into_string (JStr s) old = (s, False)"
  by (simp add: into_string_def)

lemma into_u64_JNum [into_simps]: "into_u64 (json_of_u64 n) old = (n, False)"
proof -
  have "unat n < 2 ^ 64" using unsigned_less [of n, where ?'a = nat] by simp
  then show ?thesis by (simp add: into_u64_def json_of_u64_def parse_uint_itoa)
qed

lemma nests_scalar [simp]: "nests d (json_of_bytes b)" "nests d (json_of_u64 n)"
  by (simp_all add: json_of_bytes_def json_of_u64_def split: option.split)

lemma into_bytes_json [into_simps]: "into_bytes (json_of_bytes b) old = (b, False)"
  by (cases b) (simp_all add: into_bytes_def json_of_bytes_def b64_dec_enc)

lemma wf_json_leaf [simp]:
  "wf_json (json_of_bytes b)" "wf_json (json_of_u64 n)"
  by (simp_all add: json_of_bytes_def json_of_u64_def valid_utf8_b64 itoa_nat_val split: option.splits)

section \<open>A printed document has no control characters\<close>

definition printable :: "string \<Rightarrow> bool" where
  "printable s \<longleftrightarrow> (\<forall>c \<in> set s. 32 \<le> byte c)"

lemma printable_simps [simp]:
  "printable []" "printable (c # s) \<longleftrightarrow> 32 \<le> byte c \<and> printable s"
  "printable (s @ t) \<longleftrightarrow> printable s \<and> printable t"
  by (auto simp: printable_def)

lemma byte_hex_digit: "n < 16 \<Longrightarrow> 32 \<le> byte (hex_digit n)"
  by (simp add: hex_digit_def)

lemma printable_esc_ascii:
  assumes "byte a < 128"
  shows "printable (esc_ascii a)"
proof -
  have "byte a div 16 < 16" using assms by (intro less_mult_imp_div_less) simp
  then have h: "32 \<le> byte (hex_digit (byte a div 16))" "32 \<le> byte (hex_digit (byte a mod 16))"
    by (auto intro: byte_hex_digit)
  have k: "32 \<le> byte (CHR ''b'')" "32 \<le> byte (CHR ''f'')" "32 \<le> byte (CHR ''n'')" "32 \<le> byte (CHR ''r'')"
    "32 \<le> byte (CHR ''t'')" "32 \<le> byte (CHR ''u'')" "32 \<le> byte (CHR ''0'')"
    by (simp_all add: byte_def)
  show ?thesis using h k by (auto simp: esc_ascii_def Let_def)
qed

lemma printable_quote_body: "valid_utf8 s \<Longrightarrow> printable (quote_body s)"
proof (induction s rule: valid_utf8_induct)
  case (one a t)
  then show ?case using printable_esc_ascii by simp
next
  case (two a b t)
  then show ?case using rune_high(1) [of a b] by (simp add: quote_body_high del: quote_body.simps)
next
  case (three a b c t)
  have "printable ''u2028''" "printable ''u2029''" by (simp_all add: byte_def)
  with three show ?case
    using rune_high(2) [of a b c] by (simp add: quote_body_high del: quote_body.simps printable_simps(2))
      (auto simp: byte_def)
next
  case (four a b c d t)
  then show ?case using rune_high(3) [of a b c d] by (simp add: quote_body_high del: quote_body.simps)
qed simp

lemma printable_quote: "valid_utf8 s \<Longrightarrow> printable (quote s)"
  by (simp add: quote_def printable_quote_body)

lemma printable_itoa_nat: "printable (itoa_nat n)"
  using itoa_nat_digits [of n] by (auto simp: printable_def list_all_iff is_digit_def)

lemma printable_punct [simp]:
  "32 \<le> byte (CHR '','')" "32 \<le> byte (CHR '':'')" "32 \<le> byte (CHR ''{'')" "32 \<le> byte (CHR ''}'')"
  "32 \<le> byte (CHR ''['')" "32 \<le> byte (CHR '']'')"
  by (simp_all add: byte_def)

lemma printable_lit [simp]: "printable ''null''" "printable ''true''" "printable ''false''"
  by (simp_all add: byte_def)

lemma printable_json:
  "wf_json j \<Longrightarrow> printable (json_print j)"
  "list_all wf_json xs \<Longrightarrow> printable (print_elems xs)"
  "list_all (\<lambda>(k, v). valid_utf8 k \<and> wf_json v) ms \<Longrightarrow> printable (print_members ms)"
proof (induction j and xs and ms rule: json_print_print_elems_print_members.induct)
  case (3 s)
  then show ?case by simp (metis printable_itoa_nat)
qed (simp_all add: printable_quote del: printable_simps(2), simp_all)

lemma printable_no_newline: "printable s \<Longrightarrow> c \<in> set s \<Longrightarrow> byte c \<noteq> 10 \<and> byte c \<noteq> 13"
  by (auto simp: printable_def)

section \<open>The fuel of the parser is enough\<close>

lemma skip_ws_Cons: "skip_ws s = c # r \<Longrightarrow> length r < length s"
  using length_dropWhile_le [of is_ws s] by (simp add: skip_ws_def)

lemma prepend_Some: "prepend s x = Some (t, r) \<Longrightarrow> \<exists>t'. x = Some (t', r)"
  by (auto simp: prepend_def)

lemma parse_str_shorter: "parse_str s = Some (t, r) \<Longrightarrow> length r < length s"
proof (induction s arbitrary: t r rule: parse_str.induct)
  case (2 a s)
  consider "a = quote_chr" | (esc) "a \<noteq> quote_chr" "a = backslash" | (low) "a \<noteq> quote_chr" "a \<noteq> backslash" "\<not> byte a < 32" "byte a < 128"
    | (bad) "a \<noteq> quote_chr" "a \<noteq> backslash" "\<not> byte a < 32" "\<not> byte a < 128" "utf8_len (a # s) = 0"
    | (high) "a \<noteq> quote_chr" "a \<noteq> backslash" "\<not> byte a < 32" "\<not> byte a < 128" "utf8_len (a # s) \<noteq> 0"
    using 2(5) by (cases "a = quote_chr"; cases "a = backslash"; cases "byte a < 32") auto
  then show ?case
  proof cases
    case esc
    then obtain u k where u: "unescape s = Some (u, k)" "\<exists>t'. parse_str (drop k s) = Some (t', r)"
      using 2(5) prepend_Some by (auto split: option.splits)
    then have "length r < length (drop k s)" using 2(1) [OF esc u(1)] by blast
    then show ?thesis by simp
  next
    case low
    then have "\<exists>t'. parse_str s = Some (t', r)" using 2(5) prepend_Some by auto
    then show ?thesis using 2(2) low by fastforce
  next
    case bad
    then have "\<exists>t'. parse_str s = Some (t', r)" using 2(5) prepend_Some by auto
    then show ?thesis using 2(3) bad by fastforce
  next
    case high
    then have "\<exists>t'. parse_str (drop (utf8_len (a # s) - 1) s) = Some (t', r)" using 2(5) prepend_Some by (auto simp: Let_def)
    then have "length r < length (drop (utf8_len (a # s) - 1) s)" using 2(4) high by blast
    then show ?thesis by simp
  qed (use 2(5) in auto)
qed simp

lemma num_parts:
  "parse_frac s = Some (f, r) \<Longrightarrow> s = f @ r" "parse_exp s = Some (f, r) \<Longrightarrow> s = f @ r" "parse_int_part s = (f, r) \<Longrightarrow> s = f @ r"
  by (auto simp: parse_frac_def parse_exp_def parse_int_part_def Let_def split: list.splits if_splits)

lemma parse_num_split:
  assumes "parse_num s = Some (t, r)"
  shows "s = t @ r \<and> t \<noteq> []"
proof -
  obtain sg s1 where sg: "(case s of c # r \<Rightarrow> if c = CHR ''-'' then ([c], r) else ([], s) | [] \<Rightarrow> ([], [])) = (sg, s1)"
    by (rule prod.exhaust)
  then have s: "s = sg @ s1" by (auto split: list.splits if_splits)
  obtain ip s2 where i: "parse_int_part s1 = (ip, s2)" by (rule prod.exhaust)
  have u: "parse_num s = (if ip = [] then None else (case parse_frac s2 of None \<Rightarrow> None | Some (fp, s3) \<Rightarrow>
      (case parse_exp s3 of None \<Rightarrow> None | Some (ep, s4) \<Rightarrow> Some (sg @ ip @ fp @ ep, s4))))"
    unfolding parse_num_def Let_def sg prod.case i ..
  obtain f s3 e where "ip \<noteq> []" "parse_frac s2 = Some (f, s3)" "parse_exp s3 = Some (e, r)" "t = sg @ ip @ f @ e"
    using assms unfolding u by (auto split: if_splits option.splits)
  then show ?thesis using num_parts i s by force
qed

lemma parse_lit_shorter: "w \<noteq> [] \<Longrightarrow> parse_lit w j s = Some (v, r) \<Longrightarrow> length r < length s"
  by (cases s) (auto simp: parse_lit_def split: if_splits)

definition fuel_ok :: "(nat \<Rightarrow> string \<Rightarrow> ('a \<times> string) option) \<Rightarrow> string \<Rightarrow> 'a \<Rightarrow> string \<Rightarrow> bool" where
  "fuel_ok p s v r \<longleftrightarrow> length r < length s \<and> (\<forall>m. length s \<le> m + length r \<longrightarrow> p m s = Some (v, r))"

lemma fuel_okI:
  "length r < length s \<Longrightarrow> (\<And>m. length s \<le> Suc m + length r \<Longrightarrow> p (Suc m) s = Some (v, r)) \<Longrightarrow> fuel_ok p s v r"
  unfolding fuel_ok_def by (metis Suc_pred add_cancel_right_left gr0I not_less)

lemma fuel_okD:
  "fuel_ok p s v r \<Longrightarrow> length r < length s" "fuel_ok p s v r \<Longrightarrow> length s \<le> m + length r \<Longrightarrow> p m s = Some (v, r)"
  by (simp_all add: fuel_ok_def)

lemma fuel_ok_parse_elems:
  assumes v: "fuel_ok parse_value s x r" and c: "skip_ws r = c # t"
    and tail: "c = CHR '','' \<and> fuel_ok parse_elems t xs u \<and> ys = x # xs \<or> c = CHR '']'' \<and> u = t \<and> ys = [x]"
  shows "fuel_ok parse_elems s ys u"
proof (rule fuel_okI)
  note l = fuel_okD(1) [OF v] skip_ws_Cons [OF c]
  show "length u < length s" using tail l fuel_okD(1) [of parse_elems t xs u] by auto
  fix m assume m: "length s \<le> Suc m + length u"
  have "length u \<le> length t" using tail fuel_okD(1) [of parse_elems t xs u] by auto
  then have "parse_value m s = Some (x, r)" using fuel_okD(2) [OF v] l m by simp
  moreover have "c = CHR '','' \<Longrightarrow> parse_elems m t = Some (xs, u)" if "fuel_ok parse_elems t xs u"
    using fuel_okD(2) [OF that] l m by simp
  ultimately show "parse_elems (Suc m) s = Some (ys, u)" using tail c by (auto simp: parse_elems.simps)
qed

lemma fuel_ok_parse_members:
  assumes q: "skip_ws s = quote_chr # r0" "parse_str r0 = Some (k, r1)" "skip_ws r1 = CHR '':'' # r2"
    and v: "fuel_ok parse_value r2 x r" and c: "skip_ws r = c # t"
    and tail: "c = CHR '','' \<and> fuel_ok parse_members t xs u \<and> ys = (k, x) # xs \<or> c = CHR ''}'' \<and> u = t \<and> ys = [(k, x)]"
  shows "fuel_ok parse_members s ys u"
proof (rule fuel_okI)
  note l = fuel_okD(1) [OF v] skip_ws_Cons [OF c] skip_ws_Cons [OF q(1)] parse_str_shorter [OF q(2)] skip_ws_Cons [OF q(3)]
  have le: "length u \<le> length t" using tail fuel_okD(1) [of parse_members t xs u] by auto
  then show "length u < length s" using l by simp
  fix m assume m: "length s \<le> Suc m + length u"
  have "parse_value m r2 = Some (x, r)" using fuel_okD(2) [OF v] l m le by simp
  moreover have "parse_members m t = Some (xs, u)" if "fuel_ok parse_members t xs u"
    using fuel_okD(2) [OF that] l m by simp
  ultimately show "parse_members (Suc m) s = Some (ys, u)" using tail c q by (auto simp: parse_members.simps)
qed

lemma fuel_ok_nested:
  assumes "skip_ws s = CHR ''{'' # r" "skip_ws r = d # t" "d \<noteq> CHR ''}''" "fuel_ok parse_members r ms u"
  shows "fuel_ok parse_value s (JObj ms) u"
  using skip_ws_Cons [OF assms(1)] fuel_okD [OF assms(4)] assms(1-3)
  by (intro fuel_okI) (simp_all add: parse_value.simps)

lemma fuel_ok_array:
  assumes "skip_ws s = CHR ''['' # r" "skip_ws r = d # t" "d \<noteq> CHR '']''" "fuel_ok parse_elems r xs u"
  shows "fuel_ok parse_value s (JArr xs) u"
  using skip_ws_Cons [OF assms(1)] fuel_okD [OF assms(4)] assms(1-3)
  by (intro fuel_okI) (simp_all add: parse_value.simps)

text \<open>A value without nesting needs one unit of fuel.\<close>

lemma parse_flat:
  assumes "parse_value (Suc 0) s = Some (v, r)"
  shows "fuel_ok parse_value s v r"
proof (rule fuel_okI)
  obtain c t where c: "skip_ws s = c # t" using assms by (auto simp: parse_value.simps split: list.splits)
  have ls: "length (c # t) \<le> length s" using skip_ws_Cons [OF c] by simp
  have num: "length u < length (c # t)" if "parse_num (c # t) = Some (x, u)" for x u
    using parse_num_split [OF that] by (metis length_append length_greater_0_conv less_add_same_cancel2)
  have nest: "length u < length (c # t)" if "skip_ws t = d # u" for d u using skip_ws_Cons [OF that] by simp
  have "length r < length (c # t)"
    using assms c num nest parse_str_shorter [of t] parse_lit_shorter [of "''true''" _ "c # t"]
      parse_lit_shorter [of "''false''" _ "c # t"] parse_lit_shorter [of "''null''" _ "c # t"]
    by (fastforce simp: parse_value.simps split: list.splits if_splits)
  then show "length r < length s" using ls by simp
  show "parse_value (Suc m) s = Some (v, r)" for m
    using assms c by (auto simp: parse_value.simps split: list.splits if_splits)
qed

lemma parse_value_nesting:
  assumes "parse_value (Suc n) s = Some (v, r)"
  obtains (flat) "parse_value (Suc 0) s = Some (v, r)"
  | (obj) u d t ms where "skip_ws s = CHR ''{'' # u" "skip_ws u = d # t" "d \<noteq> CHR ''}''" "parse_members n u = Some (ms, r)" "v = JObj ms"
  | (arr) u d t xs where "skip_ws s = CHR ''['' # u" "skip_ws u = d # t" "d \<noteq> CHR '']''" "parse_elems n u = Some (xs, r)" "v = JArr xs"
  using assms that(1) that(2) that(3) by (auto simp: parse_value.simps split: list.splits if_splits)

lemma parse_fuel:
  "(\<forall>s v r. parse_value n s = Some (v, r) \<longrightarrow> fuel_ok parse_value s v r) \<and>
   (\<forall>s xs r. parse_elems n s = Some (xs, r) \<longrightarrow> fuel_ok parse_elems s xs r) \<and>
   (\<forall>s ms r. parse_members n s = Some (ms, r) \<longrightarrow> fuel_ok parse_members s ms r)"
proof (induction n)
  case (Suc n)
  have V: "fuel_ok parse_value s v r" if "parse_value n s = Some (v, r)" for s v r using Suc that by blast
  have E: "fuel_ok parse_elems s xs r" if "parse_elems n s = Some (xs, r)" for s xs r using Suc that by blast
  have M: "fuel_ok parse_members s ms r" if "parse_members n s = Some (ms, r)" for s ms r using Suc that by blast
  have "fuel_ok parse_value s v r" if "parse_value (Suc n) s = Some (v, r)" for s v r
    using that
  proof (cases rule: parse_value_nesting)
    case flat
    then show ?thesis by (rule parse_flat)
  next
    case (obj u d t ms)
    then show ?thesis using fuel_ok_nested [OF obj(1-3) M] by simp
  next
    case (arr u d t xs)
    then show ?thesis using fuel_ok_array [OF arr(1-3) E] by simp
  qed
  moreover have "fuel_ok parse_elems s xs r" if p: "parse_elems (Suc n) s = Some (xs, r)" for s xs r
  proof -
    obtain x u c t where "parse_value n s = Some (x, u)" "skip_ws u = c # t"
      "c = CHR '','' \<and> (\<exists>ys. parse_elems n t = Some (ys, r) \<and> xs = x # ys) \<or> c = CHR '']'' \<and> r = t \<and> xs = [x]"
      using p by (auto simp: parse_elems.simps split: option.splits list.splits if_splits)
    then show ?thesis using fuel_ok_parse_elems [of s x u c t _ r xs] V E by blast
  qed
  moreover have "fuel_ok parse_members s ms r" if p: "parse_members (Suc n) s = Some (ms, r)" for s ms r
  proof -
    obtain r0 k r1 r2 x u c t where "skip_ws s = quote_chr # r0" "parse_str r0 = Some (k, r1)" "skip_ws r1 = CHR '':'' # r2"
      "parse_value n r2 = Some (x, u)" "skip_ws u = c # t"
      "c = CHR '','' \<and> (\<exists>ys. parse_members n t = Some (ys, r) \<and> ms = (k, x) # ys) \<or> c = CHR ''}'' \<and> r = t \<and> ms = [(k, x)]"
      using p by (auto simp: parse_members.simps split: option.splits list.splits if_splits)
    then show ?thesis using fuel_ok_parse_members [of s r0 k r1 r2 x u c t _ r ms] V M by blast
  qed
  ultimately show ?case by blast
qed simp
text \<open>The length of the text is enough fuel, and a text that is accepted with some amount is accepted with any larger one.\<close>

lemma parse_fuel_enough:
  assumes "parse_value n s = Some (v, r)"
  shows "length r < length s" "length s \<le> m \<Longrightarrow> parse_value m s = Some (v, r)"
  using parse_fuel assms fuel_okD(1) [of parse_value s v r] fuel_okD(2) [of parse_value s v r]
  by (blast, metis trans_le_add1)

section \<open>A document that is cut short does not parse\<close>

lemma append_prefix_cases [consumes 1, case_names inside beyond]:
  assumes "a @ b = p @ q"
  obtains u where "a = p @ u" "q = u @ b" | u where "p = a @ u" "b = u @ q"
  using assms by (auto simp: append_eq_append_conv2)

lemma parse_str_high_None: "\<forall>c \<in> set s. 128 \<le> byte c \<Longrightarrow> parse_str s = None"
proof (induction s rule: parse_str.induct)
  case (2 a r)
  have a: "a \<noteq> quote_chr" "a \<noteq> backslash" "\<not> byte a < 128" using 2(5) high_not_quote [of a] by auto
  have "parse_str r = None" if "utf8_len (a # r) = 0" using 2(3) 2(5) a that by auto
  moreover have "parse_str (drop (utf8_len (a # r) - 1) r) = None" if "utf8_len (a # r) \<noteq> 0"
    using 2(4) 2(5) a that in_set_dropD [of _ "utf8_len (a # r) - 1" r] by auto
  ultimately show ?case using a by (simp add: prepend_def Let_def)
qed simp

lemma esc_shape:
  "esc_ascii a = [a] \<or> (\<exists>x. esc_ascii a = [backslash, x]) \<or> (\<exists>x y. esc_ascii a = [backslash, CHR ''u'', CHR ''0'', CHR ''0'', x, y])"
  by (simp add: esc_ascii_def Let_def)

lemma parse_escape_cut:
  assumes "[backslash, CHR ''u'', x1, x2, x3, x4] = p @ u" "u \<noteq> []"
  shows "parse_str p = None"
  using assms by (auto simp: Cons_eq_append_conv unescape_def)

lemma parse_esc_cut:
  assumes "esc_ascii a = p @ u" "u \<noteq> []"
  shows "parse_str p = None"
proof -
  consider "[a] = p @ u" | x where "[backslash, x] = p @ u" | x y where "[backslash, CHR ''u'', CHR ''0'', CHR ''0'', x, y] = p @ u"
    using esc_shape [of a] assms(1) by metis
  then show ?thesis
  proof cases
    case 1
    then show ?thesis using assms(2) by (cases p) auto
  next
    case (2 x)
    then show ?thesis using assms(2) by (cases p; cases "tl p") (auto simp: unescape_def)
  next
    case (3 x y)
    then show ?thesis using assms(2) by (rule parse_escape_cut)
  qed
qed

text \<open>A string literal without its closing quote.\<close>

lemma piece_cut:
  assumes "r @ rest = p @ q" "\<And>u. r = p @ u \<Longrightarrow> u \<noteq> [] \<Longrightarrow> parse_str p = None"
    and "\<And>t. parse_str t = None \<Longrightarrow> parse_str (r @ t) = None" "\<And>p'. rest = p' @ q \<Longrightarrow> parse_str p' = None"
  shows "parse_str p = None"
  using assms(1)
proof (cases rule: append_prefix_cases)
  case (inside u)
  then show ?thesis using assms(2) [of u] assms(3) [of "[]"] by (cases "u = []") auto
next
  case (beyond u)
  then show ?thesis using assms(3,4) by simp
qed

lemma high_piece_cut:
  assumes "r @ rest = p @ q" "\<forall>c \<in> set r. 128 \<le> byte c"
    and "\<And>t. parse_str (r @ t) = prepend r (parse_str t)" "\<And>p'. rest = p' @ q \<Longrightarrow> parse_str p' = None"
  shows "parse_str p = None"
proof (rule piece_cut [OF assms(1) _ _ assms(4)])
  show "parse_str p = None" if "r = p @ u" for u using assms(2) that by (intro parse_str_high_None) simp
qed (simp_all add: assms(3))

lemma parse_separator_None:
  "parse_str t = None \<Longrightarrow> parse_str ((backslash # ''u2028'') @ t) = None"
  "parse_str t = None \<Longrightarrow> parse_str ((backslash # ''u2029'') @ t) = None"
  using parse_str_separator [of t] by (simp_all only: append.simps prepend_simps)

lemma if_choice: "(if b then x else if c then y else z) \<in> {x, y, z}"
  by simp

lemma parse_str_cut: "valid_utf8 s \<Longrightarrow> quote_body s = p @ q \<Longrightarrow> parse_str p = None"
proof (induction s arbitrary: p rule: valid_utf8_induct)
  case (one a t)
  have "esc_ascii a @ quote_body t = p @ q" using one by simp
  then show ?case
    by (rule piece_cut) (use parse_esc_cut parse_str_esc_ascii [OF one(1)] one.IH in auto)
next
  case (two a b t)
  have "[a, b] @ quote_body t = p @ q" using two by (simp add: quote_body_high del: quote_body.simps)
  then show ?case
    by (rule high_piece_cut) (use rune_high(1) [OF two(1)] parse_str_high(1) [OF two(1)] two.IH in \<open>simp_all del: parse_str.simps\<close>)
next
  case (three a b c t)
  obtain r where r: "quote_body (a # b # c # t) = r @ quote_body t" "r \<in> {backslash # ''u2028'', backslash # ''u2029'', [a, b, c]}"
    by (rule that [OF quote_body_high(3) [OF three(1)] if_choice])
  then have eq: "r @ quote_body t = p @ q" using three.prems by (simp del: quote_body.simps)
  from r(2) have "r = backslash # ''u2028'' \<or> r = backslash # ''u2029'' \<or> r = [a, b, c]" by blast
  then show ?case
  proof (elim disjE)
    assume r: "r = backslash # ''u2028''"
    show ?thesis by (rule piece_cut [OF eq _ _ three.IH]) (unfold r, erule (1) parse_escape_cut, erule parse_separator_None)
  next
    assume r: "r = backslash # ''u2029''"
    show ?thesis by (rule piece_cut [OF eq _ _ three.IH]) (unfold r, erule (1) parse_escape_cut, erule parse_separator_None)
  next
    assume "r = [a, b, c]"
    then show ?thesis using rune_high(2) [OF three(1)] parse_str_high(2) [OF three(1)] three.IH
      by (intro high_piece_cut [OF eq]) (simp_all del: parse_str.simps)
  qed
next
  case (four a b c d t)
  have "[a, b, c, d] @ quote_body t = p @ q" using four by (simp add: quote_body_high del: quote_body.simps)
  then show ?case
    by (rule high_piece_cut) (use rune_high(3) [OF four(1)] parse_str_high(3) [OF four(1)] four.IH in \<open>simp_all del: parse_str.simps\<close>)
qed simp

text \<open>Whatever the fuel, a printed value is read back or not at all.\<close>

lemma parse_print_any:
  assumes "wf_json j" "num_stop r"
  shows "parse_value n (json_print j @ r) = None \<or> parse_value n (json_print j @ r) = Some (j, r)"
proof (cases "parse_value n (json_print j @ r)")
  case (Some vu)
  let ?s = "json_print j @ r"
  have "parse_value (length ?s) ?s = Some (j, r)" using assms(1,2) by (intro parse_print(1)) simp_all
  moreover have "parse_value (length ?s) ?s = Some (fst vu, snd vu)" by (rule parse_fuel_enough(2) [of n]) (simp_all add: Some)
  ultimately show ?thesis by (simp add: Some)
qed simp

text \<open>A parser is starved on a text when nothing is left after what it reads.\<close>

definition starved :: "('a \<times> string) option \<Rightarrow> bool" where
  "starved x \<longleftrightarrow> (\<forall>v r. x = Some (v, r) \<longrightarrow> r = [])"

lemma starved_simps [simp]: "starved None" "starved (Some (v, r)) \<longleftrightarrow> r = []"
  by (simp_all add: starved_def)

lemma parse_Nil [simp]: "parse_value n [] = None" "parse_elems n [] = None" "parse_members n [] = None"
proof -
  show v: "parse_value n [] = None" for n by (cases n) (simp_all add: parser_step_simps)
  show "parse_elems n [] = None" "parse_members n [] = None" by (cases n; simp add: parser_step_simps v)+
qed

lemma starved_elems: "starved (parse_value n p) \<Longrightarrow> parse_elems (Suc n) p = None"
  by (auto simp: parser_step_simps starved_def split: option.splits)

lemma parse_elems_next:
  "wf_json x \<Longrightarrow> parse_elems n p = None \<Longrightarrow> parse_elems (Suc n) (json_print x @ CHR '','' # p) = None"
  using parse_print_any [of x "CHR '','' # p" n] by (auto simp: parser_step_simps)

text \<open>The members of an object, up to and beyond their first value.\<close>

lemma starved_members:
  assumes "valid_utf8 k" "starved (parse_value n p)"
  shows "parse_members (Suc n) (quote k @ CHR '':'' # p) = None"
  using assms parse_str_quote [OF assms(1), of "CHR '':'' # p"]
  by (auto simp: quote_def parser_step_simps starved_def simp del: parse_str.simps split: option.splits)

lemma parse_members_next:
  assumes "valid_utf8 k" "wf_json v" "parse_members n p = None"
  shows "parse_members (Suc n) (quote k @ CHR '':'' # json_print v @ CHR '','' # p) = None"
  using parse_print_any [of v "CHR '','' # p" n] parse_str_quote [OF assms(1), of "CHR '':'' # json_print v @ CHR '','' # p"] assms(2,3)
  by (auto simp: quote_def parser_step_simps simp del: parse_str.simps)

lemma parse_members_key_cut:
  assumes "valid_utf8 k" "quote k = p @ u"
  shows "parse_members n p = None"
proof (cases n)
  case (Suc m)
  show ?thesis
  proof (cases p)
    case (Cons c p')
    then have c: "c = quote_chr" "quote_body k @ [quote_chr] = p' @ u" using assms(2) by (auto simp: quote_def)
    from c(2) show ?thesis
    proof (cases rule: append_prefix_cases)
      case (inside w)
      then show ?thesis using parse_str_cut [OF assms(1)] by (simp add: Suc Cons c(1) parser_step_simps del: parse_str.simps)
    next
      case (beyond w)
      then consider (opened) "p' = quote_body k" | (closed) "p' = quote_body k @ [quote_chr]" by (auto simp: Cons_eq_append_conv)
      then show ?thesis
      proof cases
        case opened
        then have "parse_str p' = None" using parse_str_cut [OF assms(1), of p' "[]"] by simp
        then show ?thesis by (simp add: Suc Cons c(1) parser_step_simps del: parse_str.simps)
      next
        case closed
        then have "parse_str p' = Some (k, [])" using parse_str_quote [OF assms(1), of "[]"] by simp
        then show ?thesis by (simp add: Suc Cons c(1) parser_step_simps del: parse_str.simps)
      qed
    qed
  qed (simp add: Suc parser_step_simps)
qed simp

lemma parse_num_cut:
  assumes "s = itoa_nat (digits_val s)" "s = p @ q"
  shows "starved (parse_value n p)"
proof (cases "n = 0 \<or> p = []")
  case False
  then obtain m c t where nz: "n = Suc m" "p = c # t" by (metis list.exhaust not0_implies_Suc)
  obtain d u where ct: "s = d # u" "is_digit d" "list_all is_digit u" using itoa_nat_head [of "digits_val s"] assms(1) by metis
  have dig: "is_digit c" "list_all is_digit (c # t)" using ct assms(2) nz by auto
  have zero: "t = []" if "c = CHR ''0''" using itoa_nat_leading_zero [of "digits_val s" u] assms ct nz that by auto
  have "parse_int_part (c # t) = (c # t, [])"
    using zero dig span_digits [of "c # t" "[]"] by (auto simp: parse_int_part_def)
  moreover have "c \<noteq> CHR ''-''" using dig(1) by (auto simp: is_digit_def byte_def)
  ultimately have "parse_num (c # t) = Some (c # t, [])"
    by (simp add: parse_num_def parse_frac_def parse_exp_def)
  then show ?thesis using parse_value_other [of c m t] dig(1) not_digit digit_not_ws nz by auto
qed auto

lemma parse_lit_cut:
  "''null'' = p @ q \<Longrightarrow> q \<noteq> [] \<Longrightarrow> parse_value n p = None"
  "''true'' = p @ q \<Longrightarrow> q \<noteq> [] \<Longrightarrow> parse_value n p = None"
  "''false'' = p @ q \<Longrightarrow> q \<noteq> [] \<Longrightarrow> parse_value n p = None"
  by (cases n; auto simp: Cons_eq_append_conv parser_step_simps parse_lit_def)+

lemma cutI:
  assumes "wf_json j" "json_print j = p @ q" "q \<noteq> [] \<Longrightarrow> parse_value n p = None"
  shows "starved (parse_value n p) \<and> (q \<noteq> [] \<longrightarrow> (\<forall>s. j \<noteq> JNum s) \<longrightarrow> parse_value n p = None)"
proof (cases "q = []")
  case True
  then show ?thesis using parse_print_any [OF assms(1), of "[]" n] assms(2) by auto
qed (use assms(3) in simp)

text \<open>Brackets: what is inside is cut, or only the closing bracket is missing.\<close>

lemma bracket_cut:
  assumes "c # body @ [d] = p @ q" "q \<noteq> []"
  obtains "p = []" | p' u where "p = c # p'" "body = p' @ u"
proof (cases p)
  case (Cons c' p')
  then have "c' = c" "body @ [d] = p' @ q" using assms(1) by auto
  moreover obtain q' where "q = q' @ [d]" using assms by (metis append_is_Nil_conv last_ConsR last_append last_snoc list.distinct(1) snoc_eq_iff_butlast append_butlast_last_id)
  ultimately show ?thesis using that(2) Cons by simp
qed (use that(1) in simp)

lemma print_heads:
  "print_elems xs = p @ u \<Longrightarrow> list_all wf_json xs \<Longrightarrow> p = [] \<or> (\<exists>c t. p = c # t \<and> c \<noteq> CHR '']'' \<and> \<not> is_ws c)"
  "print_members ms = p @ u \<Longrightarrow> p = [] \<or> (\<exists>t. p = quote_chr # t)"
proof -
  assume e: "print_elems xs = p @ u" "list_all wf_json xs"
  show "p = [] \<or> (\<exists>c t. p = c # t \<and> c \<noteq> CHR '']'' \<and> \<not> is_ws c)"
  proof (cases xs)
    case (Cons x ys)
    then obtain c t where "print_elems xs = c # t" "c \<noteq> CHR '']''" "\<not> is_ws c" using json_print_head [of x] e(2) by (cases ys) auto
    then show ?thesis using e(1) by (cases p) auto
  qed (use e in simp)
next
  assume e: "print_members ms = p @ u"
  show "p = [] \<or> (\<exists>t. p = quote_chr # t)"
    using e by (cases ms; cases "tl ms"; cases "hd ms"; cases p) (auto simp: quote_def)
qed

lemma member_cases [consumes 1, case_names key rest]:
  assumes "quote k @ CHR '':'' # rest = p @ q"
  obtains u where "quote k = p @ u" | p' where "p = quote k @ CHR '':'' # p'" "rest = p' @ q"
  using assms
proof (cases rule: append_prefix_cases)
  case (beyond u)
  then show ?thesis using that(1) [of "[]"] that(2) by (cases u) auto
qed (use that(1) in blast)

lemma starved_members_any:
  "valid_utf8 k \<Longrightarrow> (\<And>m. starved (parse_value m p)) \<Longrightarrow> parse_members n (quote k @ CHR '':'' # p) = None"
  by (cases n) (simp_all add: starved_members)

lemma parse_cut:
  "wf_json j \<Longrightarrow> json_print j = p @ q \<Longrightarrow>
     starved (parse_value n p) \<and> (q \<noteq> [] \<longrightarrow> (\<forall>s. j \<noteq> JNum s) \<longrightarrow> parse_value n p = None)"
  "list_all wf_json xs \<Longrightarrow> print_elems xs = p @ q \<Longrightarrow> parse_elems n p = None"
  "list_all (\<lambda>(k, v). valid_utf8 k \<and> wf_json v) ms \<Longrightarrow> print_members ms = p @ q \<Longrightarrow> parse_members n p = None"
proof (induction j and xs and ms arbitrary: n p q and n p q and n p q
    rule: json_print_print_elems_print_members.induct)
  case 1
  show ?case by (rule cutI [OF 1]) (use 1 parse_lit_cut(1) in simp)
next
  case (2 b)
  show ?case by (rule cutI [OF 2]) (use 2 parse_lit_cut(2,3) in \<open>simp split: if_splits\<close>)
next
  case (3 s)
  then show ?case using parse_num_cut by simp
next
  case (4 s)
  have v: "valid_utf8 s" using 4(1) by simp
  show ?case
  proof (rule cutI [OF 4])
    assume q: "q \<noteq> []"
    have "quote_chr # quote_body s @ [quote_chr] = p @ q" using 4(2) by (simp add: quote_def)
    then show "parse_value n p = None" using q
    proof (cases rule: bracket_cut)
      case (2 p' u)
      then show ?thesis using parse_str_cut [OF v] by (cases n) (simp_all add: parser_step_simps del: parse_str.simps)
    qed simp
  qed
next
  case (5 xs)
  show ?case
  proof (rule cutI [OF "5.prems"])
    assume q: "q \<noteq> []"
    have "CHR ''['' # print_elems xs @ [CHR '']''] = p @ q" using "5.prems"(2) by simp
    then show "parse_value n p = None" using q
    proof (cases rule: bracket_cut)
      case (2 p' u)
      have "parse_elems m p' = None" for m using "5.IH" [of p' u m] "5.prems"(1) 2 by simp
      then show ?thesis
        using 2 "5.prems"(1) print_heads(1) [of xs p' u] by (cases n) (auto simp: parser_step_simps skip_ws_head)
    qed simp
  qed
next
  case (6 ms)
  show ?case
  proof (rule cutI [OF "6.prems"])
    assume q: "q \<noteq> []"
    have "CHR ''{'' # print_members ms @ [CHR ''}''] = p @ q" using "6.prems"(2) by simp
    then show "parse_value n p = None" using q
    proof (cases rule: bracket_cut)
      case (2 p' u)
      have "parse_members m p' = None" for m using "6.IH" [of p' u m] "6.prems"(1) 2 by simp
      then show ?thesis
        using 2 print_heads(2) [of ms p' u] by (cases n) (auto simp: parser_step_simps)
    qed simp
  qed
next
  case 7
  then show ?case by simp
next
  case (8 x)
  then show ?case by (cases n) (auto intro: starved_elems)
next
  case (9 x y xs)
  have "json_print x @ CHR '','' # print_elems (y # xs) = p @ q" using "9.prems" by simp
  then show ?case
  proof (cases rule: append_prefix_cases)
    case (inside u)
    then show ?thesis using 9 by (cases n) (auto intro: starved_elems)
  next
    case (beyond u)
    then show ?thesis using 9 by (cases n; cases u) (auto intro: parse_elems_next starved_elems)
  qed
next
  case 10
  then show ?case by simp
next
  case (11 k v)
  have "quote k @ CHR '':'' # json_print v = p @ q" using "11.prems" by simp
  then show ?case using 11 by (cases rule: member_cases) (auto intro: parse_members_key_cut starved_members_any)
next
  case (12 k v mm ms)
  have "quote k @ CHR '':'' # json_print v @ CHR '','' # print_members (mm # ms) = p @ q" using "12.prems" by simp
  then show ?case
  proof (cases rule: member_cases)
    case (rest p')
    from rest(2) show ?thesis
    proof (cases rule: append_prefix_cases)
      case (inside u)
      then show ?thesis using 12 rest by (auto intro: starved_members_any)
    next
      case (beyond u)
      then show ?thesis using 12 rest by (cases u; cases n) (auto intro: starved_members_any parse_members_next)
    qed
  qed (use 12 in \<open>auto intro: parse_members_key_cut\<close>)
qed

lemma json_parse_cut: "wf_json (JObj ms) \<Longrightarrow> json_print (JObj ms) = p @ q \<Longrightarrow> q \<noteq> [] \<Longrightarrow> json_parse p = None"
  using parse_cut(1) [of "JObj ms" p q "Suc (length p)"] by (simp add: json_parse_def)

end
