(* ===== verification/Types.thy ===== *)
theory Types
  imports Go_JSON
begin

text \<open>
  The data model of \<^verbatim>\<open>internal/types\<close>: conflict policies, Lamport versions with their total
  order, versioned values, the request and response structs, and the Lamport clock.
  Go's \<^verbatim>\<open>Policy\<close> is an \<^verbatim>\<open>int\<close> with three named constants; any other number is possible (it can
  arrive over the wire) and is treated as LWW by every switch, so the model keeps the number.
  Lamport times are 64-bit words and wrap as in Go. Fields that several structs share carry a
  prefix: \<open>rv\<close> for \<^verbatim>\<open>ReplicaView\<close>, \<open>wq\<close>/\<open>wr\<close> for write requests and responses, \<open>rq\<close>/\<open>rr\<close> for
  reads, \<open>he\<close> for \<^verbatim>\<open>HistoryEntry\<close>. Locks are left out: each method runs as one step.
\<close>

section \<open>Policies\<close>

type_synonym Policy = int

abbreviation (input) PolicyLWW :: Policy where "PolicyLWW \<equiv> 0"
abbreviation (input) PolicyCRDTLWWReg :: Policy where "PolicyCRDTLWWReg \<equiv> 1"
abbreviation (input) PolicyCRDTORSet :: Policy where "PolicyCRDTORSet \<equiv> 2"

definition Policy_String :: "Policy \<Rightarrow> string" where
  "Policy_String p =
     (if p = PolicyLWW then ''LWW''
      else if p = PolicyCRDTLWWReg then ''CRDT_LWWREG''
      else if p = PolicyCRDTORSet then ''CRDT_ORSET''
      else ''Policy('' @ itoa p @ '')'')"

datatype policy_error = UnknownPolicy string

text \<open>The policy and the error, as Go returns both: with an error the policy is 0.\<close>

definition ParsePolicy :: "string \<Rightarrow> Policy \<times> policy_error option" where
  "ParsePolicy s =
     (if s \<in> {'''', ''LWW'', ''lww''} then (PolicyLWW, None)
      else if s \<in> {''CRDT_LWWREG'', ''crdt_lwwreg'', ''lwwreg''} then (PolicyCRDTLWWReg, None)
      else if s \<in> {''CRDT_ORSET'', ''crdt_orset'', ''orset''} then (PolicyCRDTORSet, None)
      else (0, Some (UnknownPolicy s)))"

section \<open>Versions\<close>

record Version =
  Lamport :: u64
  NodeID :: string

definition Version_String :: "Version \<Rightarrow> string" where
  "Version_String v = itoa_nat (unat (Lamport v)) @ ''@'' @ NodeID v"

definition Version_Equal :: "Version \<Rightarrow> Version \<Rightarrow> bool" where
  "Version_Equal v o' \<longleftrightarrow> Lamport v = Lamport o' \<and> NodeID v = NodeID o'"

definition IsZero :: "Version \<Rightarrow> bool" where
  "IsZero v \<longleftrightarrow> Lamport v = 0 \<and> NodeID v = ''''"

definition Compare :: "Version \<Rightarrow> Version \<Rightarrow> int" where
  "Compare a b =
     (if Lamport a \<noteq> Lamport b then (if Lamport a < Lamport b then -1 else 1)
      else if NodeID a < NodeID b then -1
      else if NodeID a > NodeID b then 1
      else 0)"

abbreviation zero_Version :: Version where
  "zero_Version \<equiv> \<lparr>Lamport = 0, NodeID = ''''\<rparr>"

text \<open>Versions as a linear order of the library: Lamport time first, then node id.\<close>

instantiation Version_ext :: (linorder) linorder
begin

definition less_eq_Version_ext :: "'a Version_ext \<Rightarrow> 'a Version_ext \<Rightarrow> bool" where
  "less_eq_Version_ext a b \<longleftrightarrow>
     (Lamport a, NodeID a, more a) \<le> (Lamport b, NodeID b, more b)"

definition less_Version_ext :: "'a Version_ext \<Rightarrow> 'a Version_ext \<Rightarrow> bool" where
  "less_Version_ext a b \<longleftrightarrow>
     (Lamport a, NodeID a, more a) < (Lamport b, NodeID b, more b)"

instance
proof
  fix x y z :: "'a Version_ext"
  show "x < y \<longleftrightarrow> x \<le> y \<and> \<not> y \<le> x" by (auto simp: less_eq_Version_ext_def less_Version_ext_def)
  show "x \<le> x" by (simp add: less_eq_Version_ext_def)
  show "x \<le> y \<Longrightarrow> y \<le> z \<Longrightarrow> x \<le> z" by (auto simp: less_eq_Version_ext_def)
  show "x \<le> y \<Longrightarrow> y \<le> x \<Longrightarrow> x = y"
    by (cases x; cases y) (auto simp: less_eq_Version_ext_def)
  show "x \<le> y \<or> y \<le> x" by (auto simp: less_eq_Version_ext_def)
qed

end

section \<open>Values\<close>

record Value =
  Data :: slice
  Version :: Version
  Policy :: Policy
  Tombstone :: bool
  CRDT :: slice

definition Value_Equal :: "Value \<Rightarrow> Value \<Rightarrow> bool" where
  "Value_Equal v o' \<longleftrightarrow>
     Version_Equal (Version v) (Version o') \<and> Policy v = Policy o' \<and> Tombstone v = Tombstone o' \<and>
     bytes (Data v) = bytes (Data o') \<and> bytes (CRDT v) = bytes (CRDT o')"

definition Clone :: "Value \<Rightarrow> Value" where
  "Clone v =
     v\<lparr>Data := (if Data v \<noteq> None then append_nil (Data v) else Data v),
       CRDT := (if CRDT v \<noteq> None then append_nil (CRDT v) else CRDT v)\<rparr>"

abbreviation zero_Value :: Value where
  "zero_Value \<equiv> \<lparr>Data = None, Version = zero_Version, Policy = 0, Tombstone = False, CRDT = None\<rparr>"

record ReplicaView =
  rvNodeID :: string
  rvValue :: Value
  rvFound :: bool

record WriteReq =
  wqKey :: string
  wqData :: slice
  wqPolicy :: Policy
  wqW :: int
  wqClientTS :: int
  wqORSetOp :: string
  wqORSetElem :: string
  wqTombstone :: bool

record WriteResp =
  wrOK :: bool
  wrVersion :: Version
  wrAcksReceived :: int
  wrError :: string

record ReadReq =
  rqKey :: string
  rqR :: int

record ReadResp =
  rrValue :: Value
  rrFound :: bool
  rrReplicasResponded :: int
  rrReplicasAgreed :: bool
  rrRepaired :: bool
  rrError :: string

record HistoryEntry =
  heSeq :: u64
  heKey :: string
  heValue :: Value

section \<open>The Lamport clock\<close>

record Clock =
  clock_t :: u64

definition Time :: "Clock \<Rightarrow> u64" where
  "Time c = clock_t c"

definition Tick :: "Clock \<Rightarrow> u64 \<times> Clock" where
  "Tick c = (let c' = c\<lparr>clock_t := clock_t c + 1\<rparr> in (clock_t c', c'))"

definition Witness :: "Clock \<Rightarrow> u64 \<Rightarrow> u64 \<times> Clock" where
  "Witness c remote =
     (let c1 = (if remote > clock_t c then c\<lparr>clock_t := remote\<rparr> else c);
          c2 = c1\<lparr>clock_t := clock_t c1 + 1\<rparr>
      in (clock_t c2, c2))"

definition Observe :: "Clock \<Rightarrow> u64 \<Rightarrow> Clock" where
  "Observe c remote = (if remote > clock_t c then c\<lparr>clock_t := remote\<rparr> else c)"

section \<open>Facts about versions\<close>

definition version_key :: "Version \<Rightarrow> u64 \<times> string" where
  "version_key v = (Lamport v, NodeID v)"

lemma version_key_inject [simp]: "version_key a = version_key b \<longleftrightarrow> a = b"
  by (cases a; cases b) (auto simp: version_key_def)

lemma Version_Equal_iff [simp]: "Version_Equal a b \<longleftrightarrow> a = b"
  by (cases a; cases b) (auto simp: Version_Equal_def)

lemma IsZero_iff: "IsZero v \<longleftrightarrow> v = zero_Version"
  by (cases v) (auto simp: IsZero_def)

lemma Compare_cmp_of: "Compare a b = cmp_of (version_key a) (version_key b)"
  by (auto simp: Compare_def version_key_def cmp_of_def less_prod_def')

interpretation ver_order: key_order Compare version_key
  by unfold_locales (rule Compare_cmp_of)

lemma version_key_less: "version_key a < version_key b \<longleftrightarrow> a < b"
  by (auto simp: version_key_def less_Version_ext_def less_prod_def')

lemma version_key_le: "version_key a \<le> version_key b \<longleftrightarrow> a \<le> b"
  using version_key_less [of b a] by (meson linorder_not_le)

lemma Compare_sign [simp]:
  "0 \<le> Compare a b \<longleftrightarrow> b \<le> a" "Compare a b < 0 \<longleftrightarrow> a < b"
  "0 < Compare a b \<longleftrightarrow> b < a" "Compare a b = 0 \<longleftrightarrow> a = b"
  by (simp_all add: ver_order.sign version_key_less version_key_le)

lemma zero_Version_least: "zero_Version \<le> v"
  by (simp add: flip: version_key_le) (simp add: version_key_def less_eq_prod_def)

section \<open>Facts about values\<close>

lemma Clone_def': "Clone v = v\<lparr>Data := append_nil (Data v), CRDT := append_nil (CRDT v)\<rparr>"
  by (cases "Data v"; cases "CRDT v") (simp_all add: Clone_def)

lemma Clone_simps [simp]:
  "Data (Clone v) = append_nil (Data v)" "CRDT (Clone v) = append_nil (CRDT v)"
  "Version (Clone v) = Version v" "Policy (Clone v) = Policy v" "Tombstone (Clone v) = Tombstone v"
  by (simp_all add: Clone_def')

definition canon_value :: "Value \<Rightarrow> bool" where
  "canon_value v \<longleftrightarrow> canon_slice (Data v) \<and> canon_slice (CRDT v)"

lemma Clone_canon [simp]: "canon_value v \<Longrightarrow> Clone v = v"
  by (cases v) (simp add: canon_value_def Clone_def')

lemma canon_Clone [simp, intro!]: "canon_value (Clone v)"
  by (simp add: canon_value_def)

lemma Value_Equal_refl [simp]: "Value_Equal v v"
  by (simp add: Value_Equal_def)

lemma Value_Equal_Clone [simp]:
  "Value_Equal (Clone v) w = Value_Equal v w" "Value_Equal v (Clone w) = Value_Equal v w"
  by (simp_all add: Value_Equal_def)

lemma Value_Equal_iff:
  assumes "canon_value a" "canon_value b"
  shows "Value_Equal a b \<longleftrightarrow> a = b"
  using assms canon_slice_eqI
  by (cases a; cases b) (auto simp: Value_Equal_def canon_value_def)

section \<open>The wire format of versions and values\<close>

text \<open>The struct tags of \<^verbatim>\<open>Version\<close> and \<^verbatim>\<open>Value\<close>; an empty \<^verbatim>\<open>CRDT\<close> is omitted.\<close>

definition json_of_Version :: "Version \<Rightarrow> json" where
  "json_of_Version v = JObj [(''lamport'', json_of_u64 (Lamport v)), (''node_id'', JStr (NodeID v))]"

definition version_member :: "Version stored \<Rightarrow> string \<times> json \<Rightarrow> Version stored" where
  "version_member st m =
     (let (v, e) = st; (k, j) = m in
      if names ''lamport'' k then (let (n, e') = into_u64 j (Lamport v) in (v\<lparr>Lamport := n\<rparr>, e \<or> e'))
      else if names ''node_id'' k then (let (s, e') = into_string j (NodeID v) in (v\<lparr>NodeID := s\<rparr>, e \<or> e'))
      else (v, e))"

definition into_Version :: "json \<Rightarrow> Version \<Rightarrow> Version stored" where
  "into_Version j old =
     (case j of
        JObj ms \<Rightarrow> foldl version_member (old, False) ms
      | JNull \<Rightarrow> (old, False)
      | _ \<Rightarrow> (old, True))"

definition json_of_Value :: "Value \<Rightarrow> json" where
  "json_of_Value v = JObj
     ([(''data'', json_of_bytes (Data v)), (''version'', json_of_Version (Version v)),
       (''policy'', JNum (itoa (Policy v))), (''tombstone'', JBool (Tombstone v))]
      @ (if bytes (CRDT v) = [] then [] else [(''crdt'', json_of_bytes (CRDT v))]))"

definition value_member :: "Value stored \<Rightarrow> string \<times> json \<Rightarrow> Value stored" where
  "value_member st m =
     (let (v, e) = st; (k, j) = m in
      if names ''data'' k then (let (d, e') = into_bytes j (Data v) in (v\<lparr>Data := d\<rparr>, e \<or> e'))
      else if names ''version'' k then (let (w, e') = into_Version j (Version v) in (v\<lparr>Version := w\<rparr>, e \<or> e'))
      else if names ''policy'' k then (let (p, e') = into_int j (Policy v) in (v\<lparr>Policy := p\<rparr>, e \<or> e'))
      else if names ''tombstone'' k then (let (b, e') = into_bool j (Tombstone v) in (v\<lparr>Tombstone := b\<rparr>, e \<or> e'))
      else if names ''crdt'' k then (let (d, e') = into_bytes j (CRDT v) in (v\<lparr>CRDT := d\<rparr>, e \<or> e'))
      else (v, e))"

definition into_Value :: "json \<Rightarrow> Value \<Rightarrow> Value stored" where
  "into_Value j old =
     (case j of
        JObj ms \<Rightarrow> foldl value_member (old, False) ms
      | JNull \<Rightarrow> (old, False)
      | _ \<Rightarrow> (old, True))"

lemma field_names [simp]:
  "names ''lamport'' ''lamport''" "\<not> names ''lamport'' ''node_id''" "names ''node_id'' ''node_id''"
  "names ''data'' ''data''" "\<not> names ''data'' ''version''" "\<not> names ''data'' ''policy''"
  "\<not> names ''data'' ''tombstone''" "\<not> names ''data'' ''crdt''" "names ''version'' ''version''"
  "\<not> names ''version'' ''policy''" "\<not> names ''version'' ''tombstone''" "\<not> names ''version'' ''crdt''"
  "names ''policy'' ''policy''" "\<not> names ''policy'' ''tombstone''" "\<not> names ''policy'' ''crdt''"
  "names ''tombstone'' ''tombstone''" "\<not> names ''tombstone'' ''crdt''" "names ''crdt'' ''crdt''"
  by (simp_all add: names_def in_range_def byte_def)

lemma valid_utf8_field_names [simp]:
  "valid_utf8 ''lamport''" "valid_utf8 ''node_id''" "valid_utf8 ''data''" "valid_utf8 ''version''"
  "valid_utf8 ''policy''" "valid_utf8 ''tombstone''" "valid_utf8 ''crdt''"
  by (simp_all add: byte_def)

lemma wf_json_Version [simp]: "wf_json (json_of_Version v) \<longleftrightarrow> valid_utf8 (NodeID v)"
  by (simp add: json_of_Version_def)

lemma into_Version_json [into_simps]: "into_Version (json_of_Version v) old = (v, False)"
  by (simp add: into_Version_def json_of_Version_def version_member_def into_simps)

text \<open>The values whose wire form reads back: a policy that fits the parser and a UTF-8 node id.\<close>

definition wire_value :: "Value \<Rightarrow> bool" where
  "wire_value v \<longleftrightarrow> valid_utf8 (NodeID (Version v)) \<and> 0 \<le> Policy v \<and> Policy v < 2 ^ 63 \<and> CRDT v \<noteq> Some []"

lemma nests_Value [simp]:
  "0 < d \<Longrightarrow> nests d (json_of_Version ver)" "1 < d \<Longrightarrow> nests d (json_of_Value v)"
  by (simp_all add: json_of_Version_def json_of_Value_def)

lemma wf_json_Value: "wire_value v \<Longrightarrow> wf_json (json_of_Value v)"
  by (auto simp: json_of_Value_def wire_value_def itoa_def itoa_nat_val)

lemma into_int_itoa [into_simps]: "0 \<le> i \<Longrightarrow> i < 2 ^ 63 \<Longrightarrow> into_int (JNum (itoa i)) old = (i, False)"
proof -
  assume "0 \<le> i" "i < 2 ^ 63"
  then have "parse_int64 (itoa i) = Some i"
    using parse_int64_itoa_nat [of "nat i"] by (simp add: itoa_def nat_less_iff)
  then show ?thesis by (simp add: into_int_def)
qed

lemma into_Value_json: "wire_value v \<Longrightarrow> into_Value (json_of_Value v) zero_Value = (v, False)"
  by (cases v; cases "CRDT v")
    (auto simp: into_Value_def json_of_Value_def value_member_def wire_value_def into_simps)

definition Value_dec :: "string \<Rightarrow> Value option" where
  "Value_dec s =
     (case json_parse s of
        None \<Rightarrow> None
      | Some j \<Rightarrow> (case into_Value j zero_Value of (v, e) \<Rightarrow> if e then None else Some v))"

lemma Value_dec_print: "wire_value v \<Longrightarrow> Value_dec (json_print (json_of_Value v)) = Some v"
  by (simp add: Value_dec_def json_parse_print wf_json_Value into_Value_json)

interpretation value_codec: codec "\<lambda>v. json_print (json_of_Value v)" Value_dec wire_value
  by unfold_locales (rule Value_dec_print)

section \<open>The clock at its bounds\<close>

lemma u64_succ: "unat (t + 1 :: u64) = (if unat t = 2 ^ 64 - 1 then 0 else unat t + 1)"
proof -
  have "unat t < 2 ^ 64" using unsigned_less [of t] by simp
  moreover have "unat (t + 1) = (unat t + 1) mod 2 ^ 64" by (simp add: unat_word_ariths)
  ultimately show ?thesis by auto
qed

text \<open>C30. The Lamport clock at its width: a tick adds one, and wraps to zero from the largest 64-bit value; observing
  raises the clock to the larger time; witnessing returns one more than the larger time, so strictly more than both,
  except at the largest value, where the clock falls back to zero.\<close>

theorem clock_exact:
  "unat (fst (Tick c)) = (if unat (Time c) = 2 ^ 64 - 1 then 0 else unat (Time c) + 1) \<and>
   Time (snd (Tick c)) = fst (Tick c) \<and>
   Time (Observe c remote) = max (Time c) remote \<and>
   unat (fst (Witness c remote)) =
     (if max (unat (Time c)) (unat remote) = 2 ^ 64 - 1 then 0 else max (unat (Time c)) (unat remote) + 1) \<and>
   Time (snd (Witness c remote)) = fst (Witness c remote)"
proof -
  have m: "unat (max t r) = max (unat t) (unat r)" for t r :: u64 by (simp add: max_def word_le_nat_alt)
  have "fst (Witness c remote) = max (Time c) remote + 1" by (auto simp: Witness_def Let_def Time_def max_def)
  moreover have "fst (Tick c) = Time c + 1" by (simp add: Tick_def Let_def Time_def)
  moreover have "Time (Observe c remote) = max (Time c) remote" by (auto simp: Observe_def Time_def max_def)
  ultimately show ?thesis
    using u64_succ [of "Time c"] u64_succ [of "max (Time c) remote"]
    by (simp add: m) (simp add: Tick_def Witness_def Let_def Time_def)
qed

end
