(* ===== verification/LWW_Merge.thy ===== *)
theory LWW_Merge
  imports Types
begin

text \<open>
  \<^verbatim>\<open>internal/conflict/lww.go\<close>: last-write-wins. The comparison of two values reads a key (version,
  tombstone, payload bytes), so merging keeps the value with the larger key. On the values a
  coordinator writes under the LWW policy the key determines the value, and merging is a
  semilattice; outside them (equal keys, different policy or CRDT payload) the first argument
  wins and merging is not commutative.
\<close>

definition cmpValue :: "Value \<Rightarrow> Value \<Rightarrow> int" where
  "cmpValue a b =
     (let c = Compare (Version a) (Version b) in
      if c \<noteq> 0 then c
      else if Tombstone a \<noteq> Tombstone b then (if Tombstone a then 1 else -1)
      else cmp_of (bytes (Data a)) (bytes (Data b)))"

definition LWW :: "Value \<Rightarrow> Value \<Rightarrow> Value" where
  "LWW a b = (if cmpValue a b \<ge> 0 then Clone a else Clone b)"

text \<open>The loop of \<^verbatim>\<open>Winner\<close> over its remaining views, with \<^verbatim>\<open>best\<close> and \<^verbatim>\<open>found\<close>.\<close>

fun winner_loop :: "ReplicaView list \<Rightarrow> Value \<Rightarrow> bool \<Rightarrow> Value \<times> bool" where
  "winner_loop [] best found = (best, found)"
| "winner_loop (v # vs) best found =
     (if \<not> rvFound v then winner_loop vs best found
      else if \<not> found \<or> Compare (Version (rvValue v)) (Version best) > 0
        then winner_loop vs (Clone (rvValue v)) True
      else winner_loop vs best found)"

definition Winner :: "ReplicaView list \<Rightarrow> Value \<times> bool" where
  "Winner views = winner_loop views zero_Value False"

section \<open>The order on values\<close>

definition value_key :: "Value \<Rightarrow> (u64 \<times> string) \<times> bool \<times> string" where
  "value_key v = (version_key (Version v), Tombstone v, bytes (Data v))"

lemma cmpValue_key: "cmpValue a b = cmp_of (value_key a) (value_key b)"
  unfolding value_key_def cmp_of_prod
  by (simp add: cmpValue_def Let_def ver_order.cmp_key) (auto simp: cmp_of_def)

interpretation val_order: key_order cmpValue value_key
  by unfold_locales (rule cmpValue_key)

lemma value_key_Clone [simp]: "value_key (Clone v) = value_key v"
  by (simp add: value_key_def)

lemma LWW_key: "LWW a b = Clone (if value_key b \<le> value_key a then a else b)"
  by (simp add: LWW_def val_order.sign)

lemma value_key_LWW [simp]: "value_key (LWW a b) = max (value_key a) (value_key b)"
  by (auto simp: LWW_key max_def)

lemma value_key_le_version: "value_key a \<le> value_key b \<Longrightarrow> Version a \<le> Version b"
  by (auto simp: value_key_def simp flip: version_key_le)

lemma LWW_version: "Version (LWW a b) = max (Version a) (Version b)"
  using value_key_le_version [of a b] value_key_le_version [of b a]
  by (auto simp: LWW_key max_def)

lemma LWW_assoc: "LWW (LWW a b) c = LWW a (LWW b c)"
  by (auto simp: LWW_key)

lemma LWW_cases: "LWW a b = Clone a \<or> LWW a b = Clone b"
  by (simp add: LWW_def)

section \<open>The values written under LWW\<close>

definition wf_lww :: "Value \<Rightarrow> bool" where
  "wf_lww v \<longleftrightarrow> Policy v = PolicyLWW \<and> canon_slice (Data v) \<and> CRDT v = None"

lemma wf_lww_canon: "wf_lww v \<Longrightarrow> canon_value v"
  by (simp add: wf_lww_def canon_value_def)

lemma wf_lww_key_inject: "wf_lww a \<Longrightarrow> wf_lww b \<Longrightarrow> value_key a = value_key b \<Longrightarrow> a = b"
  using canon_slice_eqI by (cases a; cases b) (auto simp: wf_lww_def value_key_def)

lemma LWW_wf: "wf_lww a \<Longrightarrow> wf_lww b \<Longrightarrow> LWW a b = (if value_key b \<le> value_key a then a else b)"
  by (simp add: LWW_key wf_lww_canon)

interpretation lww: merge_semilattice wf_lww LWW
proof unfold_locales
  show "LWW a b = LWW b a" if "wf_lww a" "wf_lww b" for a b
    using that wf_lww_key_inject [of a b] by (auto simp: LWW_wf)
qed (auto simp: LWW_wf)

section \<open>Properties\<close>

text \<open>\<^verbatim>\<open>Compare\<close> is a total order on versions: it is zero exactly on equal
  versions, reverses its sign when its arguments are swapped, is transitive, and orders first
  by Lamport time and then by node id.\<close>

theorem Compare_total_order:
  "(Compare a b = 0 \<longleftrightarrow> a = b) \<and> Compare a b = - Compare b a \<and>
   (Compare a b \<ge> 0 \<and> Compare b c \<ge> 0 \<longrightarrow> Compare a c \<ge> 0) \<and>
   (Compare a b < 0 \<longleftrightarrow> Lamport a < Lamport b \<or> Lamport a = Lamport b \<and> NodeID a < NodeID b)"
proof (intro conjI)
  show "Compare a b = - Compare b a" by (rule ver_order.antisym)
  show "Compare a b < 0 \<longleftrightarrow> Lamport a < Lamport b \<or> Lamport a = Lamport b \<and> NodeID a < NodeID b"
    by (simp add: Compare_def del: Compare_sign)
qed auto

theorem Compare_total_order_witness:
  "Compare \<lparr>Lamport = 3, NodeID = ''B''\<rparr> \<lparr>Lamport = 3, NodeID = ''A''\<rparr> \<ge> 0 \<and>
   Compare \<lparr>Lamport = 3, NodeID = ''A''\<rparr> \<lparr>Lamport = 2, NodeID = ''C''\<rparr> \<ge> 0 \<and>
   Compare \<lparr>Lamport = 3, NodeID = ''B''\<rparr> \<lparr>Lamport = 2, NodeID = ''C''\<rparr> \<ge> 0"
proof -
  have 1: "Compare \<lparr>Lamport = 3, NodeID = ''B''\<rparr> \<lparr>Lamport = 3, NodeID = ''A''\<rparr> \<ge> 0"
    and 2: "Compare \<lparr>Lamport = 3, NodeID = ''A''\<rparr> \<lparr>Lamport = 2, NodeID = ''C''\<rparr> \<ge> 0"
    by (simp_all only: Compare_def) simp_all
  then show ?thesis
    using Compare_total_order [of "\<lparr>Lamport = 3, NodeID = ''B''\<rparr>" "\<lparr>Lamport = 3, NodeID = ''A''\<rparr>"
        "\<lparr>Lamport = 2, NodeID = ''C''\<rparr>"]
    by blast
qed

text \<open>On the values a coordinator writes under the LWW policy, \<^verbatim>\<open>LWW\<close> is associative,
  commutative and idempotent, returns one of its arguments, and the result carries the larger
  of the two versions.\<close>

theorem LWW_semilattice:
  assumes "wf_lww a" "wf_lww b" "wf_lww c"
  shows "LWW (LWW a b) c = LWW a (LWW b c) \<and> LWW a b = LWW b a \<and> LWW a a = a \<and>
    LWW a b \<in> {a, b} \<and> Version (LWW a b) = max (Version a) (Version b)"
  using assms lww.assoc [of a b c] lww.comm [of a b] lww.idem [of a] LWW_version [of a b]
    LWW_wf [of a b]
  by (metis insert_iff)

theorem LWW_semilattice_witness:
  "LWW (zero_Value\<lparr>Version := \<lparr>Lamport = 1, NodeID = ''A''\<rparr>\<rparr>)
       (zero_Value\<lparr>Version := \<lparr>Lamport = 2, NodeID = ''B''\<rparr>, Data := Some ''x''\<rparr>)
   = LWW (zero_Value\<lparr>Version := \<lparr>Lamport = 2, NodeID = ''B''\<rparr>, Data := Some ''x''\<rparr>)
       (zero_Value\<lparr>Version := \<lparr>Lamport = 1, NodeID = ''A''\<rparr>\<rparr>)"
  using LWW_semilattice [of "zero_Value\<lparr>Version := \<lparr>Lamport = 1, NodeID = ''A''\<rparr>\<rparr>"
      "zero_Value\<lparr>Version := \<lparr>Lamport = 2, NodeID = ''B''\<rparr>, Data := Some ''x''\<rparr>" zero_Value]
  by (simp add: wf_lww_def)

text \<open>Outside those values merging is not commutative: two values with equal version,
  tombstone and data but different CRDT payloads compare as equal, and each order of arguments
  keeps its own first one.\<close>

theorem LWW_tie_not_commutative:
  assumes "value_key a = value_key b" "CRDT a = Some x" "CRDT b = Some y" "x \<noteq> y" "x \<noteq> []" "y \<noteq> []"
  shows "cmpValue a b = 0 \<and> CRDT (LWW a b) = CRDT a \<and> CRDT (LWW b a) = CRDT b \<and> LWW a b \<noteq> LWW b a"
proof -
  have "CRDT (LWW a b) = Some x" "CRDT (LWW b a) = Some y"
    using assms by (simp_all add: LWW_key canon_slice_def)
  then show ?thesis using assms by (auto simp: val_order.sign)
qed

theorem LWW_tie_not_commutative_witness:
  "LWW (zero_Value\<lparr>CRDT := Some ''p''\<rparr>) (zero_Value\<lparr>CRDT := Some ''q''\<rparr>)
   \<noteq> LWW (zero_Value\<lparr>CRDT := Some ''q''\<rparr>) (zero_Value\<lparr>CRDT := Some ''p''\<rparr>)"
  using LWW_tie_not_commutative [of "zero_Value\<lparr>CRDT := Some ''p''\<rparr>" "zero_Value\<lparr>CRDT := Some ''q''\<rparr>"]
  by (simp add: value_key_def)

section \<open>The winner among views\<close>

lemma winner_loop_found: "snd (winner_loop vs best found) \<longleftrightarrow> found \<or> (\<exists>v \<in> set vs. rvFound v)"
  by (induction vs best found rule: winner_loop.induct) auto

lemma winner_loop_from:
  "fst (winner_loop vs best found) \<in> insert best (Clone ` rvValue ` {v \<in> set vs. rvFound v})"
  by (induction vs best found rule: winner_loop.induct) auto

lemma winner_loop_first:
  "\<not> found \<Longrightarrow> \<exists>v \<in> set vs. rvFound v \<Longrightarrow>
    fst (winner_loop vs best found) \<in> Clone ` rvValue ` {v \<in> set vs. rvFound v}"
proof (induction vs best found rule: winner_loop.induct)
  case (2 v vs best found)
  then show ?case using winner_loop_from [of vs "Clone (rvValue v)" True] by auto
qed simp

lemma winner_loop_max:
  "v \<in> set vs \<Longrightarrow> rvFound v \<Longrightarrow> Version (rvValue v) \<le> Version (fst (winner_loop vs best found))"
  "found \<Longrightarrow> Version best \<le> Version (fst (winner_loop vs best found))"
proof (induction vs best found rule: winner_loop.induct)
  case (2 w vs best found)
  {
    case 1
    then show ?case using 2 by (auto split: if_splits intro: order_trans)
  next
    case 2
    then show ?case using "2.IH" by (auto split: if_splits intro: order_trans)
  }
qed simp_all

end
