(* ===== verification/LWW_Register.thy ===== *)
theory LWW_Register
  imports LWW_Merge
begin

text \<open>
  \<^verbatim>\<open>internal/conflict/crdt_lwwreg.go\<close>: the state-based LWW register. Its state travels as JSON in
  the \<^verbatim>\<open>CRDT\<close> field of a value; decoding falls back to the value's own fields when the payload
  is absent, malformed or has a zero timestamp. A well-formed register has canonical data and a
  UTF-8 node id in its timestamp, and then decoding inverts encoding; merging is the maximum
  of the register keys.
\<close>

record lwwReg =
  regData :: slice
  regTS :: Version
  regTombstone :: bool

definition newLWWReg :: "slice \<Rightarrow> Version \<Rightarrow> bool \<Rightarrow> lwwReg" where
  "newLWWReg data ts tombstone =
     \<lparr>regData = append_nil data, regTS = ts, regTombstone = tombstone\<rparr>"

text \<open>The JSON form of the struct, and storing a document into it.\<close>

definition json_of_lwwReg :: "lwwReg \<Rightarrow> json" where
  "json_of_lwwReg r = JObj
     [(''data'', json_of_bytes (regData r)), (''ts'', json_of_Version (regTS r)),
      (''tombstone'', JBool (regTombstone r))]"

definition lwwReg_member :: "lwwReg stored \<Rightarrow> string \<times> json \<Rightarrow> lwwReg stored" where
  "lwwReg_member st m =
     (let (r, e) = st; (k, j) = m in
      if names ''data'' k then (let (d, e') = into_bytes j (regData r) in (r\<lparr>regData := d\<rparr>, e \<or> e'))
      else if names ''ts'' k then (let (v, e') = into_Version j (regTS r) in (r\<lparr>regTS := v\<rparr>, e \<or> e'))
      else if names ''tombstone'' k then
        (let (b, e') = into_bool j (regTombstone r) in (r\<lparr>regTombstone := b\<rparr>, e \<or> e'))
      else (r, e))"

definition into_lwwReg :: "json \<Rightarrow> lwwReg \<Rightarrow> lwwReg stored" where
  "into_lwwReg j old =
     (case j of
        JObj ms \<Rightarrow> foldl lwwReg_member (old, False) ms
      | JNull \<Rightarrow> (old, False)
      | _ \<Rightarrow> (old, True))"

abbreviation zero_lwwReg :: lwwReg where
  "zero_lwwReg \<equiv> \<lparr>regData = None, regTS = zero_Version, regTombstone = False\<rparr>"

definition unmarshal_lwwReg :: "string \<Rightarrow> lwwReg stored" where
  "unmarshal_lwwReg s =
     (case json_parse s of None \<Rightarrow> (zero_lwwReg, True) | Some j \<Rightarrow> into_lwwReg j zero_lwwReg)"

definition decodeLWWReg :: "Value \<Rightarrow> lwwReg" where
  "decodeLWWReg v =
     (let fallback = \<lparr>regData = append_nil (Data v), regTS = Version v, regTombstone = Tombstone v\<rparr> in
      if bytes (CRDT v) \<noteq> [] then
        (let (r, err) = unmarshal_lwwReg (bytes (CRDT v)) in
         if \<not> err \<and> \<not> IsZero (regTS r) then r else fallback)
      else fallback)"

definition encodeLWWReg :: "lwwReg \<Rightarrow> Value" where
  "encodeLWWReg r =
     \<lparr>Data = append_nil (regData r), Version = regTS r, Policy = PolicyCRDTLWWReg,
      Tombstone = regTombstone r, CRDT = Some (json_print (json_of_lwwReg r))\<rparr>"

definition cmpLWWReg :: "lwwReg \<Rightarrow> lwwReg \<Rightarrow> int" where
  "cmpLWWReg a b =
     (let c = Compare (regTS a) (regTS b) in
      if c \<noteq> 0 then c
      else if regTombstone a \<noteq> regTombstone b then (if regTombstone a then 1 else -1)
      else cmp_of (bytes (regData a)) (bytes (regData b)))"

definition MergeLWWReg :: "Value \<Rightarrow> Value \<Rightarrow> Value" where
  "MergeLWWReg a b =
     (let ra = decodeLWWReg a; rb = decodeLWWReg b in
      if cmpLWWReg ra rb \<ge> 0 then encodeLWWReg ra else encodeLWWReg rb)"

definition ApplyLWWRegWrite :: "Value \<Rightarrow> bool \<Rightarrow> slice \<Rightarrow> Version \<Rightarrow> bool \<Rightarrow> Value" where
  "ApplyLWWRegWrite current found data ts tombstone =
     (let incoming = encodeLWWReg (newLWWReg data ts tombstone) in
      if \<not> found then incoming else MergeLWWReg current incoming)"

section \<open>Well-formed registers and the payload round trip\<close>

definition wf_reg :: "lwwReg \<Rightarrow> bool" where
  "wf_reg r \<longleftrightarrow> canon_slice (regData r) \<and> valid_utf8 (NodeID (regTS r))"

lemma reg_field_names [simp]:
  "\<not> names ''data'' ''ts''" "names ''ts'' ''ts''" "\<not> names ''ts'' ''tombstone''" "valid_utf8 ''ts''"
  by (simp_all add: names_def in_range_def byte_def)

lemma wf_json_lwwReg: "wf_reg r \<Longrightarrow> wf_json (json_of_lwwReg r)"
  by (simp add: json_of_lwwReg_def wf_reg_def)

lemma nests_lwwReg: "1 < d \<Longrightarrow> nests d (json_of_lwwReg r)"
  by (simp add: json_of_lwwReg_def)

lemma unmarshal_json_lwwReg:
  "wf_reg r \<Longrightarrow> unmarshal_lwwReg (json_print (json_of_lwwReg r)) = (r, False)"
  by (simp add: unmarshal_lwwReg_def json_parse_print wf_json_lwwReg nests_lwwReg)
    (simp add: into_lwwReg_def json_of_lwwReg_def lwwReg_member_def into_simps)

lemma decode_encode_lwwReg [merge_simps]: "wf_reg r \<Longrightarrow> decodeLWWReg (encodeLWWReg r) = r"
  by (cases r)
    (simp add: decodeLWWReg_def encodeLWWReg_def unmarshal_json_lwwReg wf_reg_def Let_def)

definition lwwReg_dec :: "string \<Rightarrow> lwwReg option" where
  "lwwReg_dec s = (let (r, e) = unmarshal_lwwReg s in if e then None else Some r)"

interpretation reg_codec: codec "\<lambda>r. json_print (json_of_lwwReg r)" lwwReg_dec wf_reg
  by unfold_locales (simp add: lwwReg_dec_def unmarshal_json_lwwReg)

section \<open>Merging is the maximum of the keys\<close>

definition reg_key :: "lwwReg \<Rightarrow> (u64 \<times> string) \<times> bool \<times> string" where
  "reg_key r = (version_key (regTS r), regTombstone r, bytes (regData r))"

lemma cmpLWWReg_key: "cmpLWWReg a b = cmp_of (reg_key a) (reg_key b)"
  unfolding reg_key_def cmp_of_prod
  by (simp add: cmpLWWReg_def Let_def ver_order.cmp_key) (auto simp: cmp_of_def)

interpretation reg_order: key_order cmpLWWReg reg_key
  by unfold_locales (rule cmpLWWReg_key)

lemma wf_reg_key_inject: "wf_reg a \<Longrightarrow> wf_reg b \<Longrightarrow> reg_key a = reg_key b \<Longrightarrow> a = b"
  using canon_slice_eqI by (cases a; cases b) (auto simp: wf_reg_def reg_key_def)

definition wf_lwwreg :: "Value \<Rightarrow> bool" where
  "wf_lwwreg v \<longleftrightarrow> wf_reg (decodeLWWReg v) \<and> v = encodeLWWReg (decodeLWWReg v)"

lemma wf_lwwreg_encode [wf_intros]: "wf_reg r \<Longrightarrow> wf_lwwreg (encodeLWWReg r)"
  by (simp add: wf_lwwreg_def merge_simps)

lemma wf_lwwreg_cases:
  assumes "wf_lwwreg v"
  obtains r where "wf_reg r" "v = encodeLWWReg r"
  using assms by (auto simp: wf_lwwreg_def)

lemma json_print_nonempty: "wf_json j \<Longrightarrow> json_print j \<noteq> []"
  using json_print_head by fastforce

lemma wf_lwwreg_canon: "wf_lwwreg v \<Longrightarrow> canon_value v"
  by (auto simp: canon_value_def encodeLWWReg_def json_of_lwwReg_def elim!: wf_lwwreg_cases)

lemma MergeLWWReg_encode [merge_simps]:
  "wf_reg r \<Longrightarrow> wf_reg s \<Longrightarrow>
    MergeLWWReg (encodeLWWReg r) (encodeLWWReg s) = encodeLWWReg (if reg_key s \<le> reg_key r then r else s)"
  by (simp add: MergeLWWReg_def merge_simps reg_order.sign Let_def)

interpretation lwwreg: merge_semilattice wf_lwwreg MergeLWWReg
proof unfold_locales
  show "wf_lwwreg (MergeLWWReg a b)" if "wf_lwwreg a" "wf_lwwreg b" for a b
    using that by (auto simp: merge_simps intro: wf_intros elim!: wf_lwwreg_cases)
  show "MergeLWWReg (MergeLWWReg a b) c = MergeLWWReg a (MergeLWWReg b c)"
    if "wf_lwwreg a" "wf_lwwreg b" "wf_lwwreg c" for a b c
    using that by (auto simp: merge_simps elim!: wf_lwwreg_cases)
  show "MergeLWWReg a b = MergeLWWReg b a" if "wf_lwwreg a" "wf_lwwreg b" for a b
    using that by (auto simp: merge_simps dest: wf_reg_key_inject elim!: wf_lwwreg_cases)
  show "MergeLWWReg a a = a" if "wf_lwwreg a" for a
    using that by (auto simp: merge_simps elim!: wf_lwwreg_cases)
qed

lemma Version_encode [simp]: "Version (encodeLWWReg r) = regTS r" "Policy (encodeLWWReg r) = PolicyCRDTLWWReg"
  by (simp_all add: encodeLWWReg_def)

lemma reg_key_le_ts: "reg_key a \<le> reg_key b \<Longrightarrow> regTS a \<le> regTS b"
  by (auto simp: reg_key_def simp flip: version_key_le)

lemma MergeLWWReg_version:
  "wf_lwwreg a \<Longrightarrow> wf_lwwreg b \<Longrightarrow> Version (MergeLWWReg a b) = max (Version a) (Version b)"
  using reg_key_le_ts by (fastforce simp: merge_simps max_def elim!: wf_lwwreg_cases)

lemma wf_newLWWReg [wf_intros]: "valid_utf8 (NodeID ts) \<Longrightarrow> wf_reg (newLWWReg data ts tomb)"
  by (simp add: wf_reg_def newLWWReg_def)

section \<open>Properties\<close>

text \<open>The JSON payload of a well-formed register decodes to the register it was made from:
  the timestamp, the tombstone flag and the data bytes all survive.\<close>

theorem lwwReg_roundtrip:
  assumes "canon_slice (regData r)" "valid_utf8 (NodeID (regTS r))"
  shows "decodeLWWReg (encodeLWWReg r) = r"
  using decode_encode_lwwReg [of r] assms by (simp add: wf_reg_def)

theorem lwwReg_roundtrip_witness:
  "decodeLWWReg (encodeLWWReg \<lparr>regData = Some ''free'', regTS = \<lparr>Lamport = 7, NodeID = ''A''\<rparr>, regTombstone = True\<rparr>)
   = \<lparr>regData = Some ''free'', regTS = \<lparr>Lamport = 7, NodeID = ''A''\<rparr>, regTombstone = True\<rparr>"
  using lwwReg_roundtrip [of "\<lparr>regData = Some ''free'', regTS = \<lparr>Lamport = 7, NodeID = ''A''\<rparr>, regTombstone = True\<rparr>"]
  by (simp add: byte_def)

text \<open>\<^verbatim>\<open>MergeLWWReg\<close> is the CvRDT merge its comment promises: on encoded registers it is
  associative, commutative and idempotent, on the bytes of the payload as well, and it keeps
  the larger timestamp.\<close>

theorem MergeLWWReg_semilattice:
  assumes "wf_lwwreg a" "wf_lwwreg b" "wf_lwwreg c"
  shows "MergeLWWReg (MergeLWWReg a b) c = MergeLWWReg a (MergeLWWReg b c) \<and>
    MergeLWWReg a b = MergeLWWReg b a \<and> MergeLWWReg a a = a \<and>
    Version (MergeLWWReg a b) = max (Version a) (Version b)"
  using assms lwwreg.assoc [of a b c] lwwreg.comm [of a b] lwwreg.idem [of a] MergeLWWReg_version [of a b]
  by blast

theorem MergeLWWReg_semilattice_witness:
  "MergeLWWReg (encodeLWWReg (newLWWReg (Some ''x'') \<lparr>Lamport = 1, NodeID = ''A''\<rparr> False))
     (encodeLWWReg (newLWWReg None \<lparr>Lamport = 1, NodeID = ''B''\<rparr> True))
   = MergeLWWReg (encodeLWWReg (newLWWReg None \<lparr>Lamport = 1, NodeID = ''B''\<rparr> True))
     (encodeLWWReg (newLWWReg (Some ''x'') \<lparr>Lamport = 1, NodeID = ''A''\<rparr> False))"
proof -
  have "wf_lwwreg (encodeLWWReg (newLWWReg (Some ''x'') \<lparr>Lamport = 1, NodeID = ''A''\<rparr> False))"
    "wf_lwwreg (encodeLWWReg (newLWWReg None \<lparr>Lamport = 1, NodeID = ''B''\<rparr> True))"
    by (auto intro!: wf_intros simp: byte_def)
  then show ?thesis using MergeLWWReg_semilattice by blast
qed

lemma less_triple:
  "((x, y, z) :: 'a::linorder \<times> 'b::linorder \<times> 'c::linorder) < (x', y', z') \<longleftrightarrow> x < x' \<or> x = x' \<and> (y < y' \<or> y = y' \<and> z < z')"
  by (auto simp: less_prod_def')

text \<open>C24. What a register write leaves: the register written, exactly when the key was not found or what it held is smaller, compared
  by timestamp, then tombstone, then data; otherwise the value is what it was. What is left decodes to the data, timestamp and tombstone of the
  write. (A value that was found is one the program makes; the node id is valid UTF-8.)\<close>

theorem ApplyLWWRegWrite_effect:
  assumes "found \<longrightarrow> wf_lwwreg cur" "valid_utf8 (NodeID ts)"
  shows "ApplyLWWRegWrite cur found data ts tomb =
      (if \<not> found \<or> Version cur < ts \<or>
         Version cur = ts \<and> (\<not> Tombstone cur \<and> tomb \<or> Tombstone cur = tomb \<and> bytes (Data cur) < bytes data)
       then encodeLWWReg \<lparr>regData = append_nil data, regTS = ts, regTombstone = tomb\<rparr> else cur) \<and>
    decodeLWWReg (encodeLWWReg \<lparr>regData = append_nil data, regTS = ts, regTombstone = tomb\<rparr>) =
      \<lparr>regData = append_nil data, regTS = ts, regTombstone = tomb\<rparr>"
proof -
  let ?n = "\<lparr>regData = append_nil data, regTS = ts, regTombstone = tomb\<rparr>"
  have n: "wf_reg ?n" "newLWWReg data ts tomb = ?n" using wf_newLWWReg [OF assms(2), of data tomb] by (simp_all add: newLWWReg_def)
  show ?thesis
  proof (cases found)
    case True
    then obtain r where r: "wf_reg r" "cur = encodeLWWReg r" using assms(1) wf_lwwreg_cases by blast
    have k: "\<not> reg_key ?n \<le> reg_key r \<longleftrightarrow>
        regTS r < ts \<or> regTS r = ts \<and> (\<not> regTombstone r \<and> tomb \<or> regTombstone r = tomb \<and> bytes (regData r) < bytes data)"
      unfolding not_le reg_key_def less_triple version_key_less version_key_inject by auto
    have f: "Version cur = regTS r" "Tombstone cur = regTombstone r" "bytes (Data cur) = bytes (regData r)"
      by (simp_all add: r(2) encodeLWWReg_def)
    show ?thesis
      unfolding ApplyLWWRegWrite_def Let_def n(2) f using True r n(1) k by (auto simp: merge_simps)
  qed (use n in \<open>simp add: ApplyLWWRegWrite_def merge_simps\<close>)
qed

theorem ApplyLWWRegWrite_effect_witness:
  "ApplyLWWRegWrite (encodeLWWReg (newLWWReg (Some ''x'') \<lparr>Lamport = 1, NodeID = ''A''\<rparr> False)) True (Some ''y'')
      \<lparr>Lamport = 1, NodeID = ''A''\<rparr> False =
     encodeLWWReg \<lparr>regData = Some ''y'', regTS = \<lparr>Lamport = 1, NodeID = ''A''\<rparr>, regTombstone = False\<rparr> \<and>
   ApplyLWWRegWrite zero_Value False (Some ''y'') \<lparr>Lamport = 1, NodeID = ''A''\<rparr> False =
     encodeLWWReg \<lparr>regData = Some ''y'', regTS = \<lparr>Lamport = 1, NodeID = ''A''\<rparr>, regTombstone = False\<rparr>"
proof -
  let ?cur = "encodeLWWReg (newLWWReg (Some ''x'') \<lparr>Lamport = 1, NodeID = ''A''\<rparr> False)"
  have "wf_lwwreg ?cur" by (auto intro!: wf_intros simp: byte_def)
  moreover have "Version ?cur = \<lparr>Lamport = 1, NodeID = ''A''\<rparr>" "\<not> Tombstone ?cur" "bytes (Data ?cur) < ''y''"
    by (simp_all add: encodeLWWReg_def newLWWReg_def)
  moreover have "valid_utf8 (NodeID \<lparr>Lamport = 1, NodeID = ''A''\<rparr>)" by (simp add: byte_def)
  ultimately show ?thesis
    using ApplyLWWRegWrite_effect [of True ?cur "\<lparr>Lamport = 1, NodeID = ''A''\<rparr>" "Some ''y''" False]
      ApplyLWWRegWrite_effect [of False zero_Value "\<lparr>Lamport = 1, NodeID = ''A''\<rparr>" "Some ''y''" False]
    by simp
qed

end
