(* ===== verification/OR_Set.thy ===== *)
theory OR_Set
  imports LWW_Merge
begin

text \<open>
  \<^verbatim>\<open>internal/conflict/crdt_orset.go\<close>: the observed-remove set. Its state is two Go maps from
  elements to maps of tags; the inner maps can be nil (\<^term>\<open>None\<close>), which reads like empty but
  prints differently. The state travels as JSON in the \<^verbatim>\<open>CRDT\<close> field.

  A \<^verbatim>\<open>range\<close> loop runs here over the entries in key order; Go does not fix an order, and
  \<open>union_maps_any_order\<close>, \<open>Remove_any_order\<close> and \<open>Contains_any_order\<close> show that no
  order changes a result. The abstract specification (\<open>aset\<close>) is the textbook OR-Set: two
  sets of (element, tag) pairs; \<open>orset_refines\<close> states that every operation implements it.
\<close>

type_synonym tagset = "(string, bool) fmap option"
type_synonym tagsets = "(string, tagset) fmap"

record orSet =
  Adds :: tagsets
  Rems :: tagsets

definition emptyORSet :: orSet where
  "emptyORSet = \<lparr>Adds = fmempty, Rems = fmempty\<rparr>"

section \<open>Reading and writing the maps\<close>

definition index :: "tagsets \<Rightarrow> string \<Rightarrow> tagset" where
  "index m k = (case fmlookup m k of Some t \<Rightarrow> t | None \<Rightarrow> None)"

definition entries :: "tagset \<Rightarrow> (string \<times> bool) list" where
  "entries t = (case t of None \<Rightarrow> [] | Some m \<Rightarrow> sorted_list_of_fmap m)"

definition tag_on :: "tagset \<Rightarrow> string \<Rightarrow> bool" where
  "tag_on t tag = (case t of None \<Rightarrow> False | Some m \<Rightarrow> (case fmlookup m tag of Some b \<Rightarrow> b | None \<Rightarrow> False))"

definition ensure :: "tagsets \<Rightarrow> string \<Rightarrow> tagsets" where
  "ensure m k = (if index m k = None then fmupd k (Some fmempty) m else m)"

text \<open>\<^verbatim>\<open>ensure(m, k)[tag] = true\<close>.\<close>

definition set_tag :: "tagsets \<Rightarrow> string \<Rightarrow> string \<Rightarrow> tagsets" where
  "set_tag m k tag =
     (let m' = ensure m k in
      case index m' k of
        Some t \<Rightarrow> fmupd k (Some (fmupd tag True t)) m'
      | None \<Rightarrow> m')"

section \<open>The JSON payload\<close>

definition json_of_tagset :: "tagset \<Rightarrow> json" where
  "json_of_tagset t =
     (case t of
        None \<Rightarrow> JNull
      | Some m \<Rightarrow> JObj (map (\<lambda>(tag, b). (tag, JBool b)) (sorted_list_of_fmap m)))"

definition json_of_tagsets :: "tagsets \<Rightarrow> json" where
  "json_of_tagsets m = JObj (map (\<lambda>(e, t). (e, json_of_tagset t)) (sorted_list_of_fmap m))"

definition json_of_orSet :: "orSet \<Rightarrow> json" where
  "json_of_orSet s = JObj [(''adds'', json_of_tagsets (Adds s)), (''rems'', json_of_tagsets (Rems s))]"

text \<open>
  Storing a document: a map entry is always set, to the zero value when its document has the
  wrong type; null makes a map nil; a document of the wrong type leaves the field alone.
\<close>

definition into_tagset :: "json \<Rightarrow> tagset" where
  "into_tagset j =
     (case j of
        JObj ms \<Rightarrow> Some (foldl (\<lambda>m (tag, v). fmupd tag (fst (into_bool v False)) m) fmempty ms)
      | _ \<Rightarrow> None)"

definition into_tagsets :: "json \<Rightarrow> tagsets option \<Rightarrow> tagsets option" where
  "into_tagsets j old =
     (case j of
        JObj ms \<Rightarrow> Some (foldl (\<lambda>m (e, v). fmupd e (into_tagset v) m)
                         (case old of None \<Rightarrow> fmempty | Some m \<Rightarrow> m) ms)
      | JNull \<Rightarrow> None
      | _ \<Rightarrow> old)"

definition orSet_member ::
  "tagsets option \<times> tagsets option \<Rightarrow> string \<times> json \<Rightarrow> tagsets option \<times> tagsets option" where
  "orSet_member st m =
     (let (a, r) = st; (k, j) = m in
      if names ''adds'' k then (into_tagsets j a, r)
      else if names ''rems'' k then (a, into_tagsets j r)
      else (a, r))"

definition unmarshal_orSet :: "string \<Rightarrow> orSet \<Rightarrow> tagsets option \<times> tagsets option" where
  "unmarshal_orSet b s =
     (case json_parse b of
        Some (JObj ms) \<Rightarrow> foldl orSet_member (Some (Adds s), Some (Rems s)) ms
      | _ \<Rightarrow> (Some (Adds s), Some (Rems s)))"

definition decodeORSet :: "Value \<Rightarrow> orSet" where
  "decodeORSet v =
     (let s = emptyORSet in
      if bytes (CRDT v) = [] then s
      else
        (let (a, r) = unmarshal_orSet (bytes (CRDT v)) s in
         \<lparr>Adds = (case a of None \<Rightarrow> fmempty | Some m \<Rightarrow> m),
          Rems = (case r of None \<Rightarrow> fmempty | Some m \<Rightarrow> m)\<rparr>))"

section \<open>Operations\<close>

definition Add :: "orSet \<Rightarrow> string \<Rightarrow> string \<Rightarrow> orSet" where
  "Add s elem tag = s\<lparr>Adds := set_tag (Adds s) elem tag\<rparr>"

definition remove_tags :: "tagsets \<Rightarrow> string \<Rightarrow> string list \<Rightarrow> tagsets" where
  "remove_tags rems elem tags = foldl (\<lambda>m tag. set_tag m elem tag) (ensure rems elem) tags"

definition Remove :: "orSet \<Rightarrow> string \<Rightarrow> orSet" where
  "Remove s elem = s\<lparr>Rems := remove_tags (Rems s) elem (map fst (entries (index (Adds s) elem)))\<rparr>"

definition Contains :: "orSet \<Rightarrow> string \<Rightarrow> bool" where
  "Contains s elem =
     list_ex (\<lambda>tag. \<not> tag_on (index (Rems s) elem) tag) (map fst (entries (index (Adds s) elem)))"

text \<open>The loop of \<^verbatim>\<open>Elements\<close> with \<^verbatim>\<open>seen\<close> and \<^verbatim>\<open>out\<close>, then \<^verbatim>\<open>sort.Strings\<close>.\<close>

fun elements_loop :: "orSet \<Rightarrow> string list \<Rightarrow> string list \<Rightarrow> string list \<Rightarrow> string list" where
  "elements_loop s [] seen out = out"
| "elements_loop s (e # es) seen out =
     (if Contains s e \<and> e \<notin> set seen then elements_loop s es (e # seen) (out @ [e])
      else elements_loop s es seen out)"

definition Elements :: "orSet \<Rightarrow> string list" where
  "Elements s = sort (elements_loop s (map fst (sorted_list_of_fmap (Adds s))) [] [])"

text \<open>\<^verbatim>\<open>json.Marshal\<close> of a nil \<^verbatim>\<open>[]string\<close> is null.\<close>

definition json_of_strings :: "string list \<Rightarrow> json" where
  "json_of_strings xs = (if xs = [] then JNull else JArr (map JStr xs))"

definition encodeORSet :: "orSet \<Rightarrow> Version \<Rightarrow> Value" where
  "encodeORSet s ver =
     \<lparr>Data = Some (json_print (json_of_strings (Elements s))), Version = ver, Policy = PolicyCRDTORSet,
      Tombstone = False, CRDT = Some (json_print (json_of_orSet s))\<rparr>"

definition union_tags :: "tagsets \<Rightarrow> string \<Rightarrow> (string \<times> bool) list \<Rightarrow> tagsets" where
  "union_tags dst elem tags =
     foldl (\<lambda>m (tag, on). if on then set_tag m elem tag else m) (ensure dst elem) tags"

definition union_entries :: "tagsets \<Rightarrow> (string \<times> tagset) list \<Rightarrow> tagsets" where
  "union_entries dst src = foldl (\<lambda>m (elem, tags). union_tags m elem (entries tags)) dst src"

definition union_maps :: "tagsets \<Rightarrow> tagsets \<Rightarrow> tagsets" where
  "union_maps dst src = union_entries dst (sorted_list_of_fmap src)"

definition mergeORSetStates :: "orSet \<Rightarrow> orSet \<Rightarrow> orSet" where
  "mergeORSetStates a b =
     (let out = emptyORSet;
          out = out\<lparr>Adds := union_maps (Adds out) (Adds a)\<rparr>;
          out = out\<lparr>Adds := union_maps (Adds out) (Adds b)\<rparr>;
          out = out\<lparr>Rems := union_maps (Rems out) (Rems a)\<rparr>
      in out\<lparr>Rems := union_maps (Rems out) (Rems b)\<rparr>)"

definition maxVer :: "Version \<Rightarrow> Version \<Rightarrow> Version" where
  "maxVer a b = (if Compare a b \<ge> 0 then a else b)"

definition MergeORSet :: "Value \<Rightarrow> Value \<Rightarrow> Value" where
  "MergeORSet a b =
     (let sa = decodeORSet a; sb = decodeORSet b in
      encodeORSet (mergeORSetStates sa sb) (maxVer (Version a) (Version b)))"

definition ApplyORSetOp :: "Value \<Rightarrow> bool \<Rightarrow> string \<Rightarrow> string \<Rightarrow> string \<Rightarrow> Version \<Rightarrow> Value" where
  "ApplyORSetOp current found op elem tag ver =
     (let s = (if found then decodeORSet current else emptyORSet);
          s = (if op = ''remove'' then Remove s elem else Add s elem tag)
      in encodeORSet s ver)"

definition ORSetElements :: "Value \<Rightarrow> string list" where
  "ORSetElements v = Elements (decodeORSet v)"

definition ORSetContains :: "Value \<Rightarrow> string \<Rightarrow> bool" where
  "ORSetContains v elem = Contains (decodeORSet v) elem"

section \<open>The tags that are on\<close>

definition on_tags :: "tagset \<Rightarrow> string set" where
  "on_tags t = {tag. tag_on t tag}"

text \<open>What a map records for an element: nothing, or a set of tags.\<close>

definition view :: "tagsets \<Rightarrow> string \<Rightarrow> string set option" where
  "view m e = map_option on_tags (fmlookup m e)"

definition opt_union :: "string set option \<Rightarrow> string set option \<Rightarrow> string set option" where
  "opt_union a b = (case a of None \<Rightarrow> b | Some A \<Rightarrow> (case b of None \<Rightarrow> a | Some B \<Rightarrow> Some (A \<union> B)))"

text \<open>Maps as the program builds them: no inner map is nil and every recorded tag is on.\<close>

definition solid :: "tagset \<Rightarrow> bool" where
  "solid t = (case t of None \<Rightarrow> False | Some m \<Rightarrow> fmpred (\<lambda>_ b. b) m)"

definition solid_map :: "tagsets \<Rightarrow> bool" where
  "solid_map m = fmpred (\<lambda>_ t. solid t) m"

lemma opt_union_aci:
  "opt_union (opt_union a b) c = opt_union a (opt_union b c)" "opt_union a b = opt_union b a" "opt_union a a = a"
  by (auto simp: opt_union_def split: option.splits)

lemma opt_union_None [simp]: "opt_union None b = b" "opt_union a None = a"
  by (auto simp: opt_union_def split: option.splits)

lemma tag_on_simps [simp]:
  "tag_on None tag = False" "tag_on (Some fmempty) tag = False"
  "tag_on (Some (fmupd t b m)) tag = (if tag = t then b else tag_on (Some m) tag)"
  by (auto simp: tag_on_def)

lemma on_tags_simps [simp]:
  "on_tags None = {}" "on_tags (Some fmempty) = {}"
  "on_tags (Some (fmupd t True m)) = insert t (on_tags (Some m))"
  by (auto simp: on_tags_def)

lemma solid_on_tags: "solid t \<Longrightarrow> t = Some m \<Longrightarrow> fmlookup m tag = (if tag \<in> on_tags t then Some True else None)"
  by (auto simp: solid_def on_tags_def tag_on_def split: option.splits dest: fmpredD)

lemma solid_eqI:
  assumes "solid a" "solid b" "on_tags a = on_tags b"
  shows "a = b"
proof -
  obtain m n where "a = Some m" "b = Some n"
    using assms(1,2) by (auto simp: solid_def split: option.splits)
  moreover from this have "m = n"
    using assms solid_on_tags [of a m] solid_on_tags [of b n] by (intro fmap_eqI) simp
  ultimately show ?thesis by simp
qed

lemma solid_map_eqI:
  assumes "solid_map m" "solid_map n" "view m = view n"
  shows "m = n"
proof (rule fmap_eqI)
  fix k
  have "view m k = view n k" using assms(3) by simp
  then show "fmlookup m k = fmlookup n k"
    using assms(1,2)
    by (cases "fmlookup m k"; cases "fmlookup n k")
      (auto simp: view_def solid_map_def intro!: solid_eqI dest: fmpred_lookup)
qed

lemma solid_empty [simp]: "solid_map fmempty" "view fmempty = (\<lambda>_. None)"
  by (auto simp: solid_map_def view_def)

text \<open>The effect of the map primitives on the view.\<close>

lemma ensure_view: "view (ensure m k) = (view m)(k := opt_union (view m k) (Some {}))"
  by (rule ext) (auto simp: ensure_def index_def view_def opt_union_def split: option.splits)

lemma ensure_solid: "solid_map m \<Longrightarrow> solid_map (ensure m k)"
  by (auto simp: ensure_def solid_map_def solid_def intro!: fmpred_upd)

lemma ensure_index: "\<exists>t. fmlookup (ensure m k) k = Some (Some t)"
  by (auto simp: ensure_def index_def split: option.splits)

lemma set_tag_view: "view (set_tag m k tag) = (view m)(k := opt_union (view m k) (Some {tag}))"
proof -
  obtain t where t: "fmlookup (ensure m k) k = Some (Some t)" using ensure_index by blast
  have k: "opt_union (view m k) (Some {}) = Some (on_tags (Some t))"
    using fun_cong [OF ensure_view [of m k], of k] t by (simp add: view_def)
  then have "opt_union (view m k) (Some {tag}) = Some (insert tag (on_tags (Some t)))"
    by (auto simp: opt_union_def split: option.splits)
  moreover have "view (set_tag m k tag) = (view (ensure m k))(k := Some (insert tag (on_tags (Some t))))"
    using t by (auto simp: set_tag_def index_def view_def)
  ultimately show ?thesis by (simp add: ensure_view)
qed

lemma set_tag_solid:
  assumes "solid_map m"
  shows "solid_map (set_tag m k tag)"
proof -
  obtain t where t: "fmlookup (ensure m k) k = Some (Some t)" using ensure_index by blast
  have s: "solid_map (ensure m k)" by (rule ensure_solid [OF assms])
  then have "solid (Some t)" using t by (auto simp: solid_map_def dest: fmpredD)
  with s t show ?thesis
    by (auto simp: set_tag_def index_def solid_map_def solid_def intro!: fmpred_upd)
qed

lemma opt_union_insert:
  "opt_union (opt_union x (Some A)) (Some B) = opt_union x (Some (A \<union> B))"
  by (auto simp: opt_union_def split: option.splits)

lemma remove_tags_view:
  "view (remove_tags m e tags) = (view m)(e := opt_union (view m e) (Some (set tags)))"
proof -
  have "view (foldl (\<lambda>m tag. set_tag m e tag) m' tags)
      = (view m')(e := if tags = [] then view m' e else opt_union (view m' e) (Some (set tags)))" for m'
    by (induction tags arbitrary: m') (auto simp: set_tag_view opt_union_insert fun_eq_iff)
  then show ?thesis
    by (auto simp: remove_tags_def ensure_view opt_union_insert fun_eq_iff)
qed

lemma remove_tags_solid: "solid_map m \<Longrightarrow> solid_map (remove_tags m e tags)"
proof -
  have "solid_map m' \<Longrightarrow> solid_map (foldl (\<lambda>m tag. set_tag m e tag) m' tags)" for m'
    by (induction tags arbitrary: m') (auto intro: set_tag_solid)
  then show "solid_map m \<Longrightarrow> ?thesis" by (simp add: remove_tags_def ensure_solid)
qed

lemma union_tags_remove: "union_tags m e tags = remove_tags m e (map fst (filter snd tags))"
proof -
  have "foldl (\<lambda>m (tag, on). if on then set_tag m e tag else m) m' tags
      = foldl (\<lambda>m tag. set_tag m e tag) m' (map fst (filter snd tags))" for m'
    by (induction tags arbitrary: m') auto
  then show ?thesis by (simp add: union_tags_def remove_tags_def)
qed

lemma entries_on: "set (map fst (filter snd (entries t))) = on_tags t"
  by (auto simp: entries_def on_tags_def tag_on_def in_sorted_list_of_fmap image_iff split: option.splits)
    (use in_sorted_list_of_fmap in fastforce)

lemma entries_keys:
  assumes "solid t"
  shows "set (map fst (entries t)) = on_tags t"
proof -
  obtain m where m: "t = Some m" using assms by (auto simp: solid_def split: option.splits)
  have "x \<in> fmdom' m \<longleftrightarrow> x \<in> on_tags t" for x
    using solid_on_tags [OF assms m, of x] by (auto simp: fmlookup_dom'_iff)
  then show ?thesis by (auto simp: entries_def m simp del: set_map)
qed

lemma union_tags_view:
  "view (union_tags m e (entries t)) = (view m)(e := opt_union (view m e) (Some (on_tags t)))"
  using remove_tags_view [of m e "map fst (filter snd (entries t))"] entries_on [of t]
  by (simp add: union_tags_remove)

lemma union_entries_view:
  "distinct (map fst xs) \<Longrightarrow>
    view (union_entries m xs) e = opt_union (view m e) (map_option on_tags (map_of xs e))"
proof (induction xs arbitrary: m)
  case Nil
  then show ?case by (simp add: union_entries_def)
next
  case (Cons x xs)
  obtain k t where x: "x = (k, t)" by (cases x)
  have "view (union_entries m (x # xs)) e = view (union_entries (union_tags m k (entries t)) xs) e"
    by (simp add: union_entries_def x)
  also have "\<dots> = opt_union (view (union_tags m k (entries t)) e) (map_option on_tags (map_of xs e))"
    using Cons by simp
  also have "\<dots> = opt_union (view m e) (map_option on_tags (map_of (x # xs) e))"
    using Cons.prems by (auto simp: x union_tags_view dest: map_of_eq_None_iff [THEN iffD2])
  finally show ?case .
qed

lemma union_entries_solid: "solid_map m \<Longrightarrow> solid_map (union_entries m xs)"
  by (induction xs arbitrary: m)
    (auto simp: union_entries_def union_tags_remove intro: remove_tags_solid)

lemma union_maps_view: "view (union_maps m n) e = opt_union (view m e) (view n e)"
  using union_entries_view [of "sorted_list_of_fmap n" m e] by (simp add: union_maps_def view_def)

lemma union_maps_solid: "solid_map m \<Longrightarrow> solid_map (union_maps m n)"
  by (simp add: union_maps_def union_entries_solid)

section \<open>The order of a range loop does not matter\<close>

lemma union_maps_any_order:
  assumes "solid_map dst" "distinct (map fst xs)" "map_of xs = fmlookup src"
  shows "union_entries dst xs = union_maps dst src"
  by (rule solid_map_eqI)
    (simp_all add: assms union_entries_solid union_maps_solid fun_eq_iff union_entries_view union_maps_view,
     simp add: view_def)

lemma Remove_any_order:
  assumes "solid_map rems" "set tags = set tags'"
  shows "remove_tags rems e tags = remove_tags rems e tags'"
  by (rule solid_map_eqI) (simp_all add: assms remove_tags_solid remove_tags_view)

lemma Contains_any_order:
  assumes "set tags = set (map fst (entries (index (Adds s) e)))"
  shows "list_ex (\<lambda>tag. \<not> tag_on (index (Rems s) e) tag) tags = Contains s e"
  using assms by (simp add: Contains_def list_ex_iff)

section \<open>Well-formed states\<close>

definition utf8_map :: "tagsets \<Rightarrow> bool" where
  "utf8_map m \<longleftrightarrow> (\<forall>e S. view m e = Some S \<longrightarrow> valid_utf8 e \<and> (\<forall>t \<in> S. valid_utf8 t))"

definition wf_orset :: "orSet \<Rightarrow> bool" where
  "wf_orset s \<longleftrightarrow> solid_map (Adds s) \<and> solid_map (Rems s) \<and> utf8_map (Adds s) \<and> utf8_map (Rems s)"

lemma utf8_map_empty [simp]: "utf8_map fmempty"
  by (simp add: utf8_map_def)

lemma utf8_map_upd:
  assumes "utf8_map m" "valid_utf8 e" "\<forall>t \<in> T. valid_utf8 t" "view n = (view m)(e := opt_union (view m e) (Some T))"
  shows "utf8_map n"
  using assms unfolding utf8_map_def
  by (auto simp: opt_union_def split: option.splits if_splits)

lemma utf8_map_union: "utf8_map m \<Longrightarrow> utf8_map n \<Longrightarrow> utf8_map (union_maps m n)"
  unfolding utf8_map_def union_maps_view by (auto simp: opt_union_def split: option.splits)

lemma wf_empty [wf_intros]: "wf_orset emptyORSet"
  by (simp add: wf_orset_def emptyORSet_def)

lemma wf_Add [wf_intros]: "wf_orset s \<Longrightarrow> valid_utf8 e \<Longrightarrow> valid_utf8 tag \<Longrightarrow> wf_orset (Add s e tag)"
  using utf8_map_upd [OF _ _ _ set_tag_view, of "Adds s" e tag]
  by (simp add: wf_orset_def Add_def set_tag_solid)

lemma index_view: "view m e = Some S \<Longrightarrow> on_tags (index m e) = S"
  by (auto simp: view_def index_def)

lemma on_tags_index: "on_tags (index m e) = (case view m e of None \<Rightarrow> {} | Some S \<Rightarrow> S)"
  by (auto simp: view_def index_def split: option.splits)

lemma index_solid: "solid_map m \<Longrightarrow> view m e = Some S \<Longrightarrow> solid (index m e)"
  by (auto simp: view_def index_def solid_map_def dest: fmpred_lookup)

lemma adds_keys:
  assumes "solid_map m"
  shows "set (map fst (entries (index m e))) = on_tags (index m e)"
proof (cases "view m e")
  case None
  then show ?thesis by (auto simp: view_def index_def entries_def split: option.splits)
next
  case (Some S)
  then show ?thesis using index_solid [OF assms Some] by (rule_tac entries_keys)
qed

lemma utf8_index: "utf8_map m \<Longrightarrow> t \<in> on_tags (index m e) \<Longrightarrow> valid_utf8 t"
  by (auto simp: utf8_map_def on_tags_index split: option.splits)

lemma wf_Remove [wf_intros]:
  assumes "wf_orset s" "valid_utf8 e"
  shows "wf_orset (Remove s e)"
proof -
  have "\<forall>t \<in> set (map fst (entries (index (Adds s) e))). valid_utf8 t"
    using assms adds_keys utf8_index unfolding wf_orset_def by blast
  then have "utf8_map (Rems (Remove s e))"
    using utf8_map_upd [OF _ assms(2) _ remove_tags_view] assms(1)
    by (simp add: wf_orset_def Remove_def del: set_map)
  then show ?thesis
    using assms by (simp add: wf_orset_def Remove_def remove_tags_solid)
qed

lemma merge_states_eq:
  "mergeORSetStates a b =
    \<lparr>Adds = union_maps (union_maps fmempty (Adds a)) (Adds b), Rems = union_maps (union_maps fmempty (Rems a)) (Rems b)\<rparr>"
  by (simp add: mergeORSetStates_def emptyORSet_def Let_def)

lemma merge_view:
  "view (Adds (mergeORSetStates a b)) e = opt_union (view (Adds a) e) (view (Adds b) e)"
  "view (Rems (mergeORSetStates a b)) e = opt_union (view (Rems a) e) (view (Rems b) e)"
  by (simp_all add: merge_states_eq union_maps_view)

lemma merge_solid [simp]:
  "solid_map (Adds (mergeORSetStates a b))" "solid_map (Rems (mergeORSetStates a b))"
  by (simp_all add: merge_states_eq union_maps_solid)

lemma wf_merge [wf_intros]: "wf_orset a \<Longrightarrow> wf_orset b \<Longrightarrow> wf_orset (mergeORSetStates a b)"
  by (simp add: wf_orset_def) (simp add: merge_states_eq utf8_map_union)

lemma wf_orset_eqI:
  assumes "wf_orset a" "wf_orset b"
    "\<And>e. view (Adds a) e = view (Adds b) e" "\<And>e. view (Rems a) e = view (Rems b) e"
  shows "a = b"
  using assms solid_map_eqI [of "Adds a" "Adds b"] solid_map_eqI [of "Rems a" "Rems b"]
  by (simp add: wf_orset_def fun_eq_iff)

interpretation orset_states: merge_semilattice wf_orset mergeORSetStates
proof unfold_locales
  show "mergeORSetStates (mergeORSetStates a b) c = mergeORSetStates a (mergeORSetStates b c)"
    if "wf_orset a" "wf_orset b" "wf_orset c" for a b c
    by (rule wf_orset_eqI) (auto intro: wf_intros that simp: merge_view opt_union_aci(1))
  show "mergeORSetStates a b = mergeORSetStates b a" if "wf_orset a" "wf_orset b" for a b
    by (rule wf_orset_eqI) (auto intro: wf_intros that simp: merge_view opt_union_aci(2))
  show "mergeORSetStates a a = a" if "wf_orset a" for a
    by (rule wf_orset_eqI) (auto intro: wf_intros that simp: merge_view opt_union_aci(3))
qed (rule wf_merge)

section \<open>The abstract OR-Set\<close>

type_synonym pairs = "(string \<times> string) set"

definition a_add :: "pairs \<times> pairs \<Rightarrow> string \<Rightarrow> string \<Rightarrow> pairs \<times> pairs" where
  "a_add st e t = (insert (e, t) (fst st), snd st)"

definition a_remove :: "pairs \<times> pairs \<Rightarrow> string \<Rightarrow> pairs \<times> pairs" where
  "a_remove st e = (fst st, snd st \<union> {(e', t) \<in> fst st. e' = e})"

definition a_merge :: "pairs \<times> pairs \<Rightarrow> pairs \<times> pairs \<Rightarrow> pairs \<times> pairs" where
  "a_merge st st' = (fst st \<union> fst st', snd st \<union> snd st')"

definition a_contains :: "pairs \<times> pairs \<Rightarrow> string \<Rightarrow> bool" where
  "a_contains st e \<longleftrightarrow> (\<exists>t. (e, t) \<in> fst st \<and> (e, t) \<notin> snd st)"

definition pairs_of :: "tagsets \<Rightarrow> pairs" where
  "pairs_of m = {(e, t). t \<in> on_tags (index m e)}"

definition abs_orset :: "orSet \<Rightarrow> pairs \<times> pairs" where
  "abs_orset s = (pairs_of (Adds s), pairs_of (Rems s))"

lemma pairs_of_upd:
  "view n = (view m)(e := opt_union (view m e) (Some T)) \<Longrightarrow> pairs_of n = pairs_of m \<union> {(e', t). e' = e \<and> t \<in> T}"
  by (auto simp: pairs_of_def on_tags_index opt_union_def split: option.splits if_splits)

lemma pairs_of_union: "pairs_of (union_maps m n) = pairs_of m \<union> pairs_of n"
  by (auto simp: pairs_of_def on_tags_index union_maps_view opt_union_def split: option.splits)

lemma abs_empty: "abs_orset emptyORSet = ({}, {})"
  by (simp add: abs_orset_def emptyORSet_def pairs_of_def index_def)

lemma abs_Add: "abs_orset (Add s e t) = a_add (abs_orset s) e t"
  by (auto simp: abs_orset_def Add_def a_add_def pairs_of_upd [OF set_tag_view])

lemma abs_Remove:
  assumes "solid_map (Adds s)"
  shows "abs_orset (Remove s e) = a_remove (abs_orset s) e"
proof -
  let ?tags = "map fst (entries (index (Adds s) e))"
  have "pairs_of (remove_tags (Rems s) e ?tags) = pairs_of (Rems s) \<union> {(e', t). e' = e \<and> t \<in> on_tags (index (Adds s) e)}"
    using pairs_of_upd [OF remove_tags_view, of "Rems s" e ?tags] adds_keys [OF assms, of e] by simp
  moreover have "{(e', t). e' = e \<and> t \<in> on_tags (index (Adds s) e)} = {(e', t) \<in> pairs_of (Adds s). e' = e}"
    by (auto simp: pairs_of_def)
  ultimately show ?thesis by (simp add: abs_orset_def Remove_def a_remove_def)
qed

lemma pairs_of_empty: "pairs_of fmempty = {}"
  by (simp add: pairs_of_def index_def)

lemma abs_merge: "abs_orset (mergeORSetStates a b) = a_merge (abs_orset a) (abs_orset b)"
  by (simp add: abs_orset_def merge_states_eq a_merge_def pairs_of_union pairs_of_empty)

lemma Contains_abs:
  assumes "solid_map (Adds s)"
  shows "Contains s e \<longleftrightarrow> a_contains (abs_orset s) e"
  using adds_keys [OF assms, of e]
  by (auto simp: Contains_def a_contains_def abs_orset_def pairs_of_def list_ex_iff on_tags_def simp del: set_map)

lemma Contains_key: "Contains s e \<Longrightarrow> e \<in> fmdom' (Adds s)"
  by (auto simp: Contains_def list_ex_iff entries_def index_def fmlookup_dom'_iff split: option.splits)

lemma elements_loop_set:
  "set (elements_loop s es seen out) = set out \<union> {e \<in> set es. Contains s e \<and> e \<notin> set seen}"
  by (induction s es seen out rule: elements_loop.induct) auto

lemma elements_loop_distinct:
  "distinct out \<Longrightarrow> set out \<subseteq> set seen \<Longrightarrow> distinct (elements_loop s es seen out)"
  by (induction s es seen out rule: elements_loop.induct) auto

lemma Elements_props: "sorted (Elements s)" "distinct (Elements s)" "set (Elements s) = {e. Contains s e}"
  using Contains_key [of s] keys_sorted_list_of_fmap [of "Adds s"]
  by (auto simp: Elements_def elements_loop_distinct elements_loop_set simp del: set_map keys_sorted_list_of_fmap)

section \<open>The payload round trip\<close>

lemma orset_field_names [simp]:
  "names ''adds'' ''adds''" "\<not> names ''adds'' ''rems''" "names ''rems'' ''rems''"
  "valid_utf8 ''adds''" "valid_utf8 ''rems''"
  by (simp_all add: names_def in_range_def byte_def)

lemma foldl_fmupd_map:
  assumes "distinct (map fst xs)" "\<And>k v. (k, v) \<in> set xs \<Longrightarrow> f (g v) = v"
  shows "foldl (\<lambda>m (k, v). fmupd k (f v) m) m0 (map (\<lambda>(k, v). (k, g v)) xs) = m0 ++\<^sub>f fmap_of_list xs"
proof -
  have "foldl (\<lambda>m (k, v). fmupd k (f v) m) m0 (map (\<lambda>(k, v). (k, g v)) xs)
      = foldl (\<lambda>m (k, v). fmupd k v m) m0 xs"
    unfolding foldl_map by (rule foldl_cong) (use assms(2) in auto)
  then show ?thesis using foldl_fmupd [OF assms(1)] by simp
qed

lemma fmadd_empty_left [simp]: "fmempty ++\<^sub>f m = m"
  by (rule fmap_eqI) (simp add: fmdom_notD)

lemma into_json_tagset: "into_tagset (json_of_tagset t) = t"
proof (cases t)
  case (Some m)
  then show ?thesis
    using foldl_fmupd_map [of "sorted_list_of_fmap m" "\<lambda>v. fst (into_bool v False)" JBool fmempty]
    by (simp add: into_tagset_def json_of_tagset_def into_simps)
qed (simp add: into_tagset_def json_of_tagset_def)

lemma into_json_tagsets: "into_tagsets (json_of_tagsets m) (Some fmempty) = Some m"
  using foldl_fmupd_map [of "sorted_list_of_fmap m" into_tagset json_of_tagset fmempty]
  by (simp add: into_tagsets_def json_of_tagsets_def into_json_tagset)

lemma wf_json_tagset:
  assumes "solid t" "\<forall>tag \<in> on_tags t. valid_utf8 tag"
  shows "wf_json (json_of_tagset t)"
proof -
  obtain m where m: "t = Some m" using assms(1) by (auto simp: solid_def split: option.splits)
  have "fmlookup m tag = Some b \<Longrightarrow> valid_utf8 tag" for tag b
    using solid_on_tags [OF assms(1) m, of tag] assms(2) by (auto split: if_splits)
  then show ?thesis
    by (auto simp: json_of_tagset_def m list_all_iff in_sorted_list_of_fmap)
qed

lemma wf_json_tagsets:
  assumes "solid_map m" "utf8_map m"
  shows "wf_json (json_of_tagsets m)"
proof -
  have "valid_utf8 e \<and> wf_json (json_of_tagset t)" if l: "fmlookup m e = Some t" for e t
  proof -
    have "solid t" using assms(1) l by (auto simp: solid_map_def dest: fmpred_lookup)
    moreover have "view m e = Some (on_tags t)" using l by (simp add: view_def)
    ultimately show ?thesis using assms(2) by (auto simp: utf8_map_def intro: wf_json_tagset)
  qed
  then show ?thesis by (auto simp: json_of_tagsets_def list_all_iff in_sorted_list_of_fmap)
qed

lemma wf_json_orSet: "wf_orset s \<Longrightarrow> wf_json (json_of_orSet s)"
  by (simp add: json_of_orSet_def wf_orset_def wf_json_tagsets)

lemma nests_orSet: "2 < d \<Longrightarrow> nests d (json_of_orSet s)"
proof -
  have "nests d (json_of_tagset t)" if "0 < d" for d t
    using that by (auto simp: json_of_tagset_def list_all_iff split: option.splits)
  then have "nests d (json_of_tagsets m)" if "1 < d" for d m
    using that by (auto simp: json_of_tagsets_def list_all_iff)
  then show "2 < d \<Longrightarrow> nests d (json_of_orSet s)" by (simp add: json_of_orSet_def)
qed

lemma unmarshal_json_orSet:
  "wf_orset s \<Longrightarrow> unmarshal_orSet (json_print (json_of_orSet s)) emptyORSet = (Some (Adds s), Some (Rems s))"
  by (simp add: unmarshal_orSet_def json_parse_print wf_json_orSet nests_orSet)
    (simp add: json_of_orSet_def orSet_member_def emptyORSet_def into_json_tagsets)

lemma decode_encode_ORSet [merge_simps]:
  assumes "wf_orset s"
  shows "decodeORSet (encodeORSet s ver) = s"
  using unmarshal_json_orSet [OF assms]
  by (simp add: decodeORSet_def encodeORSet_def) (simp add: json_of_orSet_def)

definition orSet_dec :: "string \<Rightarrow> orSet option" where
  "orSet_dec b =
     (case unmarshal_orSet b emptyORSet of
        (Some a, Some r) \<Rightarrow> Some \<lparr>Adds = a, Rems = r\<rparr>
      | _ \<Rightarrow> None)"

interpretation orset_codec: codec "\<lambda>s. json_print (json_of_orSet s)" orSet_dec wf_orset
  by unfold_locales (simp add: orSet_dec_def unmarshal_json_orSet)

section \<open>Values that carry an OR-Set\<close>

definition wf_orset_value :: "Value \<Rightarrow> bool" where
  "wf_orset_value v \<longleftrightarrow> wf_orset (decodeORSet v) \<and> v = encodeORSet (decodeORSet v) (Version v)"

lemma Version_encodeORSet [simp]:
  "Version (encodeORSet s ver) = ver" "Policy (encodeORSet s ver) = PolicyCRDTORSet"
  "Tombstone (encodeORSet s ver) = False"
  by (simp_all add: encodeORSet_def)

lemma wf_orset_value_encode [wf_intros]: "wf_orset s \<Longrightarrow> wf_orset_value (encodeORSet s ver)"
  by (simp add: wf_orset_value_def merge_simps)

lemma wf_orset_value_cases:
  assumes "wf_orset_value v"
  obtains s ver where "wf_orset s" "v = encodeORSet s ver"
  using assms by (auto simp: wf_orset_value_def)

lemma wf_orset_value_canon: "wf_orset_value v \<Longrightarrow> canon_value v"
  by (auto simp: canon_value_def encodeORSet_def json_of_strings_def json_of_orSet_def elim!: wf_orset_value_cases)

lemma maxVer_max: "maxVer a b = max a b"
  by (auto simp: maxVer_def max_def)

lemma MergeORSet_encode [merge_simps]:
  "wf_orset s \<Longrightarrow> wf_orset t \<Longrightarrow>
    MergeORSet (encodeORSet s v) (encodeORSet t w) = encodeORSet (mergeORSetStates s t) (max v w)"
  by (simp add: MergeORSet_def merge_simps maxVer_max)

interpretation orset: merge_semilattice wf_orset_value MergeORSet
proof unfold_locales
  show "wf_orset_value (MergeORSet a b)" if "wf_orset_value a" "wf_orset_value b" for a b
    using that by (auto simp: merge_simps intro!: wf_intros elim!: wf_orset_value_cases)
  show "MergeORSet (MergeORSet a b) c = MergeORSet a (MergeORSet b c)"
    if "wf_orset_value a" "wf_orset_value b" "wf_orset_value c" for a b c
    using that
    by (auto simp: merge_simps wf_merge orset_states.assoc max.assoc elim!: wf_orset_value_cases)
  show "MergeORSet a b = MergeORSet b a" if "wf_orset_value a" "wf_orset_value b" for a b
    using that orset_states.comm
    by (auto simp: merge_simps max.commute elim!: wf_orset_value_cases)
  show "MergeORSet a a = a" if "wf_orset_value a" for a
    using that by (auto simp: merge_simps orset_states.idem elim!: wf_orset_value_cases)
qed

lemma MergeORSet_version: "Version (MergeORSet a b) = max (Version a) (Version b)"
  by (simp add: MergeORSet_def maxVer_max)

lemma ORSetContains_encode [merge_simps]: "wf_orset s \<Longrightarrow> ORSetContains (encodeORSet s ver) e = Contains s e"
  by (simp add: ORSetContains_def merge_simps)

text \<open>The state a coordinator starts an operation from.\<close>

definition base_state :: "Value \<Rightarrow> bool \<Rightarrow> orSet" where
  "base_state cur found = (if found then decodeORSet cur else emptyORSet)"

lemma ApplyORSetOp_base:
  "ApplyORSetOp cur found op e tag ver =
     encodeORSet (if op = ''remove'' then Remove (base_state cur found) e else Add (base_state cur found) e tag) ver"
  by (simp add: ApplyORSetOp_def base_state_def)

lemma wf_base_state: "\<not> found \<or> wf_orset_value cur \<Longrightarrow> wf_orset (base_state cur found)"
  by (auto simp: base_state_def wf_orset_value_def intro: wf_intros)

lemma wf_ApplyORSetOp [wf_intros]:
  assumes "\<not> found \<or> wf_orset_value cur" "valid_utf8 e" "valid_utf8 tag"
  shows "wf_orset_value (ApplyORSetOp cur found op e tag ver)"
  using assms wf_base_state by (auto simp: ApplyORSetOp_base intro!: wf_intros)

lemma wf_solid: "wf_orset s \<Longrightarrow> solid_map (Adds s)"
  by (simp add: wf_orset_def)

lemma Contains_Add:
  assumes "wf_orset s"
  shows "Contains (Add s e tag) x \<longleftrightarrow> Contains s x \<or> x = e \<and> (e, tag) \<notin> snd (abs_orset s)"
proof -
  have "solid_map (Adds (Add s e tag))" using assms by (simp add: Add_def set_tag_solid wf_solid)
  then show ?thesis
    using assms by (auto simp: Contains_abs wf_solid abs_Add a_add_def a_contains_def)
qed

lemma Contains_Remove:
  assumes "wf_orset s"
  shows "Contains (Remove s e) x \<longleftrightarrow> Contains s x \<and> x \<noteq> e"
proof -
  have "solid_map (Adds (Remove s e))" using assms by (simp add: Remove_def wf_solid)
  then show ?thesis
    using assms by (auto simp: Contains_abs wf_solid abs_Remove a_remove_def a_contains_def)
qed

lemma Contains_merge:
  assumes "wf_orset s" "wf_orset t"
  shows "Contains (mergeORSetStates s t) x \<longleftrightarrow> a_contains (a_merge (abs_orset s) (abs_orset t)) x"
  by (simp add: Contains_abs abs_merge)

section \<open>Properties\<close>

text \<open>C13. Refinement: seen as two sets of (element, tag) pairs, every operation of the OR-Set code
  does what the textbook OR-Set does. Adding inserts one pair, removing tombstones exactly the
  pairs observed for the element, merging is the union of both sets, and an element is
  contained iff one of its add pairs is not tombstoned.\<close>

theorem orset_refines:
  assumes "wf_orset s" "wf_orset t"
  shows "abs_orset emptyORSet = ({}, {}) \<and>
    abs_orset (Add s e tag) = a_add (abs_orset s) e tag \<and>
    abs_orset (Remove s e) = a_remove (abs_orset s) e \<and>
    abs_orset (mergeORSetStates s t) = a_merge (abs_orset s) (abs_orset t) \<and>
    (Contains s e \<longleftrightarrow> a_contains (abs_orset s) e)"
  using assms by (simp add: abs_empty abs_Add abs_Remove abs_merge Contains_abs wf_solid)

theorem orset_refines_witness:
  "abs_orset (Remove (Add emptyORSet ''vip'' ''A:1'') ''vip'') = ({(''vip'', ''A:1'')}, {(''vip'', ''A:1'')})"
proof -
  have w: "wf_orset emptyORSet" "wf_orset (Add emptyORSet ''vip'' ''A:1'')"
    by (auto intro!: wf_intros simp: byte_def)
  have "abs_orset (Add emptyORSet ''vip'' ''A:1'') = ({(''vip'', ''A:1'')}, {})"
    using orset_refines [OF w(1) w(1), of "''vip''" "''A:1''"] by (simp add: a_add_def)
  then show ?thesis
    using orset_refines [OF w(2) w(1), of "''vip''" "''A:1''"] by (auto simp: a_remove_def)
qed

text \<open>C23. The JSON payload of a well-formed OR-Set decodes to the same state, elements whose remove
  left no tags included.\<close>

theorem orset_roundtrip:
  assumes "wf_orset s"
  shows "decodeORSet (encodeORSet s ver) = s \<and> ORSetElements (encodeORSet s ver) = Elements s"
  using assms by (simp add: decode_encode_ORSet ORSetElements_def)

theorem orset_roundtrip_witness:
  "decodeORSet (encodeORSet (Remove (Add emptyORSet ''vip'' ''A:1'') ''gone'') zero_Version)
   = Remove (Add emptyORSet ''vip'' ''A:1'') ''gone''"
proof -
  have "wf_orset (Remove (Add emptyORSet ''vip'' ''A:1'') ''gone'')"
    by (auto intro!: wf_intros simp: byte_def)
  then show ?thesis using orset_roundtrip by blast
qed

text \<open>\<^verbatim>\<open>MergeORSet\<close> is associative, commutative and idempotent on the values the program
  makes, payload bytes included, and the result carries the larger version.\<close>

theorem MergeORSet_semilattice:
  assumes "wf_orset_value a" "wf_orset_value b" "wf_orset_value c"
  shows "MergeORSet (MergeORSet a b) c = MergeORSet a (MergeORSet b c) \<and>
    MergeORSet a b = MergeORSet b a \<and> MergeORSet a a = a \<and>
    Version (MergeORSet a b) = max (Version a) (Version b)"
  using assms orset.assoc [of a b c] orset.comm [of a b] orset.idem [of a] MergeORSet_version [of a b]
  by blast

theorem MergeORSet_semilattice_witness:
  "MergeORSet (encodeORSet (Add emptyORSet ''a'' ''A:1'') \<lparr>Lamport = 1, NodeID = ''A''\<rparr>)
     (encodeORSet (Add emptyORSet ''b'' ''B:1'') \<lparr>Lamport = 1, NodeID = ''B''\<rparr>)
   = MergeORSet (encodeORSet (Add emptyORSet ''b'' ''B:1'') \<lparr>Lamport = 1, NodeID = ''B''\<rparr>)
     (encodeORSet (Add emptyORSet ''a'' ''A:1'') \<lparr>Lamport = 1, NodeID = ''A''\<rparr>)"
proof -
  have "wf_orset_value (encodeORSet (Add emptyORSet ''a'' ''A:1'') \<lparr>Lamport = 1, NodeID = ''A''\<rparr>)"
    "wf_orset_value (encodeORSet (Add emptyORSet ''b'' ''B:1'') \<lparr>Lamport = 1, NodeID = ''B''\<rparr>)"
    by (auto intro!: wf_intros simp: byte_def)
  then show ?thesis using MergeORSet_semilattice by blast
qed

text \<open>The effect of an operation on membership: an add under a tag that was not tombstoned puts
  the element in and changes nothing else; a remove takes the element out and changes nothing
  else.\<close>

theorem ApplyORSetOp_effect:
  assumes "\<not> found \<or> wf_orset_value cur" "valid_utf8 e" "valid_utf8 tag"
    and "(e, tag) \<notin> snd (abs_orset (base_state cur found))"
  shows "(ORSetContains (ApplyORSetOp cur found ''add'' e tag ver) x \<longleftrightarrow>
      x = e \<or> Contains (base_state cur found) x) \<and>
    (ORSetContains (ApplyORSetOp cur found ''remove'' e tag ver) x \<longleftrightarrow>
      x \<noteq> e \<and> Contains (base_state cur found) x)"
proof -
  have w: "wf_orset (base_state cur found)" using assms(1) by (rule wf_base_state)
  then have "wf_orset (Add (base_state cur found) e tag)" "wf_orset (Remove (base_state cur found) e)"
    using assms by (auto intro: wf_intros)
  then show ?thesis
    using w assms(4) by (auto simp: ApplyORSetOp_base ORSetContains_encode Contains_Add Contains_Remove)
qed

theorem ApplyORSetOp_effect_witness:
  "ORSetContains (ApplyORSetOp zero_Value False ''add'' ''vip'' ''A:1'' \<lparr>Lamport = 1, NodeID = ''A''\<rparr>) ''vip''"
  using ApplyORSetOp_effect [of False zero_Value "''vip''" "''A:1''" _ "''vip''"]
  by (simp add: base_state_def abs_empty byte_def)

text \<open>C22. Add wins: when one replica adds an element under a tag the other replica has never seen,
  and the other concurrently removes the element, the merged set contains it, whatever the
  two replicas held before.\<close>

theorem orset_add_wins:
  assumes "\<not> f1 \<or> wf_orset_value c1" "\<not> f2 \<or> wf_orset_value c2" "valid_utf8 e" "valid_utf8 tag1" "valid_utf8 tag2"
    and "(e, tag1) \<notin> snd (abs_orset (base_state c1 f1))"
    and "(e, tag1) \<notin> fst (abs_orset (base_state c2 f2))" "(e, tag1) \<notin> snd (abs_orset (base_state c2 f2))"
  shows "ORSetContains (MergeORSet (ApplyORSetOp c1 f1 ''add'' e tag1 v1)
      (ApplyORSetOp c2 f2 ''remove'' e tag2 v2)) e"
proof -
  let ?s = "Add (base_state c1 f1) e tag1" and ?t = "Remove (base_state c2 f2) e"
  have b: "wf_orset (base_state c1 f1)" "wf_orset (base_state c2 f2)"
    using assms(1,2) by (auto intro: wf_base_state)
  then have w: "wf_orset ?s" "wf_orset ?t" using assms by (auto intro: wf_intros)
  have "(e, tag1) \<in> fst (abs_orset ?s)" "(e, tag1) \<notin> snd (abs_orset ?s)" "(e, tag1) \<notin> snd (abs_orset ?t)"
    using assms(6-8) b by (auto simp: abs_Add abs_Remove a_add_def a_remove_def wf_solid)
  then have "Contains (mergeORSetStates ?s ?t) e"
    using w by (auto simp: Contains_merge a_contains_def a_merge_def)
  then show ?thesis
    using w by (simp add: ApplyORSetOp_base merge_simps wf_merge)
qed

theorem orset_add_wins_witness:
  "ORSetContains (MergeORSet
      (ApplyORSetOp (encodeORSet (Add emptyORSet ''vip'' ''A:1'') zero_Version) True ''add'' ''vip'' ''A:2'' \<lparr>Lamport = 2, NodeID = ''A''\<rparr>)
      (ApplyORSetOp (encodeORSet (Add emptyORSet ''vip'' ''A:1'') zero_Version) True ''remove'' ''vip'' ''C:1'' \<lparr>Lamport = 2, NodeID = ''C''\<rparr>))
    ''vip''"
proof -
  let ?s = "Add emptyORSet ''vip'' ''A:1''"
  have w: "wf_orset ?s" by (auto intro!: wf_intros simp: byte_def)
  have b: "base_state (encodeORSet ?s zero_Version) True = ?s"
    using w by (simp add: base_state_def merge_simps)
  have "abs_orset ?s = ({(''vip'', ''A:1'')}, {})" by (simp add: abs_Add abs_empty a_add_def)
  then show ?thesis
    using orset_add_wins [of True "encodeORSet ?s zero_Version" True "encodeORSet ?s zero_Version"
        "''vip''" "''A:2''" "''C:1''"] w b
    by (auto intro: wf_intros simp: byte_def)
qed

text \<open>C40. The converse that makes tag uniqueness essential: adding an element under a tag that is
  already tombstoned for it has no effect on membership, so the add is silently lost.\<close>

theorem orset_reused_tag_lost:
  assumes "wf_orset_value cur" "valid_utf8 e" "valid_utf8 tag"
    and "(e, tag) \<in> snd (abs_orset (decodeORSet cur))"
  shows "ORSetContains (ApplyORSetOp cur True ''add'' e tag ver) x \<longleftrightarrow> ORSetContains cur x"
proof -
  have w: "wf_orset (decodeORSet cur)" using assms(1) by (simp add: wf_orset_value_def)
  then have "wf_orset (Add (decodeORSet cur) e tag)" using assms by (auto intro: wf_intros)
  then show ?thesis
    using assms(4) w
    by (simp add: ApplyORSetOp_base base_state_def Contains_Add ORSetContains_def merge_simps)
qed

theorem orset_reused_tag_lost_witness:
  "\<not> ORSetContains (ApplyORSetOp (encodeORSet (Remove (Add emptyORSet ''vip'' ''A:1'') ''vip'') zero_Version)
       True ''add'' ''vip'' ''A:1'' \<lparr>Lamport = 9, NodeID = ''A''\<rparr>) ''vip''"
proof -
  let ?s = "Add emptyORSet ''vip'' ''A:1''"
  let ?r = "Remove ?s ''vip''"
  have w: "wf_orset ?s" "wf_orset ?r" by (auto intro!: wf_intros simp: byte_def)
  have "(''vip'', ''A:1'') \<in> snd (abs_orset ?r)"
    using w by (simp add: abs_Remove wf_solid a_remove_def) (simp add: abs_Add a_add_def)
  then show ?thesis
    using orset_reused_tag_lost [of "encodeORSet ?r zero_Version" "''vip''" "''A:1''" _ "''vip''"] w
    by (auto simp: merge_simps Contains_Remove byte_def intro: wf_intros)
qed

text \<open>\<^verbatim>\<open>Elements\<close> returns exactly the contained elements, sorted bytewise and without duplicates.\<close>

theorem Elements_exact:
  "sorted (Elements s) \<and> distinct (Elements s) \<and> set (Elements s) = {e. Contains s e}"
  using Elements_props by blast

end
