(* ===== verification/Resolve_Policy.thy ===== *)
theory Resolve_Policy
  imports LWW_Register OR_Set
begin

text \<open>
  \<^verbatim>\<open>internal/conflict/resolve.go\<close>: choosing the merge function by policy, folding it over the
  responses of a read, and the agreement test. \<open>wf_pol p\<close> are the values the program makes under
  policy \<open>p\<close>; for each policy \<open>Resolve\<close> is a semilattice on them (the interpretation
  \<open>resolve\<close>), which is what replicas, reads and anti-entropy rely on. Values of different
  policies under one key are outside that contract.
\<close>

definition Resolve :: "Value \<Rightarrow> Value \<Rightarrow> Value" where
  "Resolve a b =
     (let policy = Policy a;
          policy = (if IsZero (Version a) then Policy b else policy);
          policy = (if Policy b \<noteq> Policy a \<and> \<not> IsZero (Version b) \<and> Compare (Version b) (Version a) > 0
                    then Policy b else policy)
      in if policy = PolicyCRDTLWWReg then MergeLWWReg a b
         else if policy = PolicyCRDTORSet then MergeORSet a b
         else LWW a b)"

fun resolve_loop :: "ReplicaView list \<Rightarrow> Value \<Rightarrow> bool \<Rightarrow> Value \<times> bool" where
  "resolve_loop [] acc found = (acc, found)"
| "resolve_loop (v # vs) acc found =
     (if \<not> rvFound v then resolve_loop vs acc found
      else if \<not> found then resolve_loop vs (Clone (rvValue v)) True
      else resolve_loop vs (Resolve acc (rvValue v)) found)"

definition ResolveMany :: "ReplicaView list \<Rightarrow> Value \<times> bool" where
  "ResolveMany views = resolve_loop views zero_Value False"

fun agreed_loop :: "ReplicaView list \<Rightarrow> Value \<Rightarrow> nat \<Rightarrow> bool" where
  "agreed_loop [] winner seen = (seen > 0)"
| "agreed_loop (v # vs) winner seen =
     (if \<not> rvFound v then agreed_loop vs winner seen
      else if \<not> Value_Equal (rvValue v) winner then False
      else agreed_loop vs winner (Suc seen))"

definition Agreed :: "ReplicaView list \<Rightarrow> Value \<Rightarrow> bool" where
  "Agreed views winner = agreed_loop views winner 0"

section \<open>Values of one policy\<close>

definition wf_value :: "Value \<Rightarrow> bool" where
  "wf_value v \<longleftrightarrow>
     (if Policy v = PolicyCRDTLWWReg then wf_lwwreg v
      else if Policy v = PolicyCRDTORSet then wf_orset_value v
      else wf_lww v)"

definition wf_pol :: "Policy \<Rightarrow> Value \<Rightarrow> bool" where
  "wf_pol p v \<longleftrightarrow> Policy v = p \<and> wf_value v"

lemma wf_pol_simps:
  "wf_pol PolicyLWW v \<longleftrightarrow> wf_lww v"
  "wf_pol PolicyCRDTLWWReg v \<longleftrightarrow> wf_lwwreg v"
  "wf_pol PolicyCRDTORSet v \<longleftrightarrow> wf_orset_value v"
  by (auto simp: wf_pol_def wf_value_def wf_lww_def elim!: wf_lwwreg_cases wf_orset_value_cases)

lemma wf_pol_cases:
  assumes "wf_pol p v"
  obtains (lww) "p = PolicyLWW" "wf_lww v" | (reg) "p = PolicyCRDTLWWReg" "wf_lwwreg v"
  | (orset) "p = PolicyCRDTORSet" "wf_orset_value v"
  using assms by (auto simp: wf_pol_def wf_value_def wf_lww_def split: if_splits)

lemma wf_pol_canon: "wf_pol p v \<Longrightarrow> canon_value v"
  by (elim wf_pol_cases) (simp_all add: wf_lww_canon wf_lwwreg_canon wf_orset_value_canon)

lemma wf_pol_Policy: "wf_pol p v \<Longrightarrow> Policy v = p"
  by (simp add: wf_pol_def)

lemma wf_pol_Clone [simp]: "wf_pol p v \<Longrightarrow> Clone v = v"
  by (simp add: wf_pol_canon)

lemma wf_pol_Equal: "wf_pol p a \<Longrightarrow> wf_pol q b \<Longrightarrow> Value_Equal a b \<longleftrightarrow> a = b"
  by (simp add: Value_Equal_iff wf_pol_canon)

text \<open>With one policy \<open>Resolve\<close> is that policy's merge.\<close>

lemma Resolve_same_policy:
  "Policy a = p \<Longrightarrow> Policy b = p \<Longrightarrow>
    Resolve a b = (if p = PolicyCRDTLWWReg then MergeLWWReg a b
      else if p = PolicyCRDTORSet then MergeORSet a b else LWW a b)"
  by (simp add: Resolve_def Let_def)

lemma Resolve_lww: "wf_lww a \<Longrightarrow> wf_lww b \<Longrightarrow> Resolve a b = LWW a b"
  by (simp add: Resolve_same_policy wf_lww_def)

lemma Resolve_reg: "wf_lwwreg a \<Longrightarrow> wf_lwwreg b \<Longrightarrow> Resolve a b = MergeLWWReg a b"
  using Resolve_same_policy [of a PolicyCRDTLWWReg b] by (auto elim!: wf_lwwreg_cases)

lemma Resolve_orset: "wf_orset_value a \<Longrightarrow> wf_orset_value b \<Longrightarrow> Resolve a b = MergeORSet a b"
  using Resolve_same_policy [of a PolicyCRDTORSet b] by (auto elim!: wf_orset_value_cases)

lemmas Resolve_pol = Resolve_lww Resolve_reg Resolve_orset

lemma wf_pol_two:
  assumes "wf_pol p a" "wf_pol p b"
  obtains (lww) "p = PolicyLWW" "wf_lww a" "wf_lww b"
  | (reg) "p = PolicyCRDTLWWReg" "wf_lwwreg a" "wf_lwwreg b"
  | (orset) "p = PolicyCRDTORSet" "wf_orset_value a" "wf_orset_value b"
  using assms by (elim wf_pol_cases) auto

interpretation resolve: merge_semilattice "wf_pol p" Resolve for p
proof unfold_locales
  show "wf_pol p (Resolve a b)" if "wf_pol p a" "wf_pol p b" for a b
    using that by (cases rule: wf_pol_two)
      (auto simp: Resolve_pol wf_pol_simps lww.closed lwwreg.closed orset.closed)
  show "Resolve (Resolve a b) c = Resolve a (Resolve b c)" if "wf_pol p a" "wf_pol p b" "wf_pol p c" for a b c
    using that(1,2)
  proof (cases rule: wf_pol_two)
    case lww
    with that(3) show ?thesis by (simp add: wf_pol_simps Resolve_lww lww.closed lww.assoc)
  next
    case reg
    with that(3) show ?thesis by (simp add: wf_pol_simps Resolve_reg lwwreg.closed lwwreg.assoc)
  next
    case orset
    with that(3) show ?thesis by (simp add: wf_pol_simps Resolve_orset orset.closed orset.assoc)
  qed
  show "Resolve a b = Resolve b a" if "wf_pol p a" "wf_pol p b" for a b
    using that
  proof (cases rule: wf_pol_two)
    case lww
    then show ?thesis using lww.comm by (simp add: Resolve_lww)
  next
    case reg
    then show ?thesis using lwwreg.comm by (simp add: Resolve_reg)
  next
    case orset
    then show ?thesis using orset.comm by (simp add: Resolve_orset)
  qed
  show "Resolve a a = a" if "wf_pol p a" for a
    using that that by (cases rule: wf_pol_two) (simp_all add: Resolve_pol lww.idem lwwreg.idem orset.idem)
qed

lemma Resolve_version:
  assumes "wf_pol p a" "wf_pol p b"
  shows "Version (Resolve a b) = max (Version a) (Version b)"
  using assms
  by (cases rule: wf_pol_two) (simp_all add: Resolve_pol LWW_version MergeLWWReg_version MergeORSet_version)

section \<open>Folding over views\<close>

definition found_values :: "ReplicaView list \<Rightarrow> Value list" where
  "found_values vs = map rvValue (filter rvFound vs)"

lemma found_values_simps [simp]:
  "found_values [] = []"
  "found_values (v # vs) = (if rvFound v then rvValue v # found_values vs else found_values vs)"
  by (simp_all add: found_values_def)

lemma resolve_loop_found:
  "resolve_loop vs acc True = (foldl Resolve acc (found_values vs), True)"
  by (induction vs arbitrary: acc) auto

lemma ResolveMany_eq:
  "ResolveMany vs =
    (case found_values vs of [] \<Rightarrow> (zero_Value, False) | x # xs \<Rightarrow> (foldl Resolve (Clone x) xs, True))"
proof -
  have "resolve_loop vs acc False =
      (case found_values vs of [] \<Rightarrow> (acc, False) | x # xs \<Rightarrow> (foldl Resolve (Clone x) xs, True))" for acc
    by (induction vs arbitrary: acc) (auto simp: resolve_loop_found)
  then show ?thesis by (simp add: ResolveMany_def)
qed

lemma agreed_loop_iff:
  "agreed_loop vs w n \<longleftrightarrow> (\<forall>x \<in> set (found_values vs). Value_Equal x w) \<and> (n > 0 \<or> found_values vs \<noteq> [])"
  by (induction vs w n rule: agreed_loop.induct) auto

lemma Agreed_iff:
  "Agreed vs w \<longleftrightarrow> found_values vs \<noteq> [] \<and> (\<forall>x \<in> set (found_values vs). Value_Equal x w)"
  by (auto simp: Agreed_def agreed_loop_iff)

lemma ResolveMany_wf:
  assumes "\<And>x. x \<in> set (found_values vs) \<Longrightarrow> wf_pol p x" "found_values vs \<noteq> []"
  shows "wf_pol p (fst (ResolveMany vs))"
proof (cases "found_values vs")
  case (Cons y ys)
  then have "wf_pol p y" "\<And>x. x \<in> set ys \<Longrightarrow> wf_pol p x" using assms by auto
  then show ?thesis using resolve.wf_foldl [of p y ys] by (simp add: ResolveMany_eq Cons)
qed (use assms in simp)

text \<open>Every response is absorbed by the winner.\<close>

lemma ResolveMany_upper:
  assumes "\<And>x. x \<in> set (found_values vs) \<Longrightarrow> wf_pol p x" "x \<in> set (found_values vs)"
  shows "Resolve x (fst (ResolveMany vs)) = fst (ResolveMany vs)"
proof (cases "found_values vs")
  case (Cons y ys)
  then have "x = y \<or> x \<in> set ys" using assms(2) by simp
  moreover have w: "wf_pol p y" "\<And>x. x \<in> set ys \<Longrightarrow> wf_pol p x" using assms Cons by auto
  ultimately show ?thesis
    using resolve.foldl_start [of p y ys] resolve.foldl_absorb [of p y ys x]
    by (auto simp: ResolveMany_eq Cons wf_pol_Clone [OF w(1)])
qed (use assms in simp)

text \<open>What a tombstone does to an OR-Set key, between two sets and after them, and why a live mark
  survives a merge.\<close>

lemma Resolve_tombstone_between:
  assumes "wf_orset_value o1" "wf_orset_value o3" "Policy t2 = PolicyLWW" "CRDT t2 = None"
    and "Version o1 < Version t2" "Version t2 < Version o3"
  shows "Resolve (Resolve o1 t2) o3 = o3 \<and> Resolve (Resolve o1 o3) t2 = MergeORSet o1 o3"
proof -
  obtain s1 v1 where o1: "wf_orset s1" "o1 = encodeORSet s1 v1" using assms(1) by (rule wf_orset_value_cases)
  obtain s3 v3 where o3: "wf_orset s3" "o3 = encodeORSet s3 v3" using assms(2) by (rule wf_orset_value_cases)
  have nz: "\<not> IsZero (Version t2)" "\<not> IsZero (Version o3)"
    using assms(5,6) zero_Version_least leD by (metis IsZero_iff)+
  have dec: "decodeORSet t = emptyORSet" if "CRDT t = None" for t
    using that by (simp add: decodeORSet_def)
  have e: "mergeORSetStates emptyORSet s = s" "mergeORSetStates s emptyORSet = s" if "wf_orset s" for s
    by (rule wf_orset_eqI; auto intro: wf_intros that simp: merge_view; simp add: emptyORSet_def)+
  have "Resolve o1 t2 = Clone t2"
    using assms nz by (auto simp: Resolve_def Let_def o1 LWW_def cmpValue_def)
  moreover have "Resolve (Clone t2) o3 = o3"
    using assms(3,4,6) nz o3 by (simp add: Resolve_def Let_def MergeORSet_def dec merge_simps e maxVer_max)
  moreover have "Resolve (Resolve o1 o3) t2 = MergeORSet o1 o3"
  proof -
    have m: "Resolve o1 o3 = encodeORSet (mergeORSetStates s1 s3) v3"
      using assms(5,6) o1 o3 by (simp add: Resolve_orset wf_intros merge_simps max_def)
    have "\<not> 0 < Compare (Version t2) v3" using assms(6) o3 by simp
    moreover have "max v3 (Version t2) = v3" using assms(6) o3 by (simp add: max_def)
    moreover have "\<not> IsZero v3" using nz o3 by simp
    ultimately have "Resolve (encodeORSet (mergeORSetStates s1 s3) v3) t2 = encodeORSet (mergeORSetStates s1 s3) v3"
      using assms(4) wf_merge [OF o1(1) o3(1)]
      by (simp add: Resolve_def Let_def MergeORSet_def dec merge_simps e maxVer_max del: Compare_sign)
    then show ?thesis using m o1 o3 assms(1,2) by (simp add: Resolve_orset)
  qed
  ultimately show ?thesis by simp
qed

lemma MergeORSet_keeps_mark:
  assumes "wf_orset_value v" "wf_orset_value w" "tag_on (index (Adds (decodeORSet v)) x) mark"
    and "\<not> tag_on (index (Rems (decodeORSet v)) x) mark" "\<not> tag_on (index (Rems (decodeORSet w)) x) mark"
  shows "ORSetContains (MergeORSet v w) x"
proof -
  obtain s i where v: "wf_orset s" "v = encodeORSet s i" using assms(1) by (rule wf_orset_value_cases)
  obtain t j where w: "wf_orset t" "w = encodeORSet t j" using assms(2) by (rule wf_orset_value_cases)
  have "a_contains (a_merge (abs_orset s) (abs_orset t)) x"
    using assms(3-5) v w
    by (auto simp: a_contains_def a_merge_def abs_orset_def pairs_of_def on_tags_def merge_simps)
  then show ?thesis using v w by (simp add: merge_simps wf_intros Contains_merge)
qed

section \<open>Properties\<close>

text \<open>C12. For each policy, \<^verbatim>\<open>Resolve\<close> on the values the program makes under it is associative,
  commutative and idempotent, stays within the policy, and the result carries the larger
  version.\<close>

theorem Resolve_semilattice:
  assumes "wf_pol p a" "wf_pol p b" "wf_pol p c"
  shows "Resolve (Resolve a b) c = Resolve a (Resolve b c) \<and> Resolve a b = Resolve b a \<and>
    Resolve a a = a \<and> Policy (Resolve a b) = p \<and> Version (Resolve a b) = max (Version a) (Version b)"
  using assms resolve.assoc [of p a b c] resolve.comm [of p a b] resolve.idem [of p a]
    resolve.closed [of p a b] Resolve_version [of p a b]
  by (blast dest: wf_pol_Policy)

theorem Resolve_semilattice_witness:
  "Resolve (zero_Value\<lparr>Version := \<lparr>Lamport = 4, NodeID = ''A''\<rparr>, Data := Some ''x''\<rparr>)
     (zero_Value\<lparr>Version := \<lparr>Lamport = 4, NodeID = ''B''\<rparr>, Data := Some ''y''\<rparr>)
   = Resolve (zero_Value\<lparr>Version := \<lparr>Lamport = 4, NodeID = ''B''\<rparr>, Data := Some ''y''\<rparr>)
     (zero_Value\<lparr>Version := \<lparr>Lamport = 4, NodeID = ''A''\<rparr>, Data := Some ''x''\<rparr>)"
  using Resolve_semilattice [of PolicyLWW "zero_Value\<lparr>Version := \<lparr>Lamport = 4, NodeID = ''A''\<rparr>, Data := Some ''x''\<rparr>"
      "zero_Value\<lparr>Version := \<lparr>Lamport = 4, NodeID = ''B''\<rparr>, Data := Some ''y''\<rparr>" zero_Value]
  by (simp add: wf_pol_simps wf_lww_def)

text \<open>C19. A read's result depends only on which values were found: two reads whose found views
  hold the same set of values (of one policy), in any order and with any repetition and any
  number of empty views, resolve to the same winner.\<close>

theorem ResolveMany_order_independent:
  assumes "set (found_values vs) = set (found_values ws)"
    and "\<forall>x \<in> set (found_values vs). wf_pol p x"
  shows "ResolveMany vs = ResolveMany ws"
proof (cases "found_values vs")
  case Nil
  then show ?thesis using assms(1) by (simp add: ResolveMany_eq)
next
  case (Cons x xs)
  then obtain y ys where y: "found_values ws = y # ys"
    using assms(1) by (metis list.set(1) list.set_intros(1) neq_Nil_conv empty_iff)
  have "foldl Resolve x xs = foldl Resolve y ys"
    by (rule resolve.foldl_set_eq [of x xs y ys p]) (use assms Cons y in auto)
  moreover have "wf_pol p x" "wf_pol p y" using assms Cons y by auto
  ultimately show ?thesis by (simp add: ResolveMany_eq Cons y)
qed

theorem ResolveMany_order_independent_witness:
  "ResolveMany [\<lparr>rvNodeID = ''A'', rvValue = zero_Value\<lparr>Data := Some ''x''\<rparr>, rvFound = True\<rparr>,
      \<lparr>rvNodeID = ''B'', rvValue = zero_Value\<lparr>Data := Some ''y''\<rparr>, rvFound = True\<rparr>]
   = ResolveMany [\<lparr>rvNodeID = ''C'', rvValue = zero_Value, rvFound = False\<rparr>,
      \<lparr>rvNodeID = ''B'', rvValue = zero_Value\<lparr>Data := Some ''y''\<rparr>, rvFound = True\<rparr>,
      \<lparr>rvNodeID = ''A'', rvValue = zero_Value\<lparr>Data := Some ''x''\<rparr>, rvFound = True\<rparr>]"
  by (rule ResolveMany_order_independent [where p = PolicyLWW])
    (auto simp: wf_pol_simps wf_lww_def)

text \<open>The agreement test means what it says: it succeeds on the resolved winner exactly when
  some view was found and all found values are that one value.\<close>

theorem Agreed_winner:
  assumes "\<forall>x \<in> set (found_values vs). wf_pol p x"
  shows "Agreed vs (fst (ResolveMany vs)) \<longleftrightarrow> (\<exists>x. set (found_values vs) = {x})"
proof
  assume a: "Agreed vs (fst (ResolveMany vs))"
  then have ne: "found_values vs \<noteq> []" by (simp add: Agreed_iff)
  then have w: "wf_pol p (fst (ResolveMany vs))" using assms ResolveMany_wf by blast
  have "x = fst (ResolveMany vs)" if "x \<in> set (found_values vs)" for x
    using a assms that wf_pol_Equal [OF _ w] by (auto simp: Agreed_iff)
  then have "set (found_values vs) = {fst (ResolveMany vs)}" using ne
    by (metis (no_types, lifting) insertI1 list.set_cases list.set_intros(1) neq_Nil_conv set_eqI singletonD)
  then show "\<exists>x. set (found_values vs) = {x}" by blast
next
  assume "\<exists>x. set (found_values vs) = {x}"
  then obtain x where x: "set (found_values vs) = {x}" by blast
  then obtain y ys where y: "found_values vs = y # ys" "y = x" by (cases "found_values vs") auto
  have wx: "wf_pol p x" using assms x by simp
  have "foldl Resolve x ys = foldl Resolve x []"
    by (rule resolve.foldl_set_eq [where p = p]) (use x y wx in auto)
  then have "fst (ResolveMany vs) = x" using y wx by (simp add: ResolveMany_eq)
  then show "Agreed vs (fst (ResolveMany vs))" using x y by (auto simp: Agreed_iff)
qed

theorem Agreed_winner_witness:
  "\<not> Agreed [\<lparr>rvNodeID = ''A'', rvValue = zero_Value\<lparr>Data := Some ''x''\<rparr>, rvFound = True\<rparr>,
      \<lparr>rvNodeID = ''B'', rvValue = zero_Value, rvFound = True\<rparr>]
    (fst (ResolveMany [\<lparr>rvNodeID = ''A'', rvValue = zero_Value\<lparr>Data := Some ''x''\<rparr>, rvFound = True\<rparr>,
      \<lparr>rvNodeID = ''B'', rvValue = zero_Value, rvFound = True\<rparr>]))"
  by (subst Agreed_winner [where p = PolicyLWW]) (auto simp: wf_pol_simps wf_lww_def)

text \<open>C39. A delete writes an LWW tombstone whatever the key's policy. On an OR-Set key that leaves
  the order of delivery visible. Take an older set, a tombstone and a newer set: a replica that
  receives the tombstone between the sets keeps only the newer set, a replica that receives it
  last ignores it and keeps the union of both sets. When an element of the older set carries a
  mark that the newer set has not tombstoned, and the newer set does not list the element, the
  second replica lists the element, the first does not, and the two values differ.\<close>

theorem Resolve_delete_not_associative:
  assumes "wf_orset_value o1" "wf_orset_value o3" "Policy t2 = PolicyLWW" "CRDT t2 = None"
    and "Version o1 < Version t2" "Version t2 < Version o3"
    and "tag_on (index (Adds (decodeORSet o1)) x) mark"
    and "\<not> tag_on (index (Rems (decodeORSet o1)) x) mark" "\<not> tag_on (index (Rems (decodeORSet o3)) x) mark"
    and "\<not> ORSetContains o3 x"
  shows "Resolve (Resolve o1 t2) o3 = o3 \<and> Resolve (Resolve o1 o3) t2 = MergeORSet o1 o3 \<and>
    ORSetContains (Resolve (Resolve o1 o3) t2) x \<and> \<not> ORSetContains (Resolve (Resolve o1 t2) o3) x \<and>
    Resolve (Resolve o1 t2) o3 \<noteq> Resolve (Resolve o1 o3) t2"
proof -
  have "ORSetContains (MergeORSet o1 o3) x" by (rule MergeORSet_keeps_mark) (use assms in auto)
  then show ?thesis using Resolve_tombstone_between [OF assms(1-6)] assms(10) by metis
qed

theorem Resolve_delete_not_associative_witness:
  "let o1 = encodeORSet (Add emptyORSet ''a'' ''A:1'') \<lparr>Lamport = 1, NodeID = ''A''\<rparr>;
       t2 = zero_Value\<lparr>Version := \<lparr>Lamport = 2, NodeID = ''B''\<rparr>, Tombstone := True\<rparr>;
       o3 = encodeORSet (Add emptyORSet ''c'' ''C:1'') \<lparr>Lamport = 3, NodeID = ''C''\<rparr>
   in Resolve (Resolve o1 t2) o3 = o3 \<and> Resolve (Resolve o1 o3) t2 = MergeORSet o1 o3 \<and>
      ORSetContains (Resolve (Resolve o1 o3) t2) ''a'' \<and> \<not> ORSetContains (Resolve (Resolve o1 t2) o3) ''a'' \<and>
      Resolve (Resolve o1 t2) o3 \<noteq> Resolve (Resolve o1 o3) t2"
proof -
  have w: "wf_orset (Add emptyORSet ''a'' ''A:1'')" "wf_orset (Add emptyORSet ''c'' ''C:1'')"
    by (auto intro!: wf_intros simp: byte_def)
  have m: "tag_on (index (Adds (Add emptyORSet ''a'' ''A:1'')) ''a'') ''A:1''"
    "\<not> tag_on (index (Rems (Add emptyORSet ''a'' ''A:1'')) ''a'') ''A:1''"
    "\<not> tag_on (index (Rems (Add emptyORSet ''c'' ''C:1'')) ''a'') ''A:1''"
    "\<not> Contains (Add emptyORSet ''c'' ''C:1'') ''a''"
    by code_simp+
  show ?thesis unfolding Let_def
    by (rule Resolve_delete_not_associative [where mark = "''A:1''"])
      (use w m in \<open>simp_all add: merge_simps wf_intros less_Version_ext_def\<close>)
qed

end
