(* ===== verification/Store_KV.thy ===== *)
theory Store_KV
  imports Types "HOL-Library.Sublist"
begin

text \<open>
  \<^verbatim>\<open>internal/store/kv.go\<close>: the in-memory versioned map. The state is the two Go maps: current
  values, and per key the versions already applied. \<open>kv_map\<close> is the interface the rest of
  the program relies on (what a lookup returns after a store), stated as a locale and
  interpreted on \<^verbatim>\<open>Apply\<close> and on \<^verbatim>\<open>Inject\<close>.
\<close>

record KV =
  kv_m :: "(string, Value) fmap"
  kv_applied :: "(string, (Version, unit) fmap) fmap"

definition NewKV :: KV where
  "NewKV = \<lparr>kv_m = fmempty, kv_applied = fmempty\<rparr>"

definition KV_Get :: "KV \<Rightarrow> string \<Rightarrow> Value \<times> bool" where
  "KV_Get kv key =
     (case fmlookup (kv_m kv) key of
        None \<Rightarrow> (zero_Value, False)
      | Some v \<Rightarrow> (Clone v, True))"

definition mark_applied ::
  "(string, (Version, unit) fmap) fmap \<Rightarrow> string \<Rightarrow> Version \<Rightarrow> (string, (Version, unit) fmap) fmap" where
  "mark_applied app key ver =
     (let app = (if fmlookup app key = None then fmupd key fmempty app else app) in
      fmupd key (fmupd ver () (the (fmlookup app key))) app)"

definition KV_Apply :: "KV \<Rightarrow> string \<Rightarrow> Value \<Rightarrow> Value \<times> KV" where
  "KV_Apply kv key v =
     (let kv = kv\<lparr>kv_applied := mark_applied (kv_applied kv) key (Version v)\<rparr>;
          cloned = Clone v
      in (cloned, kv\<lparr>kv_m := fmupd key cloned (kv_m kv)\<rparr>))"

definition Seen :: "KV \<Rightarrow> string \<Rightarrow> Version \<Rightarrow> bool" where
  "Seen kv key ver =
     (case fmlookup (kv_applied kv) key of
        None \<Rightarrow> False
      | Some vs \<Rightarrow> fmlookup vs ver \<noteq> None)"

definition KV_Snapshot :: "KV \<Rightarrow> (string, Value) fmap" where
  "KV_Snapshot kv = fmmap Clone (kv_m kv)"

definition KV_Prefix :: "KV \<Rightarrow> string \<Rightarrow> (string, Value) fmap" where
  "KV_Prefix kv pre =
     fmap_of_list (map (\<lambda>(k, v). (k, Clone v))
       (filter (\<lambda>(k, v). prefix pre k \<and> \<not> Tombstone v) (sorted_list_of_fmap (kv_m kv))))"

definition KV_Len :: "KV \<Rightarrow> nat" where
  "KV_Len kv = length (sorted_list_of_fmap (kv_m kv))"

definition KV_Inject :: "KV \<Rightarrow> string \<Rightarrow> Value \<Rightarrow> KV" where
  "KV_Inject kv key v =
     (let kv = kv\<lparr>kv_m := fmupd key (Clone v) (kv_m kv)\<rparr> in
      kv\<lparr>kv_applied := mark_applied (kv_applied kv) key (Version v)\<rparr>)"

definition FactKey :: "string \<Rightarrow> string \<Rightarrow> string" where
  "FactKey entity attribute = entity @ '':'' @ attribute"

text \<open>\<^verbatim>\<open>strings.LastIndex(s, ":")\<close>: the position of the last colon, -1 without one.\<close>

definition last_colon :: "string \<Rightarrow> int" where
  "last_colon s =
     (if CHR '':'' \<in> set s then int (length s) - 1 - int (length (takeWhile (\<lambda>c. c \<noteq> CHR '':'') (rev s)))
      else -1)"

definition SplitFactKey :: "string \<Rightarrow> string \<times> string" where
  "SplitFactKey key =
     (let i = last_colon key in
      if i < 0 then (key, '''')
      else (take (nat i) key, drop (nat (i + 1)) key))"

section \<open>The interface\<close>

locale kv_map =
  fixes get :: "'s \<Rightarrow> string \<Rightarrow> Value \<times> bool"
    and put :: "'s \<Rightarrow> string \<Rightarrow> Value \<Rightarrow> 's"
    and seen :: "'s \<Rightarrow> string \<Rightarrow> Version \<Rightarrow> bool"
  assumes get_put: "get (put s k v) k' = (if k' = k then (Clone v, True) else get s k')"
    and seen_put: "seen (put s k v) k' ver \<longleftrightarrow> seen s k' ver \<or> k' = k \<and> ver = Version v"
begin

lemma get_put_same: "get (put s k v) k = (Clone v, True)"
  by (simp add: get_put)

lemma put_put: "get (put (put s k v) k w) k' = get (put s k w) k'"
  by (simp add: get_put)

lemma put_commute: "k \<noteq> k' \<Longrightarrow> get (put (put s k v) k' w) x = get (put (put s k' w) k v) x"
  by (simp add: get_put)

lemma seen_mono: "seen s k ver \<Longrightarrow> seen (put s k' v) k ver"
  by (simp add: seen_put)

lemma puts_get:
  "get (foldl (\<lambda>s (k, v). put s k v) s xs) k =
    (case map_of (rev xs) k of None \<Rightarrow> get s k | Some v \<Rightarrow> (Clone v, True))"
  by (induction xs arbitrary: s) (auto simp: get_put map_add_def split: option.splits)

end

lemma mark_applied_lookup:
  "(case fmlookup (mark_applied app k v) k' of None \<Rightarrow> False | Some vs \<Rightarrow> fmlookup vs ver \<noteq> None) \<longleftrightarrow>
   (case fmlookup app k' of None \<Rightarrow> False | Some vs \<Rightarrow> fmlookup vs ver \<noteq> None) \<or> k' = k \<and> ver = v"
  by (auto simp: mark_applied_def Let_def split: option.splits)

interpretation kv_apply: kv_map KV_Get "\<lambda>kv k v. snd (KV_Apply kv k v)" Seen
  by unfold_locales
    (simp_all add: KV_Get_def KV_Apply_def Seen_def mark_applied_lookup Let_def split: option.splits)

interpretation kv_inject: kv_map KV_Get KV_Inject Seen
  by unfold_locales
    (simp_all add: KV_Get_def KV_Inject_def Seen_def mark_applied_lookup Let_def split: option.splits)

text \<open>Values are stored cloned, so what is stored is canonical.\<close>

definition kv_canon :: "KV \<Rightarrow> bool" where
  "kv_canon kv \<longleftrightarrow> fmpred (\<lambda>_ v. canon_value v) (kv_m kv)"

lemma kv_canon_New [simp]: "kv_canon NewKV"
  by (simp add: kv_canon_def NewKV_def)

lemma kv_canon_Apply [simp]: "kv_canon kv \<Longrightarrow> kv_canon (snd (KV_Apply kv k v))"
  by (auto simp: kv_canon_def KV_Apply_def Let_def intro!: fmpred_upd)

lemma kv_canon_Inject [simp]: "kv_canon kv \<Longrightarrow> kv_canon (KV_Inject kv k v)"
  by (auto simp: kv_canon_def KV_Inject_def Let_def intro!: fmpred_upd)

lemma KV_Get_lookup:
  "kv_canon kv \<Longrightarrow> KV_Get kv k = (case fmlookup (kv_m kv) k of None \<Rightarrow> (zero_Value, False) | Some v \<Rightarrow> (v, True))"
  by (auto simp: KV_Get_def kv_canon_def split: option.splits dest: fmpred_lookup)

lemma Snapshot_lookup: "fmlookup (KV_Snapshot kv) k = map_option Clone (fmlookup (kv_m kv) k)"
  by (simp add: KV_Snapshot_def)

lemma Snapshot_canon: "kv_canon kv \<Longrightarrow> KV_Snapshot kv = kv_m kv"
  by (rule fmap_eqI)
    (auto simp: Snapshot_lookup kv_canon_def option.map_ident_strong dest: fmpred_lookup
      intro!: option.map_ident_strong)

lemma Prefix_lookup:
  "fmlookup (KV_Prefix kv pre) k =
    (case fmlookup (kv_m kv) k of
       None \<Rightarrow> None
     | Some v \<Rightarrow> if prefix pre k \<and> \<not> Tombstone v then Some (Clone v) else None)"
  by (simp add: KV_Prefix_def fmlookup_of_list map_of_map lookup_filtered split: option.splits)

section \<open>Properties\<close>

text \<open>The store is a map that remembers what was applied: after \<^verbatim>\<open>Apply(k, v)\<close> a lookup of \<open>k\<close> finds
  \<open>v\<close> (cloned) and every other key is unchanged, and exactly the version of \<open>v\<close> has been added to
  the versions seen for \<open>k\<close>.\<close>

theorem KV_get_after_apply:
  "KV_Get (snd (KV_Apply kv k v)) k' = (if k' = k then (Clone v, True) else KV_Get kv k') \<and>
   (Seen (snd (KV_Apply kv k v)) k' ver \<longleftrightarrow> Seen kv k' ver \<or> k' = k \<and> ver = Version v) \<and>
   fst (KV_Apply kv k v) = Clone v"
  using kv_apply.get_put [of kv k v k'] kv_apply.seen_put [of kv k v k' ver]
  by (simp add: KV_Apply_def Let_def)

text \<open>A fact key splits back into entity and attribute when the attribute holds no colon, and only
  the last colon counts, so an entity with a colon shares its keys with a shorter one.\<close>

theorem FactKey_roundtrip:
  assumes "CHR '':'' \<notin> set attribute"
  shows "SplitFactKey (FactKey entity attribute) = (entity, attribute) \<and>
    FactKey (entity @ '':'' @ x) attribute = FactKey entity (x @ '':'' @ attribute)"
proof -
  have "takeWhile (\<lambda>c. c \<noteq> CHR '':'') (rev attribute @ CHR '':'' # rev entity) = rev attribute"
    using assms by (subst takeWhile_append2) auto
  then have "last_colon (FactKey entity attribute) = int (length entity)"
    by (simp add: last_colon_def FactKey_def)
  then show ?thesis by (simp add: SplitFactKey_def FactKey_def nat_add_distrib)
qed

theorem FactKey_roundtrip_witness:
  "SplitFactKey (FactKey ''customer-1'' ''plan'') = (''customer-1'', ''plan'')"
  using FactKey_roundtrip [of "''plan''" "''customer-1''"] by simp

end
