(* ===== verification/Store_WAL.thy ===== *)
theory Store_WAL
  imports Types
begin

text \<open>
  \<^verbatim>\<open>internal/store/wal.go\<close>: the write-ahead log. The state is the path, the bytes of the open file
  (\<^term>\<open>None\<close> for a memory-only log), the last sequence number and the in-memory log. What the
  operating system answers is an argument: \<open>wal_env\<close> when opening (can the directory be made, the
  file be opened and read, what it holds) and \<open>wal_io\<close> when appending (did the write and the sync
  succeed, which bytes reached the file). The scanner splits lines as \<^verbatim>\<open>bufio.ScanLines\<close> does and
  fails on a line of 8 MiB or more.
\<close>

record WAL =
  wal_path :: string
  wal_f :: "string option"
  wal_seq :: u64
  wal_log :: "HistoryEntry list"

datatype wal_error = MkdirError | OpenError | ReadError | TooLong | JSONError | WriteError | SyncError

record wal_env =
  env_mkdir :: bool
  env_dir_is_dot :: bool
  env_open :: bool
  env_reopen :: bool
  env_contents :: string
  env_read :: bool

datatype wal_io = IO_ok | IO_write_fail string | IO_sync_fail

abbreviation nl :: char where "nl \<equiv> CHR 0x0A"
abbreviation cr :: char where "cr \<equiv> CHR 0x0D"

section \<open>The JSON lines\<close>

definition json_of_HistoryEntry :: "HistoryEntry \<Rightarrow> json" where
  "json_of_HistoryEntry e = JObj
     [(''seq'', json_of_u64 (heSeq e)), (''key'', JStr (heKey e)), (''value'', json_of_Value (heValue e))]"

definition entry_member :: "HistoryEntry stored \<Rightarrow> string \<times> json \<Rightarrow> HistoryEntry stored" where
  "entry_member st m =
     (let (h, e) = st; (k, j) = m in
      if names ''seq'' k then (let (n, e') = into_u64 j (heSeq h) in (h\<lparr>heSeq := n\<rparr>, e \<or> e'))
      else if names ''key'' k then (let (s, e') = into_string j (heKey h) in (h\<lparr>heKey := s\<rparr>, e \<or> e'))
      else if names ''value'' k then (let (v, e') = into_Value j (heValue h) in (h\<lparr>heValue := v\<rparr>, e \<or> e'))
      else (h, e))"

definition zero_entry :: HistoryEntry where
  "zero_entry = \<lparr>heSeq = 0, heKey = '''', heValue = zero_Value\<rparr>"

definition unmarshal_entry :: "string \<Rightarrow> HistoryEntry option" where
  "unmarshal_entry s =
     (case json_parse s of
        None \<Rightarrow> None
      | Some JNull \<Rightarrow> Some zero_entry
      | Some (JObj ms) \<Rightarrow> (let (h, e) = foldl entry_member (zero_entry, False) ms in if e then None else Some h)
      | Some _ \<Rightarrow> None)"

section \<open>Opening\<close>

definition trim_ws :: "char \<Rightarrow> bool" where
  "trim_ws c \<longleftrightarrow> c = CHR '' '' \<or> c = CHR 0x09 \<or> c = nl \<or> c = cr"

definition bytesTrimSpace :: "string \<Rightarrow> string" where
  "bytesTrimSpace b = rev (dropWhile trim_ws (rev (dropWhile trim_ws b)))"

function scan_lines :: "string \<Rightarrow> string list" where
  "scan_lines [] = []"
| "scan_lines (c # s) =
     takeWhile (\<lambda>x. x \<noteq> nl) (c # s) #
       (case dropWhile (\<lambda>x. x \<noteq> nl) (c # s) of [] \<Rightarrow> [] | _ # t \<Rightarrow> scan_lines t)"
  by pat_completeness auto
termination
proof (relation "measure length")
  fix c :: char and s x21 t
  assume "dropWhile (\<lambda>x. x \<noteq> nl) (c # s) = x21 # t"
  then have "length (x21 # t) \<le> length (c # s)" by (metis length_dropWhile_le)
  then show "(t, c # s) \<in> measure length" by simp
qed simp

definition drop_cr :: "string \<Rightarrow> string" where
  "drop_cr s = (if s \<noteq> [] \<and> last s = cr then butlast s else s)"

definition max_line :: nat where
  "max_line = 8 * 1024 * 1024"

fun load_loop :: "string list \<Rightarrow> HistoryEntry list \<Rightarrow> u64 \<Rightarrow> wal_error + HistoryEntry list \<times> u64" where
  "load_loop [] log seq = Inr (log, seq)"
| "load_loop (raw # ls) log seq =
     (if max_line \<le> length raw then Inl TooLong
      else if length (bytesTrimSpace (drop_cr raw)) = 0 then load_loop ls log seq
      else
        (case unmarshal_entry (drop_cr raw) of
           None \<Rightarrow> Inl JSONError
         | Some e \<Rightarrow> load_loop ls (log @ [e]) (if heSeq e > seq then heSeq e else seq)))"

definition load :: "WAL \<Rightarrow> wal_env \<Rightarrow> wal_error + WAL" where
  "load w env =
     (if wal_f w = None then Inr w
      else if \<not> env_reopen env then Inl ReadError
      else
        (case load_loop (scan_lines (env_contents env)) (wal_log w) (wal_seq w) of
           Inl e \<Rightarrow> Inl e
         | Inr (log, seq) \<Rightarrow> if env_read env then Inr (w\<lparr>wal_log := log, wal_seq := seq\<rparr>) else Inl ReadError))"

definition OpenWAL :: "string \<Rightarrow> wal_env \<Rightarrow> wal_error + WAL" where
  "OpenWAL path env =
     (if path = '''' then Inr \<lparr>wal_path = '''', wal_f = None, wal_seq = 0, wal_log = []\<rparr>
      else if \<not> env_mkdir env \<and> \<not> env_dir_is_dot env then Inl MkdirError
      else if \<not> env_open env then Inl OpenError
      else load \<lparr>wal_path = path, wal_f = Some (env_contents env), wal_seq = 0, wal_log = []\<rparr> env)"

section \<open>Appending and reading\<close>

definition Append :: "WAL \<Rightarrow> wal_io \<Rightarrow> string \<Rightarrow> Value \<Rightarrow> (HistoryEntry \<times> wal_error option) \<times> WAL" where
  "Append w io key v =
     (let w = w\<lparr>wal_seq := wal_seq w + 1\<rparr>;
          e = \<lparr>heSeq = wal_seq w, heKey = key, heValue = Clone v\<rparr>;
          w = w\<lparr>wal_log := wal_log w @ [e]\<rparr>
      in case wal_f w of
           None \<Rightarrow> ((e, None), w)
         | Some c \<Rightarrow>
             (let line = json_print (json_of_HistoryEntry e) @ [nl] in
              case io of
                IO_write_fail part \<Rightarrow> ((e, Some WriteError), w\<lparr>wal_f := Some (c @ part)\<rparr>)
              | IO_sync_fail \<Rightarrow> ((e, Some SyncError), w\<lparr>wal_f := Some (c @ line)\<rparr>)
              | IO_ok \<Rightarrow> ((e, None), w\<lparr>wal_f := Some (c @ line)\<rparr>)))"

definition History :: "WAL \<Rightarrow> string \<Rightarrow> HistoryEntry list" where
  "History w key = filter (\<lambda>e. heKey e = key) (wal_log w)"

definition All :: "WAL \<Rightarrow> HistoryEntry list" where
  "All w = wal_log w"

definition Replay :: "WAL \<Rightarrow> HistoryEntry list" where
  "Replay w = All w"

text \<open>Closing the file: \<open>answer\<close> is what the operating system says.\<close>

definition WAL_Close :: "wal_error option \<Rightarrow> WAL \<Rightarrow> wal_error option" where
  "WAL_Close answer w = (if wal_f w \<noteq> None then answer else None)"

definition Path :: "WAL \<Rightarrow> string" where
  "Path w = wal_path w"

section \<open>Lines\<close>

lemma scan_lines_line:
  "nl \<notin> set l \<Longrightarrow> scan_lines (l @ nl # r) = l # scan_lines r"
proof -
  assume "nl \<notin> set l"
  then have "takeWhile (\<lambda>x. x \<noteq> nl) (l @ nl # r) = l" "dropWhile (\<lambda>x. x \<noteq> nl) (l @ nl # r) = nl # r"
    by (simp_all add: takeWhile_sep dropWhile_sep)
  then show ?thesis by (cases "l @ nl # r") simp_all
qed

lemma scan_lines_last: "nl \<notin> set l \<Longrightarrow> l \<noteq> [] \<Longrightarrow> scan_lines l = [l]"
proof (cases l)
  case (Cons c s)
  assume "nl \<notin> set l"
  then have "takeWhile (\<lambda>x. x \<noteq> nl) l = l" "dropWhile (\<lambda>x. x \<noteq> nl) l = []"
    by (auto simp: takeWhile_eq_all_conv dropWhile_eq_Nil_conv)
  then show ?thesis using Cons by simp
qed simp

text \<open>A file that ends with a line break, or is empty.\<close>

definition whole_lines :: "string \<Rightarrow> bool" where
  "whole_lines c \<longleftrightarrow> c = [] \<or> last c = nl"

lemma first_line:
  assumes "nl \<in> set s"
  obtains l t where "s = l @ nl # t" "nl \<notin> set l" "dropWhile (\<lambda>x. x \<noteq> nl) s = nl # t"
proof -
  obtain l t where s: "s = l @ nl # t" "nl \<notin> set l" using split_list_first [OF assms] by blast
  moreover have "dropWhile (\<lambda>x. x \<noteq> nl) s = nl # t" unfolding s(1) using s(2) by (rule dropWhile_sep)
  ultimately show thesis by (rule that)
qed

lemma scan_lines_append:
  "whole_lines c \<Longrightarrow> scan_lines (c @ d) = scan_lines c @ scan_lines d"
proof (induction c rule: scan_lines.induct)
  case (2 a s)
  have "last (a # s) = nl" using "2.prems" by (simp add: whole_lines_def)
  then have "nl \<in> set (a # s)" using last_in_set by (metis list.distinct(1))
  then obtain l t where t: "a # s = l @ nl # t" "nl \<notin> set l" "dropWhile (\<lambda>x. x \<noteq> nl) (a # s) = nl # t"
    by (rule first_line)
  have "last (a # s) = last (nl # t)" unfolding t(1) by simp
  then have "whole_lines t" using \<open>last (a # s) = nl\<close> by (auto simp: whole_lines_def split: if_splits)
  then have IH: "scan_lines (t @ d) = scan_lines t @ scan_lines d" using "2.IH" t(3) by blast
  have "scan_lines ((a # s) @ d) = l # scan_lines (t @ d)"
    unfolding t(1) using scan_lines_line [OF t(2), of "t @ d"] by simp
  moreover have "scan_lines (a # s) = l # scan_lines t"
    unfolding t(1) by (rule scan_lines_line [OF t(2)])
  ultimately show ?case using IH by simp
qed simp

lemma load_loop_append:
  "load_loop (ls @ ms) log seq =
    (case load_loop ls log seq of Inl e \<Rightarrow> Inl e | Inr (log', seq') \<Rightarrow> load_loop ms log' seq')"
  by (induction ls log seq rule: load_loop.induct) (auto split: option.splits)

section \<open>Round trip of an entry\<close>

definition wire_entry :: "HistoryEntry \<Rightarrow> bool" where
  "wire_entry e \<longleftrightarrow> valid_utf8 (heKey e) \<and> wire_value (heValue e)"

lemma entry_field_names [simp]:
  "names ''seq'' ''seq''" "\<not> names ''seq'' ''key''" "\<not> names ''seq'' ''value''" "names ''key'' ''key''"
  "\<not> names ''key'' ''value''" "names ''value'' ''value''"
  "valid_utf8 ''seq''" "valid_utf8 ''key''" "valid_utf8 ''value''"
  by (simp_all add: names_def in_range_def byte_def)

lemma wf_json_entry: "wire_entry e \<Longrightarrow> wf_json (json_of_HistoryEntry e)"
  by (simp add: wire_entry_def json_of_HistoryEntry_def wf_json_Value)

lemma nests_entry: "2 < d \<Longrightarrow> nests d (json_of_HistoryEntry e)"
  by (simp add: json_of_HistoryEntry_def)

lemma unmarshal_print_entry: "wire_entry e \<Longrightarrow> unmarshal_entry (json_print (json_of_HistoryEntry e)) = Some e"
  by (simp add: unmarshal_entry_def json_parse_print wf_json_entry nests_entry)
    (simp add: json_of_HistoryEntry_def entry_member_def zero_entry_def into_simps into_Value_json wire_entry_def)

interpretation entry_codec: codec "\<lambda>e. json_print (json_of_HistoryEntry e)" unmarshal_entry wire_entry
  by unfold_locales (rule unmarshal_print_entry)

lemma entry_line:
  assumes "wire_entry e"
  defines "l \<equiv> json_print (json_of_HistoryEntry e)"
  shows "nl \<notin> set l" "l \<noteq> []" "drop_cr l = l" "bytesTrimSpace l \<noteq> []"
proof -
  have p: "printable l" unfolding l_def by (rule printable_json(1) [OF wf_json_entry [OF assms(1)]])
  show "nl \<notin> set l" using printable_no_newline [OF p] byte_special(5) by blast
  obtain t where t: "l = CHR ''{'' # t" by (simp add: l_def json_of_HistoryEntry_def)
  then show ne: "l \<noteq> []" by simp
  have "last l \<noteq> cr" using printable_no_newline [OF p, of "last l"] ne byte_special(6) by auto
  then show "drop_cr l = l" by (simp add: drop_cr_def)
  have "dropWhile trim_ws l = l" by (simp add: t trim_ws_def)
  moreover have "dropWhile trim_ws (rev l) \<noteq> []"
    by (simp add: dropWhile_eq_Nil_conv t trim_ws_def)
  ultimately show "bytesTrimSpace l \<noteq> []" by (simp add: bytesTrimSpace_def)
qed

lemma entry_cut:
  assumes "wire_entry e" "json_print (json_of_HistoryEntry e) = p @ q" "q \<noteq> []"
  shows "unmarshal_entry p = None"
proof -
  obtain ms where ms: "json_of_HistoryEntry e = JObj ms" by (simp add: json_of_HistoryEntry_def)
  have "json_parse p = None"
    by (rule json_parse_cut [OF _ _ assms(3)]) (use wf_json_entry [OF assms(1)] assms(2) in \<open>simp_all only: ms\<close>)
  then show ?thesis by (simp add: unmarshal_entry_def)
qed

lemma entry_piece:
  assumes "wire_entry e" "json_print (json_of_HistoryEntry e) = p @ q" "p \<noteq> []"
  shows "nl \<notin> set p" "drop_cr p = p" "bytesTrimSpace p \<noteq> []"
proof -
  let ?l = "json_print (json_of_HistoryEntry e)"
  have pr: "printable ?l" by (rule printable_json(1) [OF wf_json_entry [OF assms(1)]])
  have c: "c \<noteq> nl \<and> c \<noteq> cr" if "c \<in> set p" for c
    using printable_no_newline [OF pr, of c] that byte_special(5,6) by (auto simp: assms(2))
  then show "nl \<notin> set p" by blast
  show "drop_cr p = p" using c [of "last p"] assms(3) by (simp add: drop_cr_def)
  obtain t where t: "p = CHR ''{'' # t" using assms(2,3) by (cases p) (auto simp: json_of_HistoryEntry_def)
  then show "bytesTrimSpace p \<noteq> []" by (simp add: bytesTrimSpace_def dropWhile_eq_Nil_conv trim_ws_def)
qed

text \<open>The log in memory and the file agree: loading the file gives the log.\<close>

definition wal_synced :: "WAL \<Rightarrow> bool" where
  "wal_synced w \<longleftrightarrow> (\<exists>c. wal_f w = Some c \<and> whole_lines c \<and>
     load_loop (scan_lines c) [] 0 = Inr (wal_log w, wal_seq w))"

lemma whole_lines_append: "whole_lines (c @ l @ [nl])"
  by (simp add: whole_lines_def)

lemma Append_synced:
  assumes "wal_synced w" "wal_seq w + 1 \<noteq> 0" "valid_utf8 key" "wire_value (Clone v)"
    and "length (json_print (json_of_HistoryEntry (fst (fst (Append w IO_ok key v))))) < max_line"
  shows "wal_synced (snd (Append w IO_ok key v))" "snd (fst (Append w IO_ok key v)) = None"
proof -
  obtain c where c: "wal_f w = Some c" "whole_lines c" "load_loop (scan_lines c) [] 0 = Inr (wal_log w, wal_seq w)"
    using assms(1) by (auto simp: wal_synced_def)
  define e where "e = \<lparr>heSeq = wal_seq w + 1, heKey = key, heValue = Clone v\<rparr>"
  let ?l = "json_print (json_of_HistoryEntry e)"
  have A: "Append w IO_ok key v = ((e, None), w\<lparr>wal_seq := wal_seq w + 1, wal_log := wal_log w @ [e], wal_f := Some (c @ ?l @ [nl])\<rparr>)"
    by (simp add: Append_def Let_def c(1) e_def)
  have we: "wire_entry e" using assms(3,4) by (simp add: wire_entry_def e_def)
  note l = entry_line [OF we]
  have gt: "heSeq e > wal_seq w" using word_less_succ [OF assms(2)] by (simp add: e_def)
  have "scan_lines (c @ ?l @ [nl]) = scan_lines c @ [?l]"
    using scan_lines_append [OF c(2), of "?l @ [nl]"] scan_lines_line [OF l(1), of "[]"] by simp
  then have "load_loop (scan_lines (c @ ?l @ [nl])) [] 0 = Inr (wal_log w @ [e], wal_seq w + 1)"
    using assms(5) A l gt unmarshal_print_entry [OF we] by (simp add: load_loop_append c(3)) (simp add: e_def)
  then show "wal_synced (snd (Append w IO_ok key v))" by (simp add: A wal_synced_def whole_lines_append)
  show "snd (fst (Append w IO_ok key v)) = None" by (simp add: A)
qed

section \<open>Sequences of appends\<close>

definition appends :: "WAL \<Rightarrow> (string \<times> Value) list \<Rightarrow> WAL" where
  "appends w kvs = foldl (\<lambda>w (k, v). snd (Append w IO_ok k v)) w kvs"

lemma Append_log:
  "wal_log (snd (Append w io k v)) = wal_log w @ [\<lparr>heSeq = wal_seq w + 1, heKey = k, heValue = Clone v\<rparr>]"
  "wal_seq (snd (Append w io k v)) = wal_seq w + 1" "wal_path (snd (Append w io k v)) = wal_path w"
  "wal_f (snd (Append w io k v)) = None \<longleftrightarrow> wal_f w = None"
  by (simp_all add: Append_def Let_def split: option.splits wal_io.splits)

lemma appends_simps [simp]:
  "appends w [] = w" "appends w ((k, v) # kvs) = appends (snd (Append w IO_ok k v)) kvs"
  by (simp_all add: appends_def)

lemma appends_path [simp]: "wal_path (appends w kvs) = wal_path w"
  by (induction kvs arbitrary: w) (auto simp: Append_log)

lemma appends_log_mono: "set (wal_log w) \<subseteq> set (wal_log (appends w kvs))"
proof (induction kvs arbitrary: w)
  case (Cons kv kvs)
  obtain k v where kv: "kv = (k, v)" by (cases kv)
  show ?case using Cons [of "snd (Append w IO_ok k v)"] by (auto simp: kv Append_log)
qed simp

lemma appends_entries:
  "map (\<lambda>e. (heKey e, heValue e)) (wal_log (appends w kvs)) =
    map (\<lambda>e. (heKey e, heValue e)) (wal_log w) @ map (\<lambda>(k, v). (k, Clone v)) kvs"
  by (induction kvs arbitrary: w) (auto simp: Append_log)

definition line_of :: "HistoryEntry \<Rightarrow> string" where
  "line_of e = json_print (json_of_HistoryEntry e)"

lemma word_succ_nonzero: "unat n + 1 < 2 ^ LENGTH('a) \<Longrightarrow> unat (n + 1 :: 'a::len word) = unat n + 1 \<and> n + 1 \<noteq> 0"
proof -
  assume "unat n + 1 < 2 ^ LENGTH('a)"
  then have "unat (n + 1) = unat n + 1" using unat_add_lem [of n 1] by simp
  then show ?thesis by (metis add_is_0 one_neq_zero unat_0)
qed

lemma appends_synced:
  assumes "wal_synced w" "unat (wal_seq w) + length kvs < 2 ^ 64"
    and "\<forall>(k, v) \<in> set kvs. valid_utf8 k \<and> wire_value (Clone v)"
    and "\<forall>e \<in> set (wal_log (appends w kvs)). length (line_of e) < max_line"
  shows "wal_synced (appends w kvs)"
  using assms
proof (induction kvs arbitrary: w)
  case (Cons kv kvs)
  obtain k v where kv: "kv = (k, v)" by (cases kv)
  let ?w = "snd (Append w IO_ok k v)"
  have n: "unat (wal_seq w + 1) = unat (wal_seq w) + 1" "wal_seq w + 1 \<noteq> 0"
    using word_succ_nonzero [of "wal_seq w"] Cons.prems(2) by auto
  have "fst (fst (Append w IO_ok k v)) \<in> set (wal_log ?w)"
    by (simp add: Append_def Let_def split: option.splits)
  then have "fst (fst (Append w IO_ok k v)) \<in> set (wal_log (appends ?w kvs))" using appends_log_mono by blast
  then have "length (line_of (fst (fst (Append w IO_ok k v)))) < max_line" using Cons.prems(4) by (simp add: kv)
  then have "wal_synced ?w"
    using Append_synced(1) [OF Cons.prems(1) n(2)] Cons.prems(3) by (auto simp: kv line_of_def)
  then show ?case using Cons.IH [of ?w] Cons.prems n by (simp add: kv Append_log)
qed simp

lemma OpenWAL_synced:
  assumes "wal_synced w" "wal_path w \<noteq> ''''"
    and "env_mkdir env \<or> env_dir_is_dot env" "env_open env" "env_reopen env" "env_read env"
  shows "OpenWAL (wal_path w) (env\<lparr>env_contents := the (wal_f w)\<rparr>) = Inr w"
  using assms by (auto simp: OpenWAL_def load_def wal_synced_def)

section \<open>Properties\<close>

text \<open>C20. Durability: appending any sequence of writes to a log file, with every write and sync
  succeeding, leaves a file that \<^verbatim>\<open>OpenWAL\<close> reads back into exactly the same log and sequence
  number, with one entry per write, in order; provided the sequence number does not wrap and every line is
  shorter than the scanner's 8 MiB.\<close>

theorem wal_reopen:
  assumes "OpenWAL path env = Inr w" "path \<noteq> ''''" "env_contents env = ''''"
    and "length kvs < 2 ^ 64" "\<forall>(k, v) \<in> set kvs. valid_utf8 k \<and> wire_value (Clone v)"
    and "\<forall>e \<in> set (wal_log (appends w kvs)). length (json_print (json_of_HistoryEntry e)) < max_line"
  shows "OpenWAL path (env\<lparr>env_contents := the (wal_f (appends w kvs))\<rparr>) = Inr (appends w kvs) \<and>
    map (\<lambda>e. (heKey e, heValue e)) (Replay (appends w kvs)) = map (\<lambda>(k, v). (k, Clone v)) kvs"
proof -
  have env: "env_mkdir env \<or> env_dir_is_dot env" "env_open env" "env_reopen env" "env_read env"
    and w: "w = \<lparr>wal_path = path, wal_f = Some [], wal_seq = 0, wal_log = []\<rparr>"
    using assms(1-3) by (auto simp: OpenWAL_def load_def split: if_splits)
  have "wal_synced w" by (simp add: w wal_synced_def whole_lines_def)
  then have "wal_synced (appends w kvs)"
    using assms(4-6) by (intro appends_synced) (simp_all add: w line_of_def)
  then show ?thesis
    using OpenWAL_synced [OF _ _ env, of "appends w kvs"] assms(2) appends_entries [of w kvs]
    by (simp add: w Replay_def All_def)
qed

definition sample_env :: wal_env where
  "sample_env = \<lparr>env_mkdir = True, env_dir_is_dot = False, env_open = True, env_reopen = True,
     env_contents = '''', env_read = True\<rparr>"

definition sample_value :: Value where
  "sample_value = \<lparr>Data = Some ''pro'', Version = \<lparr>Lamport = 1, NodeID = ''A''\<rparr>, Policy = 0,
     Tombstone = False, CRDT = None\<rparr>"

definition sample_wal :: WAL where
  "sample_wal = \<lparr>wal_path = ''wal.log'', wal_f = Some [], wal_seq = 0, wal_log = []\<rparr>"

lemma open_sample: "OpenWAL ''wal.log'' sample_env = Inr sample_wal"
  by (simp add: OpenWAL_def load_def sample_env_def sample_wal_def)

lemma sample_wire: "wire_value sample_value" "Clone sample_value = sample_value"
  by (simp_all add: sample_value_def wire_value_def byte_def Clone_def')

lemma sample_line:
  "length (json_print (json_of_HistoryEntry \<lparr>heSeq = 1, heKey = ''k'', heValue = sample_value\<rparr>)) < max_line"
proof -
  have "length (json_print (json_of_HistoryEntry \<lparr>heSeq = 1, heKey = ''k'', heValue = sample_value\<rparr>)) < 200"
    by code_simp
  then show ?thesis by (simp add: max_line_def)
qed

theorem wal_reopen_witness:
  "OpenWAL ''wal.log'' (sample_env\<lparr>env_contents := the (wal_f (appends sample_wal [(''k'', sample_value)]))\<rparr>) =
     Inr (appends sample_wal [(''k'', sample_value)])"
proof -
  have "\<forall>e \<in> set (wal_log (appends sample_wal [(''k'', sample_value)])).
      length (json_print (json_of_HistoryEntry e)) < max_line"
    using sample_line by (simp add: Append_log sample_wal_def sample_wire)
  then show ?thesis
    using wal_reopen [OF open_sample, of "[(''k'', sample_value)]"]
    by (simp add: sample_env_def sample_wire byte_def)
qed

section \<open>Files that do not open again\<close>

lemma OpenWAL_bad_line:
  assumes "wal_synced w" "wal_path w \<noteq> ''''" "env_contents env = the (wal_f w) @ l"
    and "env_mkdir env \<or> env_dir_is_dot env" "env_open env" "env_reopen env"
    and "load_loop (scan_lines l) (wal_log w) (wal_seq w) = Inl e"
  shows "OpenWAL (wal_path w) env = Inl e"
  using assms by (auto simp: OpenWAL_def load_def wal_synced_def scan_lines_append load_loop_append)

lemma length_quote_ascii: "\<forall>c \<in> set s. 32 \<le> byte c \<and> byte c < 128 \<Longrightarrow> length s \<le> length (quote_body s)"
  by (induction s) (auto simp: esc_ascii_def Let_def)

lemma length_line_key:
  "\<forall>c \<in> set (heKey e). 32 \<le> byte c \<and> byte c < 128 \<Longrightarrow>
    length (heKey e) \<le> length (json_print (json_of_HistoryEntry e))"
  using length_quote_ascii [of "heKey e"] by (simp add: json_of_HistoryEntry_def quote_def)

lemma ascii_valid_utf8: "\<forall>c \<in> set s. byte c < 128 \<Longrightarrow> valid_utf8 s"
  by (induction s) auto

text \<open>C38. A torn write. The write of an entry fails after some first part of its line has reached the file: \<^verbatim>\<open>Append\<close> reports the error and the
  entry stays in the log in memory. What the next start finds depends on the part. When nothing was written the log is the one
  before; when everything but the line's end was written the entry is there; and when the line was cut anywhere else,
  \<^verbatim>\<open>OpenWAL\<close> rejects the whole file instead of dropping the unfinished line, so the node cannot start again from its log.
  (The sequence number does not wrap and the line is shorter than the scanner's 8 MiB.)\<close>

theorem wal_torn_write:
  fixes key :: string and v :: Value and part rest :: string and w :: WAL
  assumes "wal_synced w" "wal_path w \<noteq> ''''" "wal_seq w + 1 \<noteq> 0" "valid_utf8 key" "wire_value (Clone v)"
    and env: "env_mkdir env \<or> env_dir_is_dot env" "env_open env" "env_reopen env" "env_read env"
    and e: "e = \<lparr>heSeq = wal_seq w + 1, heKey = key, heValue = Clone v\<rparr>"
    and line: "json_print (json_of_HistoryEntry e) = part @ rest" "length (part @ rest) < max_line"
  defines "w' \<equiv> snd (Append w (IO_write_fail part) key v)"
  shows "snd (fst (Append w (IO_write_fail part) key v)) = Some WriteError \<and>
    History w' key = History w key @ [e] \<and>
    OpenWAL (wal_path w) (env\<lparr>env_contents := the (wal_f w')\<rparr>) =
      (if part = '''' then Inr w else if rest = '''' then Inr w' else Inl JSONError)"
proof -
  obtain c where c: "wal_f w = Some c" "whole_lines c" "load_loop (scan_lines c) [] 0 = Inr (wal_log w, wal_seq w)"
    using assms(1) by (auto simp: wal_synced_def)
  have w': "w' = w\<lparr>wal_seq := wal_seq w + 1, wal_log := wal_log w @ [e], wal_f := Some (c @ part)\<rparr>"
    by (simp add: w'_def Append_def Let_def c e)
  have we: "wire_entry e" using assms(4,5) by (simp add: wire_entry_def e)
  have gt: "heSeq e > wal_seq w" using word_less_succ [OF assms(3)] by (simp add: e)
  have "load_loop (scan_lines (c @ part)) [] 0 =
    (if part = '''' then Inr (wal_log w, wal_seq w) else if rest = '''' then Inr (wal_log w @ [e], wal_seq w + 1) else Inl JSONError)"
  proof (cases "part = []")
    case False
    note p = entry_piece [OF we line(1) False]
    have "unmarshal_entry part = (if rest = [] then Some e else None)"
      using entry_cut [OF we line(1)] unmarshal_print_entry [OF we] line(1) by auto
    moreover have "scan_lines (c @ part) = scan_lines c @ [part]"
      using scan_lines_append [OF c(2)] scan_lines_last [OF p(1) False] by simp
    ultimately show ?thesis
      using p(2,3) line(2) gt False by (simp add: load_loop_append c(3)) (simp add: e)
  qed (simp add: c(3))
  moreover have "snd (fst (Append w (IO_write_fail part) key v)) = Some WriteError" by (simp add: Append_def Let_def c)
  ultimately show ?thesis using assms(2) env c(1) by (auto simp: w' OpenWAL_def load_def History_def e)
qed

theorem wal_torn_write_witness:
  "OpenWAL ''wal.log'' (sample_env\<lparr>env_contents := the (wal_f (snd (Append sample_wal
      (IO_write_fail (take 20 (json_print (json_of_HistoryEntry \<lparr>heSeq = 1, heKey = ''k'', heValue = sample_value\<rparr>))))
      ''k'' sample_value)))\<rparr>) = Inl JSONError"
proof -
  let ?e = "\<lparr>heSeq = 1, heKey = ''k'', heValue = sample_value\<rparr>"
  let ?l = "json_print (json_of_HistoryEntry ?e)"
  have "wal_synced sample_wal" by (simp add: sample_wal_def wal_synced_def whole_lines_def)
  moreover have "take 20 ?l \<noteq> []" "drop 20 ?l \<noteq> []" by code_simp+
  ultimately show ?thesis
    using wal_torn_write [of sample_wal "''k''" sample_value sample_env ?e "take 20 ?l" "drop 20 ?l"] sample_line
    by (simp add: sample_env_def sample_wal_def sample_wire byte_def del: take_eq_Nil drop_eq_Nil)
qed

text \<open>A long entry is accepted but never read back: with a key of 8 MiB of printable ASCII (nothing
  limits the request body) \<^verbatim>\<open>Append\<close> succeeds, and opening the file again fails because the
  scanner's buffer is full.\<close>

theorem wal_line_too_long:
  fixes key :: string and v :: Value and w :: WAL
  assumes "wal_synced w" "wal_path w \<noteq> ''''"
    and "env_mkdir env \<or> env_dir_is_dot env" "env_open env" "env_reopen env"
    and "\<forall>c \<in> set key. 32 \<le> byte c \<and> byte c < 128" "max_line \<le> length key" "wire_value (Clone v)"
  defines "w' \<equiv> snd (Append w IO_ok key v)"
  shows "snd (fst (Append w IO_ok key v)) = None \<and>
    OpenWAL (wal_path w) (env\<lparr>env_contents := the (wal_f w')\<rparr>) = Inl TooLong"
proof -
  obtain c where c: "wal_f w = Some c" using assms(1) by (auto simp: wal_synced_def)
  define e where "e = \<lparr>heSeq = wal_seq w + 1, heKey = key, heValue = Clone v\<rparr>"
  let ?l = "json_print (json_of_HistoryEntry e)"
  have A: "Append w IO_ok key v = ((e, None), w\<lparr>wal_seq := wal_seq w + 1, wal_log := wal_log w @ [e], wal_f := Some (c @ ?l @ [nl])\<rparr>)"
    by (simp add: Append_def Let_def c e_def)
  have we: "wire_entry e" using assms(6,8) by (simp add: wire_entry_def e_def ascii_valid_utf8)
  have "max_line \<le> length ?l" using length_line_key [of e] assms(6,7) by (simp add: e_def)
  then have "load_loop (scan_lines (?l @ [nl])) (wal_log w) (wal_seq w) = Inl TooLong"
    using scan_lines_line [OF entry_line(1) [OF we], of "[]"] by simp
  then have "OpenWAL (wal_path w) (env\<lparr>env_contents := the (wal_f w')\<rparr>) = Inl TooLong"
    using assms(1-5) by (intro OpenWAL_bad_line) (simp_all add: w'_def A c)
  then show ?thesis by (simp add: A)
qed

theorem wal_line_too_long_witness:
  "OpenWAL ''wal.log'' (sample_env\<lparr>env_contents :=
     the (wal_f (snd (Append sample_wal IO_ok (replicate max_line CHR ''a'') sample_value)))\<rparr>) = Inl TooLong"
proof -
  have "wal_synced sample_wal" by (simp add: sample_wal_def wal_synced_def whole_lines_def)
  then show ?thesis
    using wal_line_too_long [of sample_wal sample_env "replicate max_line CHR ''a''" sample_value]
    by (simp add: sample_env_def sample_wal_def sample_wire byte_def)
qed

end
