(* ===== verification/Replica.thy ===== *)
theory Replica
  imports Resolve_Policy Store_KV Store_WAL
begin

text \<open>
  \<^verbatim>\<open>internal/node/replica.go\<close>: one node's copy of the key space with its log and its clock.
  \<open>Replica_Apply\<close> takes what the operating system answers to the log write as an argument; the
  Go error it returns is the second component of its result. The lemmas show that a replica is
  the merge of what it was sent: in any order, however often, and again after a restart from its log.
\<close>

record Replica =
  repID :: string
  repKV :: KV
  repWAL :: "WAL option"
  repClock :: Clock
  repReads :: bool

definition mergeIncoming :: "Replica \<Rightarrow> string \<Rightarrow> Value \<Rightarrow> Value" where
  "mergeIncoming r key incoming =
     (let (cur, ok) = KV_Get (repKV r) key in
      if \<not> ok then Clone incoming else Resolve cur incoming)"

definition replay_entry :: "Replica \<Rightarrow> HistoryEntry \<Rightarrow> Replica" where
  "replay_entry r e =
     (let merged = mergeIncoming r (heKey e) (heValue e);
          r = r\<lparr>repKV := snd (KV_Apply (repKV r) (heKey e) merged)\<rparr>
      in r\<lparr>repClock := Observe (repClock r) (Lamport (Version (heValue e)))\<rparr>)"

definition NewReplica :: "string \<Rightarrow> WAL option \<Rightarrow> Replica" where
  "NewReplica i wal =
     (let r = \<lparr>repID = i, repKV = NewKV, repWAL = wal, repClock = \<lparr>clock_t = 0\<rparr>, repReads = True\<rparr> in
      case wal of
        None \<Rightarrow> r
      | Some w \<Rightarrow> foldl replay_entry r (Replay w))"

definition Replica_Apply ::
  "Replica \<Rightarrow> wal_io \<Rightarrow> string \<Rightarrow> Value \<Rightarrow> (Value \<times> wal_error option) \<times> Replica" where
  "Replica_Apply r io key incoming =
     (let r = r\<lparr>repClock := Observe (repClock r) (Lamport (Version incoming))\<rparr>;
          merged = mergeIncoming r key incoming;
          (cur, ok) = KV_Get (repKV r) key
      in if ok \<and> Value_Equal cur merged then ((cur, None), r)
         else
           (let (err, r) =
              (case repWAL r of
                 None \<Rightarrow> (None, r)
               | Some w \<Rightarrow> (let ((_, err), w) = Append w io key incoming in (err, r\<lparr>repWAL := Some w\<rparr>)))
            in case err of
                 Some e \<Rightarrow> ((merged, Some e), r)
               | None \<Rightarrow>
                   (let (v, kv) = KV_Apply (repKV r) key merged in ((v, None), r\<lparr>repKV := kv\<rparr>))))"

definition Replica_Get :: "Replica \<Rightarrow> string \<Rightarrow> Value \<times> bool" where
  "Replica_Get r key = KV_Get (repKV r) key"

definition Replica_Snapshot :: "Replica \<Rightarrow> (string, Value) fmap" where
  "Replica_Snapshot r = KV_Snapshot (repKV r)"

definition Replica_History :: "Replica \<Rightarrow> string \<Rightarrow> HistoryEntry list" where
  "Replica_History r key = (case repWAL r of None \<Rightarrow> [] | Some w \<Rightarrow> History w key)"

definition SetReadsEnabled :: "Replica \<Rightarrow> bool \<Rightarrow> Replica" where
  "SetReadsEnabled r on = r\<lparr>repReads := on\<rparr>"

definition ReadsEnabled :: "Replica \<Rightarrow> bool" where
  "ReadsEnabled r = repReads r"

definition Replica_Inject :: "Replica \<Rightarrow> string \<Rightarrow> Value \<Rightarrow> Replica" where
  "Replica_Inject r key v = r\<lparr>repKV := KV_Inject (repKV r) key v\<rparr>"

section \<open>Merging does not see the difference between nil and empty\<close>

lemma decode_Clone [simp]: "decodeLWWReg (Clone v) = decodeLWWReg v" "decodeORSet (Clone v) = decodeORSet v"
  by (simp_all add: decodeLWWReg_def decodeORSet_def Let_def)

lemma Clone_Clone [simp]: "Clone (Clone v) = Clone v"
  by simp

lemma LWW_Clone [simp]: "LWW a (Clone b) = LWW a b" "LWW (Clone a) b = LWW a b"
  by (simp_all add: LWW_key)

lemma Resolve_Clone [simp]: "Resolve a (Clone b) = Resolve a b" "Resolve (Clone a) b = Resolve a b"
  by (simp_all add: Resolve_def Let_def MergeLWWReg_def MergeORSet_def)

lemma json_bytes_nonempty [simp]: "json_print (json_of_lwwReg r) \<noteq> []" "json_print (json_of_orSet s) \<noteq> []"
  by (simp_all add: json_of_lwwReg_def json_of_orSet_def)

section \<open>The value a key holds\<close>

definition held :: "Replica \<Rightarrow> string \<Rightarrow> Value option" where
  "held r k = fmlookup (kv_m (repKV r)) k"

lemma mergeIncoming_held:
  "mergeIncoming r k v = (case held r k of None \<Rightarrow> Clone v | Some c \<Rightarrow> Resolve c v)"
  by (simp add: mergeIncoming_def KV_Get_def held_def split: option.splits)

lemma canon_Some: "s \<noteq> [] \<Longrightarrow> canon_slice (Some s)"
  by (simp add: canon_slice_def)

lemma canon_encode [simp]: "canon_value (encodeLWWReg r)" "canon_value (encodeORSet s ver)"
  by (auto simp: canon_value_def encodeLWWReg_def encodeORSet_def json_of_strings_def intro!: canon_Some)

lemma canon_Resolve [simp]: "canon_value (Resolve a b)"
  by (simp add: Resolve_def Let_def LWW_key MergeLWWReg_def MergeORSet_def)

definition rep_ok :: "Replica \<Rightarrow> bool" where
  "rep_ok r \<longleftrightarrow> kv_canon (repKV r)"

lemma canon_merge [simp]: "canon_value (mergeIncoming r k v)"
  by (simp add: mergeIncoming_held split: option.splits)

lemma mergeIncoming_Clone [simp]: "mergeIncoming r k (Clone v) = mergeIncoming r k v"
  by (simp add: mergeIncoming_held split: option.splits)

lemma merge_clock [simp]: "mergeIncoming (r\<lparr>repClock := c\<rparr>) k v = mergeIncoming r k v"
  by (simp add: mergeIncoming_def)

lemma held_canon: "rep_ok r \<Longrightarrow> held r k = Some c \<Longrightarrow> canon_value c"
  by (auto simp: rep_ok_def kv_canon_def held_def dest: fmpred_lookup)

text \<open>A merge that changes nothing leaves everything but the clock; any other is logged and stored.\<close>

lemma Apply_noop:
  assumes "rep_ok r" "held r k = Some (mergeIncoming r k v)"
  shows "Replica_Apply r io k v =
    ((mergeIncoming r k v, None), r\<lparr>repClock := Observe (repClock r) (Lamport (Version v))\<rparr>)"
  using assms held_canon [OF assms]
  by (simp add: Replica_Apply_def KV_Get_def held_def Let_def)

lemma Apply_change:
  assumes "rep_ok r" "held r k \<noteq> Some (mergeIncoming r k v)"
  shows "Replica_Apply r IO_ok k v =
    ((mergeIncoming r k v, None),
     r\<lparr>repClock := Observe (repClock r) (Lamport (Version v)),
       repWAL := map_option (\<lambda>w. snd (Append w IO_ok k v)) (repWAL r),
       repKV := snd (KV_Apply (repKV r) k (mergeIncoming r k v))\<rparr>)"
proof -
  have "\<not> (\<exists>c. held r k = Some c \<and> Value_Equal c (mergeIncoming r k v))"
    using assms held_canon Value_Equal_iff canon_merge by metis
  then show ?thesis
    by (auto simp: Replica_Apply_def KV_Get_def held_def Let_def KV_Apply_def Append_def split: option.splits)
qed

lemma Apply_error:
  assumes "held r k \<noteq> Some (mergeIncoming r k v)" "rep_ok r" "repWAL r = Some w" "wal_f w = Some c" "io \<noteq> IO_ok"
  shows "snd (fst (Replica_Apply r io k v)) \<noteq> None \<and> repKV (snd (Replica_Apply r io k v)) = repKV r \<and>
    repWAL (snd (Replica_Apply r io k v)) = Some (snd (Append w io k v))"
proof -
  have "\<not> (\<exists>c. held r k = Some c \<and> Value_Equal c (mergeIncoming r k v))"
    using assms held_canon Value_Equal_iff canon_merge by metis
  then show ?thesis using assms(3-5)
    by (auto simp: Replica_Apply_def KV_Get_def held_def Let_def Append_def split: option.splits wal_io.splits)
qed

lemma Apply_held:
  assumes "rep_ok r"
  shows "held (snd (Replica_Apply r IO_ok k v)) = (held r)(k \<mapsto> mergeIncoming r k v)"
    and "rep_ok (snd (Replica_Apply r IO_ok k v))"
    and "fst (Replica_Apply r IO_ok k v) = (mergeIncoming r k v, None)"
    and "repID (snd (Replica_Apply r IO_ok k v)) = repID r" "repReads (snd (Replica_Apply r IO_ok k v)) = repReads r"
    and "repClock (snd (Replica_Apply r IO_ok k v)) = Observe (repClock r) (Lamport (Version v))"
  using assms
  by (cases "held r k = Some (mergeIncoming r k v)";
      auto simp: Apply_noop Apply_change held_def rep_ok_def KV_Apply_def Let_def kv_canon_def fun_eq_iff
        intro!: fmpred_upd)+

section \<open>Replay\<close>

lemma replay_entry_simps [simp]:
  "repID (replay_entry r e) = repID r" "repWAL (replay_entry r e) = repWAL r" "repReads (replay_entry r e) = repReads r"
  "repClock (replay_entry r e) = Observe (repClock r) (Lamport (Version (heValue e)))"
  "repKV (replay_entry r e) = snd (KV_Apply (repKV r) (heKey e) (mergeIncoming r (heKey e) (heValue e)))"
  by (simp_all add: replay_entry_def Let_def)

lemma replay_frame:
  "repID (foldl replay_entry r es) = repID r" "repWAL (foldl replay_entry r es) = repWAL r"
  "repReads (foldl replay_entry r es) = repReads r"
  by (induction es arbitrary: r) simp_all

lemma replay_wal:
  "foldl replay_entry (r\<lparr>repWAL := w\<rparr>) es = (foldl replay_entry r es)\<lparr>repWAL := w\<rparr>"
proof (induction es arbitrary: r)
  case (Cons e es)
  have "replay_entry (r\<lparr>repWAL := w\<rparr>) e = (replay_entry r e)\<lparr>repWAL := w\<rparr>"
    by (simp add: replay_entry_def Let_def mergeIncoming_def)
  with Cons show ?case by simp
qed simp

lemma rep_ok_New [simp]: "rep_ok (NewReplica i w)"
proof -
  have "rep_ok r \<Longrightarrow> rep_ok (foldl replay_entry r es)" for r es
    by (induction es arbitrary: r) (simp_all add: rep_ok_def)
  then show ?thesis by (simp add: NewReplica_def Let_def rep_ok_def split: option.splits)
qed

lemma NewReplica_simps [simp]: "repID (NewReplica i w) = i" "repWAL (NewReplica i w) = w" "repReads (NewReplica i w)"
  by (simp_all add: NewReplica_def Let_def replay_frame split: option.splits)

text \<open>Restarting on a log with one more entry is restarting and then replaying that entry.\<close>

lemma NewReplica_Append:
  "NewReplica i (Some (snd (Append w io k v))) =
    (replay_entry (NewReplica i (Some w)) \<lparr>heSeq = wal_seq w + 1, heKey = k, heValue = Clone v\<rparr>)
      \<lparr>repWAL := Some (snd (Append w io k v))\<rparr>"
proof -
  let ?r = "\<lambda>w. \<lparr>repID = i, repKV = NewKV, repWAL = Some w, repClock = \<lparr>clock_t = 0\<rparr>, repReads = True\<rparr>"
  have "?r (snd (Append w io k v)) = (?r w)\<lparr>repWAL := Some (snd (Append w io k v))\<rparr>" by simp
  then show ?thesis
    unfolding NewReplica_def Let_def option.case Replay_def All_def Append_log(1) foldl_append
    by (simp only: replay_wal foldl.simps)
      (simp add: replay_entry_def Let_def mergeIncoming_def)
qed

section \<open>Sequences of deliveries\<close>

definition applies :: "Replica \<Rightarrow> (string \<times> Value) list \<Rightarrow> Replica" where
  "applies r kvs = foldl (\<lambda>r (k, v). snd (Replica_Apply r IO_ok k v)) r kvs"

lemma applies_simps [simp]:
  "applies r [] = r" "applies r ((k, v) # kvs) = applies (snd (Replica_Apply r IO_ok k v)) kvs"
  "applies r (kvs @ kws) = applies (applies r kvs) kws"
  by (simp_all add: applies_def)

lemma applies_frame:
  "rep_ok r \<Longrightarrow> rep_ok (applies r kvs) \<and> repID (applies r kvs) = repID r \<and> repReads (applies r kvs) = repReads r"
proof (induction kvs arbitrary: r)
  case (Cons kv kvs)
  obtain k v where kv: "kv = (k, v)" by (cases kv)
  show ?case using Cons.IH [OF Apply_held(2) [OF Cons.prems]] Apply_held(4,5) [OF Cons.prems] by (simp add: kv)
qed simp

text \<open>The log holds a subsequence of the deliveries.\<close>

lemma applies_wal:
  "rep_ok r \<Longrightarrow> repWAL r = Some w \<Longrightarrow> \<exists>ls. set ls \<subseteq> set kvs \<and> length ls \<le> length kvs \<and> repWAL (applies r kvs) = Some (appends w ls)"
proof (induction kvs arbitrary: r w)
  case Nil
  then show ?case by (intro exI [of _ "[]"]) simp
next
  case (Cons kv kvs)
  obtain k v where kv: "kv = (k, v)" by (cases kv)
  let ?r = "snd (Replica_Apply r IO_ok k v)"
  have ok: "rep_ok ?r" by (rule Apply_held(2) [OF Cons.prems(1)])
  show ?case
  proof (cases "held r k = Some (mergeIncoming r k v)")
    case True
    then have "repWAL ?r = Some w" using Cons.prems by (simp add: Apply_noop)
    then obtain ls where "set ls \<subseteq> set kvs" "length ls \<le> length kvs" "repWAL (applies ?r kvs) = Some (appends w ls)"
      using Cons.IH [OF ok] by blast
    then show ?thesis by (intro exI [of _ ls]) (auto simp: kv)
  next
    case False
    then have "repWAL ?r = Some (snd (Append w IO_ok k v))" using Cons.prems by (simp add: Apply_change)
    then obtain ls where "set ls \<subseteq> set kvs" "length ls \<le> length kvs"
      "repWAL (applies ?r kvs) = Some (appends (snd (Append w IO_ok k v)) ls)"
      using Cons.IH [OF ok] by blast
    then show ?thesis by (intro exI [of _ "kv # ls"]) (auto simp: kv)
  qed
qed

text \<open>Restarting from the log rebuilds the store, whatever was delivered.\<close>

definition restart :: "Replica \<Rightarrow> Replica" where
  "restart r = NewReplica (repID r) (repWAL r)"

lemma KV_state: "mergeIncoming r k v = mergeIncoming r' k v" if "repKV r = repKV r'"
  by (simp add: mergeIncoming_def that)

lemma Apply_restart:
  assumes "rep_ok r" "repWAL r \<noteq> None" "repKV (restart r) = repKV r"
  shows "repKV (restart (snd (Replica_Apply r IO_ok k v))) = repKV (snd (Replica_Apply r IO_ok k v))"
proof (cases "held r k = Some (mergeIncoming r k v)")
  case True
  then show ?thesis using assms by (simp add: Apply_noop restart_def)
next
  case False
  obtain w where w: "repWAL r = Some w" using assms(2) by blast
  have "repKV (NewReplica (repID r) (Some w)) = repKV r" using assms(3) w by (simp add: restart_def)
  then show ?thesis
    using False assms(1) KV_state [of "NewReplica (repID r) (Some w)" r k v]
    by (simp add: Apply_change restart_def w NewReplica_Append)
qed

lemma applies_restart:
  assumes "rep_ok r" "repWAL r \<noteq> None" "repKV (restart r) = repKV r"
  shows "repKV (restart (applies r kvs)) = repKV (applies r kvs)"
  using assms
proof (induction kvs arbitrary: r)
  case (Cons kv kvs)
  obtain k v where kv: "kv = (k, v)" by (cases kv)
  let ?r = "snd (Replica_Apply r IO_ok k v)"
  have "repWAL ?r \<noteq> None"
    using Cons.prems by (cases "held r k = Some (mergeIncoming r k v)") (auto simp: Apply_noop Apply_change)
  then show ?case using Cons.IH [of ?r] Apply_restart [OF Cons.prems] Cons.prems(1) by (simp add: kv Apply_held)
qed simp

section \<open>Keys with one policy\<close>

text \<open>Every value held or delivered for a key is one the program makes under that key's policy.\<close>

definition typed :: "(string \<Rightarrow> Policy) \<Rightarrow> Replica \<Rightarrow> bool" where
  "typed pol r \<longleftrightarrow> rep_ok r \<and> (\<forall>k c. held r k = Some c \<longrightarrow> wf_pol (pol k) c)"

definition typed_writes :: "(string \<Rightarrow> Policy) \<Rightarrow> (string \<times> Value) list \<Rightarrow> bool" where
  "typed_writes pol kvs \<longleftrightarrow> (\<forall>(k, v) \<in> set kvs. wf_pol (pol k) v)"

lemma wf_mergeIncoming: "typed pol r \<Longrightarrow> wf_pol (pol k) v \<Longrightarrow> wf_pol (pol k) (mergeIncoming r k v)"
  by (auto simp: mergeIncoming_held typed_def intro: resolve.closed split: option.splits)

lemma typed_Apply: "typed pol r \<Longrightarrow> wf_pol (pol k) v \<Longrightarrow> typed pol (snd (Replica_Apply r IO_ok k v))"
  using wf_mergeIncoming [of pol r k v] by (auto simp: typed_def Apply_held)

lemma typed_applies: "typed pol r \<Longrightarrow> typed_writes pol kvs \<Longrightarrow> typed pol (applies r kvs)"
  by (induction kvs arbitrary: r) (auto simp: typed_writes_def typed_Apply)

lemma typed_New [simp]: "typed pol (NewReplica i None)"
  by (simp add: typed_def held_def) (simp add: NewReplica_def NewKV_def)

text \<open>What a key holds is the merge of what was held and everything delivered for it.\<close>

definition for_key :: "string \<Rightarrow> (string \<times> Value) list \<Rightarrow> Value list" where
  "for_key k kvs = map snd (filter (\<lambda>(k', _). k' = k) kvs)"

lemma for_key_simps [simp]:
  "for_key k [] = []" "for_key k ((k', v) # kvs) = (if k' = k then v # for_key k kvs else for_key k kvs)"
  by (simp_all add: for_key_def)

lemma set_for_key: "set (for_key k kvs) = {v. (k, v) \<in> set kvs}"
  by (force simp: for_key_def)

lemma typed_for_key: "typed_writes pol kvs \<Longrightarrow> v \<in> set (for_key k kvs) \<Longrightarrow> wf_pol (pol k) v"
  by (auto simp: set_for_key typed_writes_def)

lemma applies_held:
  "typed pol r \<Longrightarrow> typed_writes pol kvs \<Longrightarrow>
    held (applies r kvs) k =
      (case (held r k, for_key k kvs) of
         (Some c, vs) \<Rightarrow> Some (foldl Resolve c vs)
       | (None, []) \<Rightarrow> None
       | (None, v # vs) \<Rightarrow> Some (foldl Resolve v vs))"
proof (induction kvs arbitrary: r)
  case (Cons kv kvs)
  obtain k' v where kv: "kv = (k', v)" by (cases kv)
  have "typed pol (snd (Replica_Apply r IO_ok k' v))"
    using Cons.prems by (intro typed_Apply) (auto simp: typed_writes_def kv)
  then have "held (applies r (kv # kvs)) k =
    (case ((held r)(k' \<mapsto> mergeIncoming r k' v)) k of
       Some c \<Rightarrow> Some (foldl Resolve c (for_key k kvs))
     | None \<Rightarrow> (case for_key k kvs of [] \<Rightarrow> None | v # vs \<Rightarrow> Some (foldl Resolve v vs)))"
    using Cons.IH Cons.prems Apply_held(1) [of r k' v]
    by (simp add: kv typed_writes_def typed_def split: option.split)
  moreover have "Clone v = v" using Cons.prems(2) wf_pol_Clone by (auto simp: typed_writes_def kv)
  ultimately show ?case
    by (cases "k' = k"; cases "held r k") (simp_all add: kv mergeIncoming_held)
qed (simp split: option.splits)

lemma Resolve_below: "wf_pol p c \<Longrightarrow> wf_pol p v \<Longrightarrow> Resolve c v = c \<Longrightarrow> Version v \<le> Version c"
  using Resolve_version [of p c v] by (metis max.cobounded2)

lemma Lamport_mono: "(a :: Version) \<le> b \<Longrightarrow> Lamport a \<le> Lamport b"
  using version_key_le [of a b] by (auto simp: version_key_def less_eq_prod_def)

text \<open>The clock is not behind any version held.\<close>

definition clock_covers :: "Replica \<Rightarrow> bool" where
  "clock_covers r \<longleftrightarrow> (\<forall>k c. held r k = Some c \<longrightarrow> Lamport (Version c) \<le> clock_t (repClock r))"

lemma clock_t_Observe [simp]: "clock_t (Observe c n) = max (clock_t c) n"
  by (auto simp: Observe_def max_def)

lemma merge_version:
  assumes "typed pol r" "wf_pol (pol k) v"
  shows "Version (mergeIncoming r k v) = (case held r k of None \<Rightarrow> Version v | Some c \<Rightarrow> max (Version c) (Version v))"
  using assms Resolve_version [of "pol k" _ v] by (auto simp: mergeIncoming_held typed_def split: option.splits)

lemma clock_covers_Apply:
  assumes "typed pol r" "wf_pol (pol k) v" "clock_covers r"
  shows "clock_covers (snd (Replica_Apply r IO_ok k v))"
proof -
  have "Lamport (Version (mergeIncoming r k v)) \<le> max (clock_t (repClock r)) (Lamport (Version v))"
    using assms(3) merge_version [OF assms(1,2)]
    by (cases "held r k") (auto simp: clock_covers_def le_max_iff_disj max_def intro: order_trans)
  moreover have "rep_ok r" using assms(1) by (simp add: typed_def)
  ultimately show ?thesis
    using assms(3) by (auto simp: clock_covers_def Apply_held le_max_iff_disj)
qed

lemma Apply_noop_same:
  assumes "typed pol r" "wf_pol (pol k) v" "clock_covers r" "held r k = Some (mergeIncoming r k v)"
  shows "snd (Replica_Apply r io k v) = r"
proof -
  let ?c = "mergeIncoming r k v"
  have "Resolve ?c v = ?c" using mergeIncoming_held [of r k v] unfolding assms(4) by simp
  then have "Version v \<le> Version ?c" using Resolve_below wf_mergeIncoming [OF assms(1,2)] assms(2) by blast
  then have "Lamport (Version v) \<le> clock_t (repClock r)"
    using assms(3,4) Lamport_mono order_trans by (fastforce simp: clock_covers_def)
  then have "Observe (repClock r) (Lamport (Version v)) = repClock r" by (auto simp: Observe_def)
  moreover have "rep_ok r" using assms(1) by (simp add: typed_def)
  ultimately show ?thesis using Apply_noop [OF _ assms(4)] by simp
qed

lemma Apply_restart_all:
  assumes "typed pol r" "wf_pol (pol k) v" "clock_covers r" "repWAL r \<noteq> None" "restart r = r"
  shows "restart (snd (Replica_Apply r IO_ok k v)) = snd (Replica_Apply r IO_ok k v)"
proof (cases "held r k = Some (mergeIncoming r k v)")
  case True
  then show ?thesis using Apply_noop_same [OF assms(1-3)] assms(5) by simp
next
  case False
  obtain w where w: "repWAL r = Some w" using assms(4) by blast
  have N: "NewReplica (repID r) (Some w) = r" using assms(5) w by (simp add: restart_def)
  have "rep_ok r" using assms(1) by (simp add: typed_def)
  then show ?thesis
    using False by (simp add: Apply_change restart_def w NewReplica_Append N replay_entry_def Let_def)
qed

lemma applies_restart_all:
  assumes "typed pol r" "typed_writes pol kvs" "clock_covers r" "repWAL r \<noteq> None" "restart r = r"
  shows "restart (applies r kvs) = applies r kvs"
  using assms
proof (induction kvs arbitrary: r)
  case (Cons kv kvs)
  obtain k v where kv: "kv = (k, v)" by (cases kv)
  let ?r = "snd (Replica_Apply r IO_ok k v)"
  have v: "wf_pol (pol k) v" using Cons.prems(2) by (simp add: typed_writes_def kv)
  have "rep_ok r" using Cons.prems(1) by (simp add: typed_def)
  then have "repWAL ?r \<noteq> None"
    using Cons.prems(4) by (cases "held r k = Some (mergeIncoming r k v)") (auto simp: Apply_noop Apply_change)
  then show ?case
    using Cons.IH [of ?r] Cons.prems v typed_Apply clock_covers_Apply Apply_restart_all
    by (simp add: kv typed_writes_def)
qed simp

lemma New_empty_log:
  assumes "wal_log w = []"
  shows "restart (NewReplica i (Some w)) = NewReplica i (Some w)" "held (NewReplica i (Some w)) = Map.empty"
    "typed pol (NewReplica i (Some w))" "clock_covers (NewReplica i (Some w))"
proof -
  show h: "held (NewReplica i (Some w)) = Map.empty"
    by (simp add: NewReplica_def Replay_def All_def assms held_def NewKV_def fun_eq_iff)
  show "restart (NewReplica i (Some w)) = NewReplica i (Some w)" by (simp add: restart_def)
  show "typed pol (NewReplica i (Some w))" "clock_covers (NewReplica i (Some w))"
    by (simp_all add: typed_def clock_covers_def h)
qed

section \<open>Growth\<close>

text \<open>\<open>below a b\<close>: merging \<open>a\<close> into \<open>b\<close> adds nothing. \<open>grows r r'\<close>: every value of \<open>r\<close> is below what \<open>r'\<close> holds.\<close>

definition below :: "Value \<Rightarrow> Value \<Rightarrow> bool" where
  "below a b \<longleftrightarrow> Resolve a b = b"

definition grows :: "Replica \<Rightarrow> Replica \<Rightarrow> bool" where
  "grows r r' \<longleftrightarrow> (\<forall>k c. held r k = Some c \<longrightarrow> (\<exists>c'. held r' k = Some c' \<and> below c c'))"

lemma below_refl: "wf_pol p a \<Longrightarrow> below a a"
  by (simp add: below_def resolve.idem)

lemma value_below_trans: "wf_pol p a \<Longrightarrow> wf_pol p b \<Longrightarrow> wf_pol p c \<Longrightarrow> below a b \<Longrightarrow> below b c \<Longrightarrow> below a c"
  unfolding below_def by (rule resolve.below_trans)

lemma value_below_antisym: "wf_pol p a \<Longrightarrow> wf_pol p b \<Longrightarrow> below a b \<Longrightarrow> below b a \<Longrightarrow> a = b"
  unfolding below_def by (rule resolve.below_antisym)

lemma below_join:
  assumes "wf_pol p a" "wf_pol p b"
  shows "below a (Resolve a b)" "below b (Resolve a b)"
  using assms resolve.absorb [of p a b] resolve.absorb [of p b a] resolve.comm [of p a b] by (simp_all add: below_def)

lemma below_version: "wf_pol p a \<Longrightarrow> wf_pol p b \<Longrightarrow> below a b \<Longrightarrow> Version a \<le> Version b"
  using Resolve_version [of p a b] by (metis below_def max.cobounded1)

lemma grows_refl: "typed pol r \<Longrightarrow> grows r r"
  by (auto simp: grows_def typed_def intro: below_refl)

lemma grows_trans:
  assumes "typed pol r1" "typed pol r2" "typed pol r3" "grows r1 r2" "grows r2 r3"
  shows "grows r1 r3"
  unfolding grows_def
proof (intro allI impI)
  fix k c1 assume c1: "held r1 k = Some c1"
  then obtain c2 where c2: "held r2 k = Some c2" "below c1 c2" using assms(4) by (auto simp: grows_def)
  then obtain c3 where c3: "held r3 k = Some c3" "below c2 c3" using assms(5) by (auto simp: grows_def)
  have "below c1 c3"
    using assms(1-3) c1 c2 c3 by (intro value_below_trans [of "pol k" c1 c2 c3]) (auto simp: typed_def)
  then show "\<exists>c3. held r3 k = Some c3 \<and> below c1 c3" using c3(1) by blast
qed

text \<open>\<^verbatim>\<open>Apply\<close> whatever the log answers: without an error the value is merged, with one the store is left alone.\<close>

lemma Apply_outcome:
  assumes "rep_ok r"
  shows "(snd (fst (Replica_Apply r io k v)) = None \<and> fst (fst (Replica_Apply r io k v)) = mergeIncoming r k v \<and>
      held (snd (Replica_Apply r io k v)) = (held r)(k \<mapsto> mergeIncoming r k v)) \<or>
    (snd (fst (Replica_Apply r io k v)) \<noteq> None \<and> repKV (snd (Replica_Apply r io k v)) = repKV r)"
    "rep_ok (snd (Replica_Apply r io k v))"
    "repClock (snd (Replica_Apply r io k v)) = Observe (repClock r) (Lamport (Version v))"
    "repReads (snd (Replica_Apply r io k v)) = repReads r"
proof -
  let ?m = "mergeIncoming r k v"
  consider (noop) "held r k = Some ?m" | (change) "held r k \<noteq> Some ?m" by blast
  then have "((snd (fst (Replica_Apply r io k v)) = None \<and> fst (fst (Replica_Apply r io k v)) = ?m \<and>
      held (snd (Replica_Apply r io k v)) = (held r)(k \<mapsto> ?m)) \<or>
    (snd (fst (Replica_Apply r io k v)) \<noteq> None \<and> repKV (snd (Replica_Apply r io k v)) = repKV r)) \<and>
    rep_ok (snd (Replica_Apply r io k v)) \<and>
    repClock (snd (Replica_Apply r io k v)) = Observe (repClock r) (Lamport (Version v)) \<and>
    repReads (snd (Replica_Apply r io k v)) = repReads r"
  proof cases
    case noop
    then show ?thesis using assms by (auto simp: Apply_noop rep_ok_def held_def fun_eq_iff)
  next
    case change
    have "\<not> (\<exists>c. held r k = Some c \<and> Value_Equal c ?m)"
      using assms change held_canon Value_Equal_iff canon_merge by metis
    then show ?thesis using assms
      by (auto simp: Replica_Apply_def KV_Get_def held_def Let_def Append_def rep_ok_def KV_Apply_def kv_canon_def fun_eq_iff
          intro!: fmpred_upd split: option.splits wal_io.splits)
  qed
  then show "(snd (fst (Replica_Apply r io k v)) = None \<and> fst (fst (Replica_Apply r io k v)) = ?m \<and>
      held (snd (Replica_Apply r io k v)) = (held r)(k \<mapsto> ?m)) \<or>
    (snd (fst (Replica_Apply r io k v)) \<noteq> None \<and> repKV (snd (Replica_Apply r io k v)) = repKV r)"
    "rep_ok (snd (Replica_Apply r io k v))"
    "repClock (snd (Replica_Apply r io k v)) = Observe (repClock r) (Lamport (Version v))"
    "repReads (snd (Replica_Apply r io k v)) = repReads r"
    by blast+
qed

text \<open>The invariant of a replica in operation, and what one \<^verbatim>\<open>Apply\<close> does to it.\<close>

definition sound :: "(string \<Rightarrow> Policy) \<Rightarrow> Replica \<Rightarrow> bool" where
  "sound pol r \<longleftrightarrow> typed pol r \<and> clock_covers r"

lemma Apply_sound:
  fixes io :: wal_io
  assumes "sound pol r" "wf_pol (pol k) v"
  defines "r' \<equiv> snd (Replica_Apply r io k v)"
  shows "sound pol r'" "grows r r'"
    "snd (fst (Replica_Apply r io k v)) = None \<Longrightarrow> \<exists>c. held r' k = Some c \<and> below v c"
proof -
  have t: "typed pol r" and c: "clock_covers r" and ok: "rep_ok r" using assms(1) by (auto simp: sound_def typed_def)
  let ?m = "mergeIncoming r k v"
  have m: "wf_pol (pol k) ?m" by (rule wf_mergeIncoming [OF t assms(2)])
  have bm: "below v ?m" "\<And>c. held r k = Some c \<Longrightarrow> below c ?m"
    using t assms(2) below_join [of "pol k" _ v] below_refl [of "pol k" v]
    by (auto simp: mergeIncoming_held typed_def split: option.splits)
  have lm: "Lamport (Version ?m) \<le> max (clock_t (repClock r)) (Lamport (Version v))"
    using c merge_version [OF t assms(2)]
    by (cases "held r k") (auto simp: clock_covers_def le_max_iff_disj max_def intro: order_trans)
  have clk: "clock_t (repClock r') = max (clock_t (repClock r)) (Lamport (Version v))"
    by (simp add: r'_def Apply_outcome(3) [OF ok])
  have held: "held r' = (held r)(k \<mapsto> ?m) \<or> held r' = held r"
    using Apply_outcome(1) [OF ok, of io k v] by (auto simp: r'_def held_def fun_eq_iff)
  have ok': "rep_ok r'" unfolding r'_def by (rule Apply_outcome(2) [OF ok])
  show "sound pol r'"
    using held t c m lm ok' by (auto simp: sound_def typed_def clock_covers_def clk le_max_iff_disj split: if_splits)
  show "grows r r'" using held grows_refl [OF t] bm(2) by (auto simp: grows_def)
  show "\<exists>c. held r' k = Some c \<and> below v c" if "snd (fst (Replica_Apply r io k v)) = None"
    using Apply_outcome(1) [OF ok, of io k v] that bm(1) by (auto simp: r'_def)
qed

section \<open>Growth across a restart\<close>

text \<open>
  \<open>durable\<close>: restarting on the log gives a sound replica that holds at least as much. It holds even when
  log writes have failed, since the entry is in the log while the store was left alone.
\<close>

definition durable :: "(string \<Rightarrow> Policy) \<Rightarrow> Replica \<Rightarrow> bool" where
  "durable pol r \<longleftrightarrow> (repWAL r \<noteq> None \<longrightarrow> sound pol (restart r) \<and> grows r (restart r))"

lemma below_mono:
  assumes "wf_pol p a" "wf_pol p b" "wf_pol p v" "below a b"
  shows "below (Resolve a v) (Resolve b v)"
proof -
  let ?u = "Resolve b v"
  have u: "wf_pol p ?u" by (rule resolve.closed [OF assms(2,3)])
  have "below a ?u" by (rule value_below_trans [OF assms(1,2) u assms(4) below_join(1) [OF assms(2,3)]])
  moreover have "below v ?u" by (rule below_join(2) [OF assms(2,3)])
  ultimately show ?thesis using resolve.assoc [OF assms(1,3) u] by (simp add: below_def)
qed

lemma merge_mono:
  assumes "typed pol r" "typed pol s" "grows r s" "wf_pol (pol k) v"
  shows "below (mergeIncoming r k v) (mergeIncoming s k v)"
proof (cases "held r k")
  case None
  have "wf_pol (pol k) c" if "held s k = Some c" for c using assms(2) that by (simp add: typed_def)
  then show ?thesis
    using None assms(4) below_join(2) below_refl by (auto simp: mergeIncoming_held split: option.splits)
next
  case (Some a)
  then obtain b where b: "held s k = Some b" "below a b" using assms(3) by (auto simp: grows_def)
  have "wf_pol (pol k) a" "wf_pol (pol k) b" using assms(1,2) Some b(1) by (auto simp: typed_def)
  then show ?thesis using below_mono [of "pol k" a b v] assms(4) Some b by (simp add: mergeIncoming_held)
qed

lemma held_wal [simp]: "held (r\<lparr>repWAL := w\<rparr>) = held r"
  by (simp add: held_def fun_eq_iff)

lemma replay_entry_sound:
  assumes "sound pol s" "wf_pol (pol (heKey e)) (heValue e)"
  shows "sound pol (replay_entry s e)" "grows s (replay_entry s e)"
    "held (replay_entry s e) = (held s)(heKey e \<mapsto> mergeIncoming s (heKey e) (heValue e))"
proof -
  let ?k = "heKey e" and ?v = "heValue e"
  let ?r = "snd (Replica_Apply (s\<lparr>repWAL := None\<rparr>) IO_ok ?k ?v)"
  have s: "sound pol (s\<lparr>repWAL := None\<rparr>)"
    using assms(1) by (simp add: sound_def typed_def clock_covers_def rep_ok_def)
  have ok: "rep_ok (s\<lparr>repWAL := None\<rparr>)" using s by (simp add: sound_def typed_def)
  have m: "mergeIncoming (s\<lparr>repWAL := None\<rparr>) ?k ?v = mergeIncoming s ?k ?v" by (simp add: mergeIncoming_def)
  have h: "held (replay_entry s e) = (held s)(?k \<mapsto> mergeIncoming s ?k ?v)"
    by (simp add: held_def KV_Apply_def Let_def fun_eq_iff)
  then show "held (replay_entry s e) = (held s)(?k \<mapsto> mergeIncoming s ?k ?v)" .
  have eq: "held (replay_entry s e) = held ?r" "repClock (replay_entry s e) = repClock ?r"
    using Apply_held(1,6) [OF ok, of ?k ?v] h m by simp_all
  have "rep_ok (replay_entry s e)" using assms(1) by (simp add: rep_ok_def sound_def typed_def)
  then show "sound pol (replay_entry s e)"
    using Apply_sound(1) [OF s assms(2), of IO_ok] eq by (simp add: sound_def typed_def clock_covers_def)
  show "grows s (replay_entry s e)"
    using Apply_sound(2) [OF s assms(2), of IO_ok] by (simp add: grows_def eq)
qed

lemma Apply_wal:
  assumes "rep_ok r"
  shows "repID (snd (Replica_Apply r io k v)) = repID r"
    "repWAL (snd (Replica_Apply r io k v)) =
      (if held r k = Some (mergeIncoming r k v) then repWAL r else map_option (\<lambda>w. snd (Append w io k v)) (repWAL r))"
proof -
  show "repID (snd (Replica_Apply r io k v)) = repID r"
    by (auto simp: Replica_Apply_def Let_def split: prod.split option.split)
  show "repWAL (snd (Replica_Apply r io k v)) =
      (if held r k = Some (mergeIncoming r k v) then repWAL r else map_option (\<lambda>w. snd (Append w io k v)) (repWAL r))"
  proof (cases "held r k = Some (mergeIncoming r k v)")
    case True
    then show ?thesis using assms by (simp add: Apply_noop)
  next
    case False
    then have "\<not> (\<exists>c. held r k = Some c \<and> Value_Equal c (mergeIncoming r k v))"
      using assms held_canon Value_Equal_iff canon_merge by metis
    then show ?thesis using False
      by (auto simp: Replica_Apply_def KV_Get_def held_def Let_def case_prod_unfold split: option.splits)
  qed
qed

lemma Apply_durable:
  assumes "sound pol r" "durable pol r" "wf_pol (pol k) v"
  shows "durable pol (snd (Replica_Apply r io k v))"
proof (cases "repWAL r")
  case None
  have "rep_ok r" using assms(1) by (simp add: sound_def typed_def)
  then show ?thesis using None by (simp add: durable_def Apply_wal)
next
  case (Some w)
  let ?r = "snd (Replica_Apply r io k v)" and ?m = "mergeIncoming r k v"
  have t: "typed pol r" and ok: "rep_ok r" using assms(1) by (auto simp: sound_def typed_def)
  have s: "sound pol (restart r)" and g: "grows r (restart r)" using assms(2) Some by (auto simp: durable_def)
  have held: "held ?r = (held r)(k \<mapsto> ?m) \<or> held ?r = held r"
    using Apply_outcome(1) [OF ok, of io k v] by (auto simp: held_def fun_eq_iff)
  show ?thesis
  proof (cases "held r k = Some ?m")
    case True
    then have "restart ?r = restart r" "held ?r = held r"
      using held Apply_wal [OF ok, of io k v] by (auto simp: restart_def)
    then show ?thesis using s g by (simp add: durable_def grows_def)
  next
    case False
    define e where "e = \<lparr>heSeq = wal_seq w + 1, heKey = k, heValue = v\<rparr>"
    have v: "Clone v = v" using assms(3) by simp
    have n: "restart ?r = (replay_entry (restart r) e)\<lparr>repWAL := Some (snd (Append w io k v))\<rparr>"
      using Apply_wal [OF ok, of io k v] False Some by (simp add: restart_def NewReplica_Append e_def v)
    note re = replay_entry_sound [OF s, of e, unfolded e_def HistoryEntry.simps, OF assms(3), folded e_def]
    have h: "held (restart ?r) = held (replay_entry (restart r) e)" by (simp add: n held_def fun_eq_iff)
    have "sound pol (restart ?r)"
      using re(1) h n by (simp add: sound_def typed_def clock_covers_def rep_ok_def)
    moreover have "below ?m (mergeIncoming (restart r) k v)"
      using merge_mono [OF t _ g assms(3)] s by (simp add: sound_def)
    moreover have "grows r (restart ?r)"
    proof -
      have "typed pol (restart r)" "typed pol (replay_entry (restart r) e)" using s re(1) by (auto simp: sound_def)
      from grows_trans [OF t this g re(2)] show ?thesis by (simp add: grows_def h)
    qed
    moreover have "held (restart ?r) k = Some (mergeIncoming (restart r) k v)" by (simp add: h re(3))
    ultimately have "grows ?r (restart ?r)" using held by (auto simp: grows_def split: if_splits)
    then show ?thesis using \<open>sound pol (restart ?r)\<close> by (simp add: durable_def)
  qed
qed

section \<open>Properties\<close>

text \<open>C4. Strong eventual consistency of replicas: two replicas that hold the same store and are then sent
  the same set of writes, in any order, with any duplication and whatever their logs, end with the same
  snapshot; per key it is the merge of the writes, with the largest version. (Each key is used under one
  policy.)\<close>

theorem replica_convergence:
  assumes "typed pol r" "typed pol r'" "Replica_Snapshot r = Replica_Snapshot r'"
    and "typed_writes pol kvs" "set kws = set kvs"
  shows "Replica_Snapshot (applies r kvs) = Replica_Snapshot (applies r' kws)"
proof -
  have snap: "fmlookup (Replica_Snapshot s) = held s" if "typed pol s" for s
    using that by (simp add: Replica_Snapshot_def Snapshot_canon typed_def rep_ok_def held_def fun_eq_iff)
  have w: "typed_writes pol kws" using assms(4,5) by (simp add: typed_writes_def)
  have h: "held r = held r'" using snap assms(1-3) by metis
  have "held (applies r kvs) k = held (applies r' kws) k" for k
  proof -
    have s: "set (for_key k kvs) = set (for_key k kws)" using assms(5) by (simp add: set_for_key)
    have wf: "\<And>x. x \<in> set (for_key k kvs) \<Longrightarrow> wf_pol (pol k) x" using typed_for_key [OF assms(4)] by blast
    show ?thesis
    proof (cases "held r' k")
      case None
      have "for_key k kvs = [] \<longleftrightarrow> for_key k kws = []" using s by (metis set_empty)
      moreover have "foldl Resolve v vs = foldl Resolve u us" if "for_key k kvs = v # vs" "for_key k kws = u # us" for v vs u us
        using resolve.foldl_set_eq [of v vs u us "pol k"] s wf that by simp
      ultimately show ?thesis
        using None by (auto simp: applies_held [OF assms(1,4)] applies_held [OF assms(2) w] h split: list.splits)
    next
      case (Some c)
      have "wf_pol (pol k) c" using assms(2) Some by (simp add: typed_def)
      then have "foldl Resolve c (for_key k kvs) = foldl Resolve c (for_key k kws)"
        using s wf by (intro resolve.foldl_set_eq [of _ _ _ _ "pol k"]) auto
      then show ?thesis using Some by (simp add: applies_held [OF assms(1,4)] applies_held [OF assms(2) w] h)
    qed
  qed
  then show ?thesis
    using snap typed_applies [OF assms(1,4)] typed_applies [OF assms(2) w]
    by (metis fmap_eqI)
qed

definition lww_write :: "string \<Rightarrow> u64 \<Rightarrow> string \<Rightarrow> Value" where
  "lww_write node t data =
     \<lparr>Data = Some data, Version = \<lparr>Lamport = t, NodeID = node\<rparr>, Policy = 0, Tombstone = False, CRDT = None\<rparr>"

lemma wf_lww_write: "data \<noteq> [] \<Longrightarrow> wf_pol 0 (lww_write node t data)"
  by (cases data) (simp_all add: wf_pol_def wf_value_def lww_write_def wf_lww_def)

theorem replica_convergence_witness:
  "Replica_Snapshot (applies (NewReplica ''A'' None) [(''k'', lww_write ''A'' 1 ''x''), (''k'', lww_write ''B'' 1 ''y'')]) =
   Replica_Snapshot (applies (NewReplica ''B'' None)
     [(''k'', lww_write ''B'' 1 ''y''), (''k'', lww_write ''A'' 1 ''x''), (''k'', lww_write ''B'' 1 ''y'')])"
proof (rule replica_convergence [of "\<lambda>_. 0"])
  show "Replica_Snapshot (NewReplica ''A'' None) = Replica_Snapshot (NewReplica ''B'' None)"
    by (simp add: Replica_Snapshot_def NewReplica_def)
qed (auto simp: typed_writes_def wf_lww_write)

text \<open>C18. At-least-once delivery is safe: applying a write a second time returns the same merged value
  without an error and leaves the whole replica as it is, log and clock included, even when the log could
  not be written any more.\<close>

theorem Replica_Apply_idempotent:
  assumes "typed pol r" "clock_covers r" "wf_pol (pol k) v"
  defines "r' \<equiv> snd (Replica_Apply r IO_ok k v)"
  shows "Replica_Apply r' io k v = (fst (Replica_Apply r IO_ok k v), r')"
proof -
  have ok: "rep_ok r" using assms(1) by (simp add: typed_def)
  have t: "typed pol r'" unfolding r'_def by (rule typed_Apply [OF assms(1,3)])
  have c: "clock_covers r'" unfolding r'_def by (rule clock_covers_Apply [OF assms(1,3,2)])
  let ?m = "mergeIncoming r k v"
  have h: "held r' k = Some ?m" by (simp add: r'_def Apply_held [OF ok])
  have "Resolve ?m v = ?m"
    using assms(1,3) resolve.absorb_right [of "pol k" _ v] resolve.idem [of "pol k" v]
    by (auto simp: mergeIncoming_held typed_def split: option.splits)
  then have m: "mergeIncoming r' k v = ?m" by (simp add: mergeIncoming_held [of r'] h)
  have ok': "rep_ok r'" using t by (simp add: typed_def)
  have "fst (Replica_Apply r' io k v) = (?m, None)" using Apply_noop [OF ok', of k v io] h m by simp
  moreover have "snd (Replica_Apply r' io k v) = r'" using Apply_noop_same [OF t assms(3) c] h m by simp
  ultimately show ?thesis using Apply_held(3) [OF ok] by (metis prod.collapse)
qed

theorem Replica_Apply_idempotent_witness:
  "snd (Replica_Apply (snd (Replica_Apply (NewReplica ''A'' None) IO_ok ''k'' (lww_write ''A'' 1 ''x'')))
     IO_sync_fail ''k'' (lww_write ''A'' 1 ''x'')) =
   snd (Replica_Apply (NewReplica ''A'' None) IO_ok ''k'' (lww_write ''A'' 1 ''x''))"
proof -
  have "clock_covers (NewReplica ''A'' None)" by (simp add: clock_covers_def held_def NewReplica_def NewKV_def)
  then show ?thesis
    using Replica_Apply_idempotent [of "\<lambda>_. 0" "NewReplica ''A'' None" "''k''" "lww_write ''A'' 1 ''x''" IO_sync_fail]
    by (simp add: wf_lww_write)
qed

text \<open>C5. A node that crashes and restarts from its log file has lost nothing: starting on an empty file and
  applying any writes, reopening the file and rebuilding the replica from it gives exactly the replica
  before the crash: store, versions seen, log and clock. (Every write and sync succeeded, each line is
  below 8 MiB, keys and node ids are UTF-8 and each key is used under one policy.)\<close>

theorem crash_recovery:
  assumes "OpenWAL path env = Inr w" "path \<noteq> ''''" "env_contents env = ''''"
    and "typed_writes pol kvs" "length kvs < 2 ^ 64" "\<forall>(k, v) \<in> set kvs. valid_utf8 k \<and> wire_value v"
    and "repWAL (applies (NewReplica i (Some w)) kvs) = Some w'"
    and "\<forall>e \<in> set (wal_log w'). length (json_print (json_of_HistoryEntry e)) < max_line"
  shows "OpenWAL path (env\<lparr>env_contents := the (wal_f w')\<rparr>) = Inr w' \<and>
    NewReplica i (Some w') = applies (NewReplica i (Some w)) kvs"
proof -
  let ?r = "NewReplica i (Some w)"
  have env: "env_mkdir env \<or> env_dir_is_dot env" "env_open env" "env_reopen env" "env_read env"
    and w: "w = \<lparr>wal_path = path, wal_f = Some [], wal_seq = 0, wal_log = []\<rparr>"
    using assms(1-3) by (auto simp: OpenWAL_def load_def split: if_splits)
  have l: "wal_log w = []" by (simp add: w)
  obtain ls where ls: "set ls \<subseteq> set kvs" "length ls \<le> length kvs" "w' = appends w ls"
    using applies_wal [of ?r w kvs] assms(7) by auto
  have "\<forall>(k, v) \<in> set ls. valid_utf8 k \<and> wire_value (Clone v)"
    using assms(4,6) ls(1) wf_pol_Clone by (fastforce simp: typed_writes_def)
  then have "wal_synced w'"
    unfolding ls(3) using assms(5,8) ls(2,3)
    by (intro appends_synced) (simp_all add: w line_of_def wal_synced_def whole_lines_def)
  then have "OpenWAL path (env\<lparr>env_contents := the (wal_f w')\<rparr>) = Inr w'"
    using OpenWAL_synced [OF _ _ env, of w'] assms(2) by (simp add: ls(3) w)
  moreover have "restart (applies ?r kvs) = applies ?r kvs"
    using New_empty_log [OF l] assms(4) by (intro applies_restart_all) simp_all
  ultimately show ?thesis using assms(7) applies_frame [of ?r kvs] by (simp add: restart_def)
qed

theorem crash_recovery_witness:
  "NewReplica ''A'' (Some (appends sample_wal [(''k'', sample_value)])) =
   applies (NewReplica ''A'' (Some sample_wal)) [(''k'', sample_value)]"
proof -
  have wf: "wf_pol 0 sample_value" using wf_lww_write [of "''pro''" "''A''" 1] by (simp add: lww_write_def sample_value_def)
  have "held (NewReplica ''A'' (Some sample_wal)) = Map.empty" by (rule New_empty_log) (simp add: sample_wal_def)
  then have w: "repWAL (applies (NewReplica ''A'' (Some sample_wal)) [(''k'', sample_value)]) =
      Some (appends sample_wal [(''k'', sample_value)])"
    by (simp add: Apply_change)
  have "\<forall>e \<in> set (wal_log (appends sample_wal [(''k'', sample_value)])).
      length (json_print (json_of_HistoryEntry e)) < max_line"
    using sample_line by (simp add: Append_log sample_wal_def sample_wire)
  then show ?thesis
    using crash_recovery [OF open_sample, of "\<lambda>_. 0" "[(''k'', sample_value)]" "''A''"] wf w sample_wire
    by (simp add: sample_env_def typed_writes_def byte_def)
qed

text \<open>Whatever values are delivered (mixed policies and malformed CRDT payloads included) the log alone
  rebuilds the store: a replica restarted on the log of any run without log errors holds the same values
  and has seen the same versions.\<close>

theorem restart_rebuilds_store:
  "repKV (NewReplica i (repWAL (applies (NewReplica i (Some w)) kvs))) = repKV (applies (NewReplica i (Some w)) kvs)"
  using applies_restart [of "NewReplica i (Some w)" kvs] applies_frame [of "NewReplica i (Some w)" kvs]
  by (simp add: restart_def)

lemma Apply_error_value:
  assumes "held r k \<noteq> Some (mergeIncoming r k v)" "rep_ok r" "repWAL r = Some w" "wal_f w = Some c" "io \<noteq> IO_ok"
  shows "fst (fst (Replica_Apply r io k v)) = mergeIncoming r k v"
proof -
  have "\<not> (\<exists>c. held r k = Some c \<and> Value_Equal c (mergeIncoming r k v))"
    using assms held_canon Value_Equal_iff canon_merge by metis
  then show ?thesis using assms(3-5) KV_state [of "r\<lparr>repClock := Observe (repClock r) (Lamport (Version v))\<rparr>" r k v]
    by (auto simp: Replica_Apply_def KV_Get_def held_def Let_def Append_def split: option.splits wal_io.splits)
qed

lemma Append_sync_fail: "snd (Append w IO_sync_fail k v) = snd (Append w IO_ok k v)"
  by (simp add: Append_def Let_def split: option.split)

lemma Append_nothing_written: "wal_f (snd (Append w (IO_write_fail '''') k v)) = wal_f w"
  by (simp add: Append_def Let_def split: option.split)

text \<open>C21. A write that the log refuses is not applied but is remembered. When the write to the file or its sync fails,
  \<^verbatim>\<open>Apply\<close> returns the merged value with an error and leaves the store alone, yet the entry is in the log in memory and
  \<^verbatim>\<open>History\<close> lists it. The next start, which reads the file, need not agree: after a failed sync the line is in the file and the
  refused write is applied after all; when nothing of the line was written the store is as before and the entry that
  \<^verbatim>\<open>History\<close> listed is gone. (The node's log file is in step with its memory and with its store, the sequence number does not wrap and the line is
  shorter than the scanner's 8 MiB.)\<close>

theorem Replica_Apply_wal_error:
  assumes "typed pol r" "wf_pol (pol k) v" "held r k \<noteq> Some (mergeIncoming r k v)" "repWAL r = Some w"
    and log: "wal_synced w" "wal_path w \<noteq> ''''" "repKV (NewReplica (repID r) (Some w)) = repKV r"
    and line: "wal_seq w + 1 \<noteq> 0" "valid_utf8 k" "wire_value v"
      "length (json_print (json_of_HistoryEntry \<lparr>heSeq = wal_seq w + 1, heKey = k, heValue = v\<rparr>)) < max_line"
    and env: "env_mkdir env \<or> env_dir_is_dot env" "env_open env" "env_reopen env" "env_read env"
  shows "(\<forall>io. io \<noteq> IO_ok \<longrightarrow>
      fst (fst (Replica_Apply r io k v)) = mergeIncoming r k v \<and> snd (fst (Replica_Apply r io k v)) \<noteq> None \<and>
      Replica_Get (snd (Replica_Apply r io k v)) = Replica_Get r \<and>
      Replica_History (snd (Replica_Apply r io k v)) k =
        Replica_History r k @ [\<lparr>heSeq = wal_seq w + 1, heKey = k, heValue = v\<rparr>]) \<and>
    (\<exists>w1. OpenWAL (wal_path w) (env\<lparr>env_contents := the (wal_f (the (repWAL (snd (Replica_Apply r IO_sync_fail k v)))))\<rparr>) = Inr w1 \<and>
      Replica_Get (NewReplica (repID r) (Some w1)) k = (mergeIncoming r k v, True)) \<and>
    (\<exists>w0. OpenWAL (wal_path w) (env\<lparr>env_contents := the (wal_f (the (repWAL (snd (Replica_Apply r (IO_write_fail '''') k v)))))\<rparr>) = Inr w0 \<and>
      Replica_Get (NewReplica (repID r) (Some w0)) = Replica_Get r \<and>
      Replica_History (NewReplica (repID r) (Some w0)) k = Replica_History r k)"
proof -
  have ok: "rep_ok r" using assms(1) by (simp add: typed_def)
  have v: "Clone v = v" using assms(2) by simp
  obtain c where c: "wal_f w = Some c" using log(1) by (auto simp: wal_synced_def)
  note e = Apply_error [OF assms(3) ok assms(4) c]
  have val: "fst (fst (Replica_Apply r io k v)) = mergeIncoming r k v" if "io \<noteq> IO_ok" for io
    using Apply_error_value [OF assms(3) ok assms(4) c that] .
  have h: "Replica_History (snd (Replica_Apply r io k v)) k = Replica_History r k @ [\<lparr>heSeq = wal_seq w + 1, heKey = k, heValue = v\<rparr>]"
    if "io \<noteq> IO_ok" for io
    using e [OF that] by (simp add: Replica_History_def History_def Append_log assms(4) v)
  have s: "wal_synced (snd (Append w IO_ok k v))"
    using line(3,4) by (intro Append_synced(1) [OF log(1) line(1,2)]) (simp_all add: v Append_def Let_def c)
  have p: "wal_path (snd (Append w io k v)) = wal_path w" for io
    by (simp add: Append_def Let_def split: option.split wal_io.split)
  have "OpenWAL (wal_path w) (env\<lparr>env_contents := the (wal_f (the (repWAL (snd (Replica_Apply r IO_sync_fail k v)))))\<rparr>) = Inr (snd (Append w IO_ok k v))"
    using OpenWAL_synced [OF s _ env] log(2) e [of IO_sync_fail] by (simp add: p Append_sync_fail)
  moreover have "Replica_Get (NewReplica (repID r) (Some (snd (Append w IO_ok k v)))) k = (mergeIncoming r k v, True)"
    using KV_state [OF log(3), of k v] canon_merge [of r k v] log(3)
    by (simp add: NewReplica_Append Replica_Get_def kv_apply.get_put v)
  moreover have "OpenWAL (wal_path w) (env\<lparr>env_contents := the (wal_f (the (repWAL (snd (Replica_Apply r (IO_write_fail '''') k v)))))\<rparr>) = Inr w"
    using OpenWAL_synced [OF log(1,2) env] e [of "IO_write_fail ''''"] by (simp add: Append_nothing_written)
  moreover have "Replica_Get (NewReplica (repID r) (Some w)) = Replica_Get r"
    "Replica_History (NewReplica (repID r) (Some w)) k = Replica_History r k"
    using log(3) assms(4) by (simp_all add: Replica_Get_def Replica_History_def fun_eq_iff)
  ultimately show ?thesis using e h val by (auto simp: Replica_Get_def fun_eq_iff)
qed

theorem Replica_Apply_wal_error_witness:
  "let r = NewReplica ''A'' (Some sample_wal); r' = snd (Replica_Apply r IO_sync_fail ''k'' sample_value) in
   Replica_Get r' ''k'' = (zero_Value, False) \<and>
   (\<exists>w. OpenWAL ''wal.log'' (sample_env\<lparr>env_contents := the (wal_f (the (repWAL r')))\<rparr>) = Inr w \<and>
      Replica_Get (NewReplica ''A'' (Some w)) ''k'' = (sample_value, True))"
proof -
  let ?r = "NewReplica ''A'' (Some sample_wal)"
  have wf: "wf_pol 0 sample_value" using wf_lww_write [of "''pro''" "''A''" 1] by (simp add: lww_write_def sample_value_def)
  have l: "wal_log sample_wal = []" by (simp add: sample_wal_def)
  have h: "held ?r = Map.empty" by (rule New_empty_log [OF l(1)])
  have g: "Replica_Get ?r ''k'' = (zero_Value, False)"
    using h by (simp add: Replica_Get_def KV_Get_def held_def fun_eq_iff)
  have s: "wal_synced sample_wal" "wal_path sample_wal = ''wal.log''" "wal_seq sample_wal + 1 = 1"
    by (simp_all add: sample_wal_def wal_synced_def whole_lines_def)
  have "mergeIncoming ?r ''k'' sample_value = sample_value" using h by (simp add: mergeIncoming_held sample_wire)
  then show ?thesis
    using Replica_Apply_wal_error [of "\<lambda>_. 0" ?r "''k''" sample_value sample_wal sample_env] New_empty_log(1,3) [OF l] wf g s sample_line sample_wire
    by (simp add: h sample_env_def byte_def Let_def)
qed

end
