(* ===== verification/Anti_Entropy.thy ===== *)
theory Anti_Entropy
  imports Replica
begin

text \<open>
  \<^verbatim>\<open>internal/repair/anti_entropy.go\<close>: the version scan that compares two full stores and plans what
  to push and what to pull. The two loops over Go maps run over the entries in key order; the plan does
  not depend on the order, since each entry writes only its own key.
\<close>

record Plan =
  Push :: "(string, Value) fmap"
  Pull :: "(string, Value) fmap"

definition scan_local ::
  "(string, Value) fmap \<Rightarrow> Plan \<times> (string, bool) fmap \<Rightarrow> string \<times> Value \<Rightarrow> Plan \<times> (string, bool) fmap" where
  "scan_local remote st e =
     (let (p, seen) = st; (k, lv) = e; seen = fmupd k True seen in
      case fmlookup remote k of
        None \<Rightarrow> (p\<lparr>Push := fmupd k lv (Push p)\<rparr>, seen)
      | Some rv \<Rightarrow>
          (let merged = Resolve lv rv;
               p = (if \<not> Value_Equal merged lv then p\<lparr>Pull := fmupd k merged (Pull p)\<rparr> else p);
               p = (if \<not> Value_Equal merged rv then p\<lparr>Push := fmupd k merged (Push p)\<rparr> else p)
           in (p, seen)))"

definition scan_remote :: "(string, bool) fmap \<Rightarrow> Plan \<Rightarrow> string \<times> Value \<Rightarrow> Plan" where
  "scan_remote seen p e =
     (let (k, rv) = e in
      if fmlookup seen k = Some True then p else p\<lparr>Pull := fmupd k rv (Pull p)\<rparr>)"

definition Scan :: "(string, Value) fmap \<Rightarrow> (string, Value) fmap \<Rightarrow> Plan" where
  "Scan local remote =
     (let p = \<lparr>Push = fmempty, Pull = fmempty\<rparr>;
          (p, seen) = foldl (scan_local remote) (p, fmempty) (sorted_list_of_fmap local)
      in foldl (scan_remote seen) p (sorted_list_of_fmap remote))"

section \<open>The plan, key by key\<close>

definition push_of :: "Value option \<Rightarrow> Value option \<Rightarrow> Value option" where
  "push_of l r =
     (case (l, r) of
        (Some lv, None) \<Rightarrow> Some lv
      | (Some lv, Some rv) \<Rightarrow> if Value_Equal (Resolve lv rv) rv then None else Some (Resolve lv rv)
      | _ \<Rightarrow> None)"

definition pull_of :: "Value option \<Rightarrow> Value option \<Rightarrow> Value option" where
  "pull_of l r =
     (case (l, r) of
        (None, Some rv) \<Rightarrow> Some rv
      | (Some lv, Some rv) \<Rightarrow> if Value_Equal (Resolve lv rv) lv then None else Some (Resolve lv rv)
      | _ \<Rightarrow> None)"

lemma scan_local_loop:
  assumes "distinct (map fst xs)" "\<forall>k \<in> fst ` set xs. fmlookup (Push p) k = None \<and> fmlookup (Pull p) k = None"
  shows "(let (p', seen') = foldl (scan_local remote) (p, seen) xs in
    fmlookup (Push p') k = (case map_of xs k of None \<Rightarrow> fmlookup (Push p) k | Some lv \<Rightarrow> push_of (Some lv) (fmlookup remote k)) \<and>
    fmlookup (Pull p') k = (case map_of xs k of None \<Rightarrow> fmlookup (Pull p) k | Some lv \<Rightarrow> pull_of (Some lv) (fmlookup remote k)) \<and>
    (fmlookup seen' k = Some True \<longleftrightarrow> map_of xs k \<noteq> None \<or> fmlookup seen k = Some True))"
  using assms
proof (induction xs arbitrary: p seen)
  case (Cons x xs)
  obtain k' lv where x: "x = (k', lv)" by (cases x)
  obtain p1 seen1 where s: "scan_local remote (p, seen) x = (p1, seen1)" by (cases "scan_local remote (p, seen) x")
  have p1: "fmlookup (Push p1) k'' = (if k'' = k' then push_of (Some lv) (fmlookup remote k') else fmlookup (Push p) k'')"
    "fmlookup (Pull p1) k'' = (if k'' = k' then pull_of (Some lv) (fmlookup remote k') else fmlookup (Pull p) k'')"
    "seen1 = fmupd k' True seen" for k''
    using s Cons.prems(2) by (auto simp: scan_local_def x push_of_def pull_of_def Let_def split: option.splits if_splits)
  have "\<forall>k \<in> fst ` set xs. fmlookup (Push p1) k = None \<and> fmlookup (Pull p1) k = None"
    using Cons.prems by (auto simp: p1 x)
  note IH = Cons.IH [OF _ this, of seen1]
  have "map_of xs k' = None" using Cons.prems(1) by (simp add: x map_of_eq_None_iff)
  then show ?case using IH Cons.prems(1) by (auto simp: x s [unfolded x] p1 Let_def split: prod.splits cong: option.case_cong)
qed simp

lemma scan_remote_loop:
  "distinct (map fst xs) \<Longrightarrow>
    Push (foldl (scan_remote seen) p xs) = Push p \<and>
    fmlookup (Pull (foldl (scan_remote seen) p xs)) k =
      (case map_of xs k of
         None \<Rightarrow> fmlookup (Pull p) k
       | Some rv \<Rightarrow> if fmlookup seen k = Some True then fmlookup (Pull p) k else Some rv)"
proof (induction xs arbitrary: p)
  case (Cons x xs)
  obtain k' rv where x: "x = (k', rv)" by (cases x)
  have "map_of xs k' = None" using Cons.prems(1) by (simp add: x map_of_eq_None_iff)
  with Cons show ?case by (auto simp: x scan_remote_def split: option.splits)
qed simp

lemma Scan_lookup:
  "fmlookup (Push (Scan l r)) k = push_of (fmlookup l k) (fmlookup r k)"
  "fmlookup (Pull (Scan l r)) k = pull_of (fmlookup l k) (fmlookup r k)"
proof -
  obtain p seen where p: "foldl (scan_local r) (\<lparr>Push = fmempty, Pull = fmempty\<rparr>, fmempty) (sorted_list_of_fmap l) = (p, seen)"
    by force
  have 1: "fmlookup (Push p) k = (case fmlookup l k of None \<Rightarrow> None | Some lv \<Rightarrow> push_of (Some lv) (fmlookup r k))"
    "fmlookup (Pull p) k = (case fmlookup l k of None \<Rightarrow> None | Some lv \<Rightarrow> pull_of (Some lv) (fmlookup r k))"
    "fmlookup seen k = Some True \<longleftrightarrow> fmlookup l k \<noteq> None"
    using scan_local_loop [of "sorted_list_of_fmap l" "\<lparr>Push = fmempty, Pull = fmempty\<rparr>" r fmempty k] by (simp_all add: p cong: option.case_cong)
  show "fmlookup (Push (Scan l r)) k = push_of (fmlookup l k) (fmlookup r k)"
    "fmlookup (Pull (Scan l r)) k = pull_of (fmlookup l k) (fmlookup r k)"
    using scan_remote_loop [of "sorted_list_of_fmap r" seen p k] 1
    by (auto simp: Scan_def p push_of_def pull_of_def split: option.splits)
qed

section \<open>Carrying out the plan\<close>

definition opt_merge :: "Value option \<Rightarrow> Value option \<Rightarrow> Value option" where
  "opt_merge a b =
     (case (a, b) of
        (Some x, Some y) \<Rightarrow> Some (Resolve x y)
      | (None, _) \<Rightarrow> b
      | (_, None) \<Rightarrow> a)"

lemma opt_merge_simps [simp]:
  "opt_merge None b = b" "opt_merge a None = a" "opt_merge (Some x) (Some y) = Some (Resolve x y)"
  by (simp_all add: opt_merge_def split: option.splits)

lemma opt_merge_comm:
  "(\<And>x. a = Some x \<Longrightarrow> wf_pol p x) \<Longrightarrow> (\<And>x. b = Some x \<Longrightarrow> wf_pol p x) \<Longrightarrow> opt_merge a b = opt_merge b a"
  using resolve.comm [of p] by (cases a; cases b) auto

lemma Snapshot_held: "typed pol r \<Longrightarrow> fmlookup (Replica_Snapshot r) = held r"
  by (simp add: Replica_Snapshot_def Snapshot_canon typed_def rep_ok_def held_def fun_eq_iff)

text \<open>Writes with one value per key: the order does not matter and each key merges once.\<close>

lemma applies_entries:
  assumes "typed pol r" "typed_writes pol kvs" "set kvs = {(k, v). fmlookup m k = Some v}"
  shows "held (applies r kvs) k = opt_merge (held r k) (fmlookup m k)"
proof -
  have s: "set (for_key k kvs) = set_option (fmlookup m k)" by (auto simp: set_for_key assms(3))
  have wf: "\<And>v. fmlookup m k = Some v \<Longrightarrow> wf_pol (pol k) v" using assms(2,3) by (auto simp: typed_writes_def)
  show ?thesis
  proof (cases "fmlookup m k")
    case None
    then have "for_key k kvs = []" using s by simp
    then show ?thesis using None by (simp add: applies_held [OF assms(1,2)] split: option.splits)
  next
    case (Some v)
    then obtain vs where vs: "for_key k kvs = v # vs" "set vs \<subseteq> {v}"
      using s by (cases "for_key k kvs") auto
    have i: "foldl Resolve v vs = v"
      using resolve.foldl_set_eq [of v vs v "[]" "pol k"] vs(2) wf [OF Some] by auto
    have "foldl Resolve c (v # vs) = Resolve c v" if "held r k = Some c" for c
    proof -
      have "wf_pol (pol k) c" using assms(1) that by (simp add: typed_def)
      then show ?thesis using resolve.foldl_set_eq [of c "v # vs" c "[v]" "pol k"] vs(2) wf [OF Some] by auto
    qed
    then show ?thesis using i Some vs(1) by (simp add: applies_held [OF assms(1,2)] split: option.splits)
  qed
qed

lemma plan_wf:
  assumes "\<And>v. fmlookup l k = Some v \<Longrightarrow> wf_pol p v" "\<And>v. fmlookup r k = Some v \<Longrightarrow> wf_pol p v"
  shows "fmlookup (Push (Scan l r)) k = Some v \<Longrightarrow> wf_pol p v" "fmlookup (Pull (Scan l r)) k = Some v \<Longrightarrow> wf_pol p v"
  using assms resolve.closed [of p]
  by (auto simp: Scan_lookup push_of_def pull_of_def split: option.splits if_splits)

lemma plan_merge:
  assumes l: "\<And>v. fmlookup l k = Some v \<Longrightarrow> wf_pol p v" and r: "\<And>v. fmlookup r k = Some v \<Longrightarrow> wf_pol p v"
  shows "opt_merge (fmlookup l k) (fmlookup (Pull (Scan l r)) k) = opt_merge (fmlookup l k) (fmlookup r k)"
    "opt_merge (fmlookup r k) (fmlookup (Push (Scan l r)) k) = opt_merge (fmlookup l k) (fmlookup r k)"
proof -
  have "Resolve x (Resolve x y) = Resolve x y" "Resolve y (Resolve x y) = Resolve x y"
    "Value_Equal (Resolve x y) x \<longleftrightarrow> Resolve x y = x" "Value_Equal (Resolve x y) y \<longleftrightarrow> Resolve x y = y"
    if "fmlookup l k = Some x" "fmlookup r k = Some y" for x y
    using l [OF that(1)] r [OF that(2)] resolve.absorb [of p x y] resolve.absorb [of p y x] resolve.comm [of p x y]
      resolve.closed [of p x y] wf_pol_Equal by auto
  then show "opt_merge (fmlookup l k) (fmlookup (Pull (Scan l r)) k) = opt_merge (fmlookup l k) (fmlookup r k)"
    "opt_merge (fmlookup r k) (fmlookup (Push (Scan l r)) k) = opt_merge (fmlookup l k) (fmlookup r k)"
    by (auto simp: Scan_lookup push_of_def pull_of_def split: option.splits)
qed

section \<open>Properties\<close>

text \<open>C11. One exchange makes two replicas equal: scanning the two snapshots, applying what the plan pulls to
  the local replica and what it pushes to the remote one, in any order and with any duplication, leaves
  both with the same snapshot, which holds for each key the merge of what the two held.\<close>

theorem anti_entropy_pair:
  assumes "typed pol l" "typed pol r"
    and "set pulls = set (sorted_list_of_fmap (Pull (Scan (Replica_Snapshot l) (Replica_Snapshot r))))"
    and "set pushes = set (sorted_list_of_fmap (Push (Scan (Replica_Snapshot l) (Replica_Snapshot r))))"
  shows "Replica_Snapshot (applies l pulls) = Replica_Snapshot (applies r pushes) \<and>
    (\<forall>k. fmlookup (Replica_Snapshot (applies l pulls)) k =
       opt_merge (fmlookup (Replica_Snapshot l) k) (fmlookup (Replica_Snapshot r) k))"
proof -
  let ?l = "Replica_Snapshot l" and ?r = "Replica_Snapshot r"
  let ?p = "Scan ?l ?r"
  have wf: "\<And>k v. fmlookup (Replica_Snapshot l) k = Some v \<Longrightarrow> wf_pol (pol k) v"
    "\<And>k v. fmlookup (Replica_Snapshot r) k = Some v \<Longrightarrow> wf_pol (pol k) v"
    using assms(1,2) by (auto simp: Snapshot_held typed_def)
  have sets: "set pulls = {(k, v). fmlookup (Pull ?p) k = Some v}" "set pushes = {(k, v). fmlookup (Push ?p) k = Some v}"
    using assms(3,4) by (auto simp: in_sorted_list_of_fmap)
  have "wf_pol (pol k) v" if "fmlookup (Pull ?p) k = Some v \<or> fmlookup (Push ?p) k = Some v" for k v
    using that plan_wf [of ?l k "pol k" ?r v, OF wf(1) wf(2)] by blast
  then have tw: "typed_writes pol pulls" "typed_writes pol pushes" by (simp_all add: typed_writes_def sets)
  have "held (applies l pulls) k = opt_merge (held l k) (held r k)"
    "held (applies r pushes) k = opt_merge (held l k) (held r k)" for k
    using applies_entries [OF assms(1) tw(1) sets(1), of k] applies_entries [OF assms(2) tw(2) sets(2), of k]
      plan_merge [of "Replica_Snapshot l" k "pol k" "Replica_Snapshot r"] wf
    by (simp_all add: Snapshot_held [OF assms(1)] Snapshot_held [OF assms(2)])
  then show ?thesis
    using Snapshot_held [OF typed_applies [OF assms(1) tw(1)]] Snapshot_held [OF typed_applies [OF assms(2) tw(2)]]
    by (auto intro!: fmap_eqI simp: Snapshot_held [OF assms(1)] Snapshot_held [OF assms(2)])
qed

theorem anti_entropy_pair_witness:
  "let a = applies (NewReplica ''A'' None) [(''k'', lww_write ''A'' 1 ''x'')];
       b = applies (NewReplica ''B'' None) [(''k'', lww_write ''B'' 1 ''y''), (''j'', lww_write ''B'' 2 ''z'')];
       p = Scan (Replica_Snapshot a) (Replica_Snapshot b)
   in Replica_Snapshot (applies a (sorted_list_of_fmap (Pull p))) =
      Replica_Snapshot (applies b (sorted_list_of_fmap (Push p)))"
proof -
  have "typed (\<lambda>_. 0) (applies (NewReplica ''A'' None) [(''k'', lww_write ''A'' 1 ''x'')])"
    "typed (\<lambda>_. 0) (applies (NewReplica ''B'' None) [(''k'', lww_write ''B'' 1 ''y''), (''j'', lww_write ''B'' 2 ''z'')])"
    by (intro typed_applies; simp add: typed_writes_def wf_lww_write)+
  from anti_entropy_pair [OF this refl refl] show ?thesis by (simp add: Let_def)
qed

text \<open>The scan is exact: between stores whose keys each have one policy it plans nothing if and only if the
  stores are equal, it never pulls a value the local store already holds and never pushes one the remote
  store already holds.\<close>

theorem scan_empty_iff:
  assumes "\<forall>k v. fmlookup l k = Some v \<longrightarrow> wf_pol (pol k) v" "\<forall>k v. fmlookup r k = Some v \<longrightarrow> wf_pol (pol k) v"
  shows "(Push (Scan l r) = fmempty \<and> Pull (Scan l r) = fmempty \<longleftrightarrow> l = r) \<and>
    (\<forall>k v. fmlookup (Pull (Scan l r)) k = Some v \<longrightarrow> fmlookup l k \<noteq> Some v) \<and>
    (\<forall>k v. fmlookup (Push (Scan l r)) k = Some v \<longrightarrow> fmlookup r k \<noteq> Some v)"
proof -
  have e: "Value_Equal (Resolve x y) x \<longleftrightarrow> Resolve x y = x" "Value_Equal (Resolve x y) y \<longleftrightarrow> Resolve x y = y"
    "Resolve x x = x" if "fmlookup l k = Some x" "fmlookup r k = Some y" for k x y
    using assms that resolve.closed [of "pol k" x y] wf_pol_Equal resolve.idem by (blast, blast, blast)
  have pull: "fmlookup (Pull (Scan l r)) k \<noteq> Some v" if "fmlookup l k = Some v" for k v
    using e(1) [OF that] that by (auto simp: Scan_lookup pull_of_def split: option.splits)
  have push: "fmlookup (Push (Scan l r)) k \<noteq> Some v" if "fmlookup r k = Some v" for k v
    using e(2) [OF _ that] that by (auto simp: Scan_lookup push_of_def split: option.splits)
  have lr: "fmlookup l k = fmlookup r k" if "Push (Scan l r) = fmempty" "Pull (Scan l r) = fmempty" for k
    using Scan_lookup [of l r k] that e [of k]
    by (auto simp: push_of_def pull_of_def split: option.splits if_splits)
  have rl: "Push (Scan l r) = fmempty \<and> Pull (Scan l r) = fmempty" if "l = r"
    using e that by (auto intro!: fmap_eqI simp: Scan_lookup push_of_def pull_of_def split: option.splits)
  have "Push (Scan l r) = fmempty \<and> Pull (Scan l r) = fmempty \<longleftrightarrow> l = r"
    using lr rl fmap_eqI [of l r] by metis
  then show ?thesis using pull push by metis
qed

theorem scan_empty_iff_witness:
  "Push (Scan (fmap_of_list [(''k'', lww_write ''A'' 1 ''x'')]) (fmap_of_list [(''k'', lww_write ''A'' 1 ''x'')])) = fmempty"
proof -
  define m where "m = fmap_of_list [(''k'', lww_write ''A'' 1 ''x'')]"
  have "wf_pol 0 v" if "fmlookup m k = Some v" for k v
    using that wf_lww_write [of "''x''"] by (auto simp: m_def fmlookup_of_list split: if_splits)
  then show ?thesis using scan_empty_iff [of m "\<lambda>_. 0" m] unfolding m_def by blast
qed

end
