(* ===== verification/Read_Repair.thy ===== *)
theory Read_Repair
  imports Resolve_Policy
begin

text \<open>
  \<^verbatim>\<open>internal/repair/read_repair.go\<close>: which respondents of a read are behind the winner.
  \<^verbatim>\<open>PushWinner\<close> only forwards to the transport, which is an argument here.
\<close>

fun stale_loop :: "ReplicaView list \<Rightarrow> Value \<Rightarrow> string list \<Rightarrow> string list" where
  "stale_loop [] winner stale = stale"
| "stale_loop (v # vs) winner stale =
     (if \<not> rvFound v then stale_loop vs winner (stale @ [rvNodeID v])
      else if \<not> Value_Equal (rvValue v) winner then stale_loop vs winner (stale @ [rvNodeID v])
      else stale_loop vs winner stale)"

definition StaleAmong :: "ReplicaView list \<Rightarrow> Value \<Rightarrow> string list" where
  "StaleAmong views winner = stale_loop views winner []"

definition NeedsRepair :: "ReplicaView list \<Rightarrow> Value \<Rightarrow> bool" where
  "NeedsRepair views winner \<longleftrightarrow> \<not> Agreed views winner"

definition PushWinner ::
  "(string \<Rightarrow> string \<Rightarrow> Value \<Rightarrow> 's \<Rightarrow> 'e option \<times> 's) \<Rightarrow> string \<Rightarrow> string \<Rightarrow> Value \<Rightarrow> 's \<Rightarrow> 'e option \<times> 's" where
  "PushWinner replicateWrite dest key winner s = replicateWrite dest key winner s"

lemma stale_loop_filter:
  "stale_loop vs winner stale =
    stale @ map rvNodeID (filter (\<lambda>v. \<not> (rvFound v \<and> Value_Equal (rvValue v) winner)) vs)"
  by (induction vs winner stale rule: stale_loop.induct) auto

lemma StaleAmong_filter:
  "StaleAmong vs winner = map rvNodeID (filter (\<lambda>v. \<not> (rvFound v \<and> Value_Equal (rvValue v) winner)) vs)"
  by (simp add: StaleAmong_def stale_loop_filter)

section \<open>Properties\<close>

text \<open>The two tests of a read do not match: a respondent is stale when it lacks the winner or has no
  value at all, while agreement looks only at the respondents that have a value. So when some respondent
  has the winner, repair is called for exactly when a respondent holds a different value, and a
  respondent that missed the write altogether, although listed as stale, does not bring it about.\<close>

theorem stale_vs_agreed:
  assumes "\<exists>v \<in> set vs. rvFound v \<and> Value_Equal (rvValue v) winner"
  shows "(NeedsRepair vs winner \<longleftrightarrow> (\<exists>v \<in> set vs. rvFound v \<and> \<not> Value_Equal (rvValue v) winner)) \<and>
    StaleAmong vs winner = map rvNodeID (filter (\<lambda>v. \<not> rvFound v \<or> \<not> Value_Equal (rvValue v) winner) vs) \<and>
    (NeedsRepair vs winner \<longrightarrow> StaleAmong vs winner \<noteq> [])"
proof -
  have "set (found_values vs) = rvValue ` {v \<in> set vs. rvFound v}" by (auto simp: found_values_def)
  moreover from this have "found_values vs \<noteq> []" using assms by force
  ultimately have "NeedsRepair vs winner \<longleftrightarrow> (\<exists>v \<in> set vs. rvFound v \<and> \<not> Value_Equal (rvValue v) winner)"
    by (auto simp: NeedsRepair_def Agreed_iff)
  then show ?thesis by (auto simp: StaleAmong_filter filter_empty_conv)
qed

theorem stale_vs_agreed_witness:
  "let w = zero_Value\<lparr>Version := \<lparr>Lamport = 1, NodeID = ''A''\<rparr>\<rparr>;
       vs = [\<lparr>rvNodeID = ''A'', rvValue = w, rvFound = True\<rparr>, \<lparr>rvNodeID = ''B'', rvValue = zero_Value, rvFound = False\<rparr>]
   in \<not> NeedsRepair vs w \<and> StaleAmong vs w = [''B'']"
  using stale_vs_agreed [of
    "[\<lparr>rvNodeID = ''A'', rvValue = zero_Value\<lparr>Version := \<lparr>Lamport = 1, NodeID = ''A''\<rparr>\<rparr>, rvFound = True\<rparr>,
      \<lparr>rvNodeID = ''B'', rvValue = zero_Value, rvFound = False\<rparr>]" "zero_Value\<lparr>Version := \<lparr>Lamport = 1, NodeID = ''A''\<rparr>\<rparr>"]
  by (simp add: Let_def)

end
