(* ===== verification/Hinted_Handoff.thy ===== *)
theory Hinted_Handoff
  imports Types
begin

text \<open>
  \<^verbatim>\<open>internal/repair/hinted_handoff.go\<close>: writes kept for members that could not be reached, one
  first-in first-out list per target. \<open>hint_queue\<close> is the interface the coordinator relies on; it is
  interpreted on the operations of the file.
\<close>

record Hint =
  hintTarget :: string
  hintKey :: string
  hintValue :: Value

record Hints =
  hints_m :: "(string, Hint list) fmap"

definition NewHints :: Hints where
  "NewHints = \<lparr>hints_m = fmempty\<rparr>"

abbreviation hint_list :: "Hints \<Rightarrow> string \<Rightarrow> Hint list" where
  "hint_list h target \<equiv> (case fmlookup (hints_m h) target of None \<Rightarrow> [] | Some hs \<Rightarrow> hs)"

definition Hints_Store :: "Hints \<Rightarrow> string \<Rightarrow> string \<Rightarrow> Value \<Rightarrow> Hints" where
  "Hints_Store h target key val =
     h\<lparr>hints_m := fmupd target
         (hint_list h target @ [\<lparr>hintTarget = target, hintKey = key, hintValue = Clone val\<rparr>]) (hints_m h)\<rparr>"

definition Hints_Take :: "Hints \<Rightarrow> string \<Rightarrow> Hint list \<times> Hints" where
  "Hints_Take h target = (let out = hint_list h target in (out, h\<lparr>hints_m := fmdrop target (hints_m h)\<rparr>))"

definition Peek :: "Hints \<Rightarrow> string \<Rightarrow> Hint list" where
  "Peek h target = hint_list h target"

definition Count :: "Hints \<Rightarrow> nat" where
  "Count h = foldl (\<lambda>n (_, hs). n + length hs) 0 (sorted_list_of_fmap (hints_m h))"

definition Targets :: "Hints \<Rightarrow> string list" where
  "Targets h = map fst (sorted_list_of_fmap (hints_m h))"

section \<open>The interface\<close>

locale hint_queue =
  fixes peek :: "'s \<Rightarrow> string \<Rightarrow> Hint list"
    and store :: "'s \<Rightarrow> string \<Rightarrow> string \<Rightarrow> Value \<Rightarrow> 's"
    and take_all :: "'s \<Rightarrow> string \<Rightarrow> Hint list \<times> 's"
  assumes peek_store: "peek (store h t k v) t' =
      (if t' = t then peek h t @ [\<lparr>hintTarget = t, hintKey = k, hintValue = Clone v\<rparr>] else peek h t')"
    and take_fst: "fst (take_all h t) = peek h t"
    and peek_take: "peek (snd (take_all h t)) t' = (if t' = t then [] else peek h t')"
begin

definition store_all :: "'s \<Rightarrow> string \<Rightarrow> (string \<times> Value) list \<Rightarrow> 's" where
  "store_all h t kvs = foldl (\<lambda>h (k, v). store h t k v) h kvs"

lemma peek_store_all:
  "peek (store_all h t kvs) t' =
    peek h t' @ (if t' = t then map (\<lambda>(k, v). \<lparr>hintTarget = t, hintKey = k, hintValue = Clone v\<rparr>) kvs else [])"
  by (induction kvs arbitrary: h) (auto simp: store_all_def peek_store)

text \<open>First in, first out, and nothing is left behind.\<close>

lemma take_store_all:
  "peek h t = [] \<Longrightarrow>
    fst (take_all (store_all h t kvs) t) = map (\<lambda>(k, v). \<lparr>hintTarget = t, hintKey = k, hintValue = Clone v\<rparr>) kvs \<and>
    peek (snd (take_all (store_all h t kvs) t)) t = []"
  by (simp add: take_fst peek_take peek_store_all)

end

interpretation hints: hint_queue Peek Hints_Store Hints_Take
  by unfold_locales (simp_all add: Peek_def Hints_Store_def Hints_Take_def Let_def)

section \<open>Counting\<close>

lemma foldl_plus_sum: "foldl (\<lambda>n x. n + f x) (a :: nat) xs = a + sum_list (map f xs)"
  by (induction xs arbitrary: a) simp_all

lemma Count_sum: "Count h = (\<Sum>t \<in> fset (fmdom (hints_m h)). length (Peek h t))"
proof -
  let ?l = "sorted_list_of_fmap (hints_m h)"
  have "Count h = sum_list (map (\<lambda>(_, hs). length hs) ?l)"
    using foldl_plus_sum [of "\<lambda>(_, hs). length hs" 0 ?l] by (simp add: Count_def case_prod_unfold)
  also have "\<dots> = sum_list (map (\<lambda>t. length (Peek h t)) (map fst ?l))"
  proof -
    have "(case x of (_, hs) \<Rightarrow> length hs) = length (Peek h (fst x))" if "x \<in> set ?l" for x
      using that in_sorted_list_of_fmap [of "fst x" "snd x"] by (simp add: Peek_def case_prod_unfold)
    then show ?thesis by (simp add: o_def cong: map_cong)
  qed
  also have "\<dots> = (\<Sum>t \<in> set (map fst ?l). length (Peek h t))"
    by (rule sum_list_distinct_conv_sum_set) simp
  finally show ?thesis by (simp only: keys_sorted_list_of_fmap fmdom'_alt_def)
qed

lemma Targets_set: "set (Targets h) = fset (fmdom (hints_m h))"
  by (simp only: Targets_def keys_sorted_list_of_fmap fmdom'_alt_def)

section \<open>Properties\<close>

text \<open>Hints for a target come back complete and in the order stored, each with its value cloned; taking
  them empties that target's list only, so a second take returns nothing, and the count drops by as many
  hints as were returned.\<close>

theorem hints_fifo:
  fixes kvs :: "(string \<times> Value) list"
  assumes "Peek h t = []"
  defines "h' \<equiv> foldl (\<lambda>h (k, v). Hints_Store h t k v) h kvs"
  shows "fst (Hints_Take h' t) = map (\<lambda>(k, v). \<lparr>hintTarget = t, hintKey = k, hintValue = Clone v\<rparr>) kvs \<and>
    fst (Hints_Take (snd (Hints_Take h' t)) t) = [] \<and>
    (\<forall>t'. t' \<noteq> t \<longrightarrow> Peek (snd (Hints_Take h' t)) t' = Peek h t') \<and>
    Count h' = Count (snd (Hints_Take h' t)) + length (fst (Hints_Take h' t))"
proof -
  have h': "h' = hints.store_all h t kvs" by (simp add: h'_def hints.store_all_def)
  have "Count h' = Count (snd (Hints_Take h' t)) + length (Peek h' t)"
  proof -
    let ?D = "fset (fmdom (hints_m h'))"
    have "(\<Sum>x \<in> ?D. length (Peek h' x)) = (\<Sum>x \<in> ?D - {t}. length (Peek h' x)) + length (Peek h' t)"
    proof (cases "t \<in> ?D")
      case True
      then show ?thesis by (simp add: sum.remove)
    next
      case False
      then have "Peek h' t = []" by (simp add: Peek_def fmdom_notD)
      then show ?thesis using False by simp
    qed
    moreover have "(\<Sum>x \<in> ?D - {t}. length (Peek h' x)) = Count (snd (Hints_Take h' t))"
      by (simp add: Count_sum hints.peek_take) (simp add: Hints_Take_def)
    ultimately show ?thesis by (simp add: Count_sum [of h'])
  qed
  then show ?thesis
    using hints.take_store_all [OF assms(1), of kvs]
    by (simp add: h' hints.take_fst hints.peek_take hints.peek_store_all)
qed

theorem hints_fifo_witness:
  "fst (Hints_Take (foldl (\<lambda>h (k, v). Hints_Store h ''C'' k v) NewHints [(''k'', zero_Value), (''j'', zero_Value)]) ''C'') =
   [\<lparr>hintTarget = ''C'', hintKey = ''k'', hintValue = zero_Value\<rparr>, \<lparr>hintTarget = ''C'', hintKey = ''j'', hintValue = zero_Value\<rparr>]"
  using hints_fifo [of NewHints "''C''" "[(''k'', zero_Value), (''j'', zero_Value)]"]
  by (simp add: NewHints_def Peek_def Clone_def)

end
