(* ===== verification/Membership.thy ===== *)
theory Membership
  imports Go_Text "HOL-Library.Sublist"
begin

text \<open>
  \<^verbatim>\<open>internal/cluster/membership.go\<close>: the static list of cluster members and the quorum
  arithmetic. The parts of \<^verbatim>\<open>strings\<close> it uses are written out: \<^verbatim>\<open>TrimSpace\<close> (the Unicode
  spaces, as byte sequences), \<^verbatim>\<open>Split\<close> on a comma and \<^verbatim>\<open>Cut\<close> at an equals sign.
  \<^verbatim>\<open>ParsePeers\<close> drops the half-built membership that Go returns beside an error, which its caller ignores.
\<close>

section \<open>The string functions\<close>

definition space_runes :: "string list" where
  "space_runes =
     [[CHR 0x09], [CHR 0x0A], [CHR 0x0B], [CHR 0x0C], [CHR 0x0D], [CHR 0x20],
      [CHR 0xC2, CHR 0x85], [CHR 0xC2, CHR 0xA0], [CHR 0xE1, CHR 0x9A, CHR 0x80]]
     @ map (\<lambda>c. [CHR 0xE2, CHR 0x80, c])
         [CHR 0x80, CHR 0x81, CHR 0x82, CHR 0x83, CHR 0x84, CHR 0x85, CHR 0x86, CHR 0x87, CHR 0x88, CHR 0x89,
          CHR 0x8A, CHR 0xA8, CHR 0xA9, CHR 0xAF]
     @ [[CHR 0xE2, CHR 0x81, CHR 0x9F], [CHR 0xE3, CHR 0x80, CHR 0x80]]"

function trim_by :: "string list \<Rightarrow> string \<Rightarrow> string" where
  "trim_by pats s =
     (case find (\<lambda>p. p \<noteq> [] \<and> prefix p s) pats of
        None \<Rightarrow> s
      | Some p \<Rightarrow> trim_by pats (drop (length p) s))"
  by pat_completeness auto
termination
proof (relation "measure (\<lambda>(_, s). length s)")
  fix pats s p
  assume "find (\<lambda>p. p \<noteq> [] \<and> prefix p s) pats = Some p"
  then have "p \<noteq> []" "prefix p s" by (auto simp: find_Some_iff)
  then show "((pats, drop (length p) s), pats, s) \<in> measure (\<lambda>(_, s). length s)"
    by (cases s) (auto simp: prefix_def)
qed simp

declare trim_by.simps [simp del]

definition TrimSpace :: "string \<Rightarrow> string" where
  "TrimSpace s = rev (trim_by (map rev space_runes) (rev (trim_by space_runes s)))"

fun Split :: "char \<Rightarrow> string \<Rightarrow> string list" where
  "Split sep [] = [[]]"
| "Split sep (c # s) =
     (if c = sep then [] # Split sep s
      else (case Split sep s of [] \<Rightarrow> [[c]] | p # ps \<Rightarrow> (c # p) # ps))"

definition Cut :: "char \<Rightarrow> string \<Rightarrow> string \<times> string \<times> bool" where
  "Cut sep s =
     (if sep \<in> set s then (takeWhile (\<lambda>c. c \<noteq> sep) s, tl (dropWhile (\<lambda>c. c \<noteq> sep) s), True)
      else (s, [], False))"

section \<open>Peers\<close>

record Peer =
  peerID :: string
  peerAddr :: string

record Membership =
  Self :: string
  Peers :: "Peer list"

datatype peers_error = EmptyPeerID string

definition parse_peer :: "string \<Rightarrow> Peer" where
  "parse_peer part =
     (let (i, addr, ok) = Cut (CHR ''='') part;
          p = \<lparr>peerID = TrimSpace i, peerAddr = ''''\<rparr>
      in if ok then p\<lparr>peerAddr := TrimSpace addr\<rparr> else p\<lparr>peerID := part\<rparr>)"

fun parse_loop ::
  "string \<Rightarrow> string list \<Rightarrow> string list \<Rightarrow> Membership \<Rightarrow> peers_error + string list \<times> Membership" where
  "parse_loop spec [] seen m = Inr (seen, m)"
| "parse_loop spec (raw # parts) seen m =
     (let part = TrimSpace raw in
      if part = '''' then parse_loop spec parts seen m
      else
        (let p = parse_peer part in
         if peerID p = '''' then Inl (EmptyPeerID spec)
         else if peerID p \<in> set seen then parse_loop spec parts seen m
         else parse_loop spec parts (peerID p # seen) (m\<lparr>Peers := Peers m @ [p]\<rparr>)))"

definition ParsePeers :: "string \<Rightarrow> string \<Rightarrow> peers_error + Membership" where
  "ParsePeers self spec =
     (let m = \<lparr>Self = self, Peers = []\<rparr> in
      if TrimSpace spec = '''' then Inr (m\<lparr>Peers := [\<lparr>peerID = self, peerAddr = ''''\<rparr>]\<rparr>)
      else
        (case parse_loop spec (Split (CHR '','') spec) [] m of
           Inl e \<Rightarrow> Inl e
         | Inr (seen, m) \<Rightarrow>
             (let m = (if self \<notin> set seen then m\<lparr>Peers := Peers m @ [\<lparr>peerID = self, peerAddr = ''''\<rparr>]\<rparr> else m)
              in Inr (m\<lparr>Peers := sort_key peerID (Peers m)\<rparr>))))"

definition N :: "Membership \<Rightarrow> int" where
  "N m = int (length (Peers m))"

definition IDs :: "Membership \<Rightarrow> string list" where
  "IDs m = map peerID (Peers m)"

fun addr_loop :: "Peer list \<Rightarrow> string \<Rightarrow> string" where
  "addr_loop [] i = ''''"
| "addr_loop (p # ps) i = (if peerID p = i then peerAddr p else addr_loop ps i)"

definition Addr :: "Membership \<Rightarrow> string \<Rightarrow> string" where
  "Addr m i = addr_loop (Peers m) i"

definition Others :: "Membership \<Rightarrow> Peer list" where
  "Others m = filter (\<lambda>p. peerID p \<noteq> Self m) (Peers m)"

definition QuorumOK :: "int \<Rightarrow> int \<Rightarrow> bool" where
  "QuorumOK got required \<longleftrightarrow> required > 0 \<and> got \<ge> required"

definition WriteFails :: "int \<Rightarrow> int \<Rightarrow> int \<Rightarrow> bool" where
  "WriteFails n w unreachable \<longleftrightarrow> n - unreachable < w"

section \<open>What parsing makes\<close>

definition wf_membership :: "Membership \<Rightarrow> bool" where
  "wf_membership m \<longleftrightarrow> Self m \<in> set (IDs m) \<and> sorted (IDs m) \<and> distinct (IDs m)"

lemma Others_complement:
  assumes "wf_membership m"
  shows "set (map peerID (Others m)) = set (IDs m) - {Self m}" "distinct (map peerID (Others m))"
    "N m = 1 + int (length (Others m))"
proof -
  show s: "set (map peerID (Others m)) = set (IDs m) - {Self m}" by (auto simp: Others_def IDs_def)
  show d: "distinct (map peerID (Others m))"
    using assms by (simp add: wf_membership_def IDs_def Others_def distinct_map_filter)
  have "length (Others m) = card (set (IDs m) - {Self m})" using distinct_card [OF d] s by simp
  also have "\<dots> = length (Peers m) - 1"
    using assms distinct_card [of "IDs m"] by (simp add: wf_membership_def IDs_def)
  finally show "N m = 1 + int (length (Others m))"
    using assms by (cases "Peers m") (auto simp: N_def wf_membership_def IDs_def)
qed

lemma parse_loop_inv:
  assumes "parse_loop spec parts seen m = Inr (seen', m')"
    and "set seen = set (IDs m)" "distinct (IDs m)" "'''' \<notin> set (IDs m)"
  shows "set seen' = set (IDs m') \<and> distinct (IDs m') \<and> '''' \<notin> set (IDs m') \<and> Self m' = Self m \<and>
    (\<exists>ps. Peers m' = Peers m @ ps \<and> set ps \<subseteq> {parse_peer (TrimSpace raw) | raw. raw \<in> set parts})"
  using assms
proof (induction parts arbitrary: seen m)
  case (Cons raw parts)
  let ?p = "parse_peer (TrimSpace raw)"
  have mono: "{parse_peer (TrimSpace x) | x. x \<in> set parts} \<subseteq> {parse_peer (TrimSpace x) | x. x \<in> set (raw # parts)}"
    by auto
  show ?case
  proof (cases "TrimSpace raw = [] \<or> peerID ?p \<in> set seen")
    case True
    then have "parse_loop spec parts seen m = Inr (seen', m')"
      using Cons.prems(1) by (auto simp: Let_def split: if_splits)
    from Cons.IH [OF this Cons.prems(2-4)] show ?thesis using mono by fast
  next
    case False
    let ?m = "m\<lparr>Peers := Peers m @ [?p]\<rparr>"
    have ne: "peerID ?p \<noteq> []" and p: "parse_loop spec parts (peerID ?p # seen) ?m = Inr (seen', m')"
      using Cons.prems(1) False by (auto simp: Let_def split: if_splits)
    have "set (peerID ?p # seen) = set (IDs ?m)" "distinct (IDs ?m)" "[] \<notin> set (IDs ?m)"
      using Cons.prems False ne by (auto simp: IDs_def)
    from Cons.IH [OF p this] obtain ps where
      "set seen' = set (IDs m') \<and> distinct (IDs m') \<and> [] \<notin> set (IDs m') \<and> Self m' = Self m"
      "Peers m' = Peers m @ ?p # ps" "set ps \<subseteq> {parse_peer (TrimSpace x) | x. x \<in> set parts}" by auto
    then show ?thesis using mono by (intro conjI exI [of _ "?p # ps"]) auto
  qed
qed auto

lemma sorted_ids: "sorted (map peerID (sort_key peerID ps))"
  by (rule sorted_sort_key)

lemma distinct_ids_sort: "distinct (map peerID (sort_key peerID ps)) \<longleftrightarrow> distinct (map peerID ps)"
  by (simp add: distinct_map)

lemma ParsePeers_member:
  assumes "ParsePeers self spec = Inr m"
  shows "Self m = self \<and> wf_membership m \<and> ('''' \<in> set (IDs m) \<longrightarrow> self = '''')"
proof (cases "TrimSpace spec = ''''")
  case True
  then show ?thesis using assms by (auto simp: ParsePeers_def wf_membership_def IDs_def)
next
  case False
  then obtain seen m1 where p: "parse_loop spec (Split (CHR '','') spec) [] \<lparr>Self = self, Peers = []\<rparr> = Inr (seen, m1)"
    using assms by (auto simp: ParsePeers_def Let_def split: sum.splits)
  let ?ps = "if self \<notin> set seen then Peers m1 @ [\<lparr>peerID = self, peerAddr = ''''\<rparr>] else Peers m1"
  have m: "m = m1\<lparr>Peers := sort_key peerID ?ps\<rparr>"
    using assms False p by (auto simp: ParsePeers_def Let_def)
  show ?thesis
    using parse_loop_inv [OF p] sorted_ids [of ?ps]
    by (auto simp: m wf_membership_def IDs_def distinct_ids_sort image_iff)
qed

text \<open>C32. A parsed peer list is well formed: ids are sorted and distinct, the node itself is a member, no
  other member has an empty id, and \<^verbatim>\<open>Others\<close> are exactly the remaining \<open>N - 1\<close> members.\<close>

theorem ParsePeers_wf:
  assumes "ParsePeers self spec = Inr m"
  shows "Self m = self \<and> self \<in> set (IDs m) \<and> sorted (IDs m) \<and> distinct (IDs m) \<and>
    ('''' \<in> set (IDs m) \<longrightarrow> self = '''') \<and>
    set (map peerID (Others m)) = set (IDs m) - {self} \<and> N m = 1 + int (length (Others m))"
  using ParsePeers_member [OF assms] Others_complement [of m] by (auto simp: wf_membership_def)

theorem ParsePeers_wf_witness:
  "IDs (projr (ParsePeers ''B'' ''C=h:3, A=h:1,B=h:2'')) = [''A'', ''B'', ''C''] \<and>
   N (projr (ParsePeers ''B'' ''C=h:3, A=h:1,B=h:2'')) = 1 + 2"
proof -
  have "ParsePeers ''B'' ''C=h:3, A=h:1,B=h:2'' = Inr \<lparr>Self = ''B'', Peers =
    [\<lparr>peerID = ''A'', peerAddr = ''h:1''\<rparr>, \<lparr>peerID = ''B'', peerAddr = ''h:2''\<rparr>, \<lparr>peerID = ''C'', peerAddr = ''h:3''\<rparr>]\<rparr>"
    by code_simp
  note m = this
  from ParsePeers_wf [OF m] show ?thesis by (simp add: m IDs_def Others_def)
qed

section \<open>Printing a peer list\<close>

definition peer_text :: "Peer \<Rightarrow> string" where
  "peer_text p = peerID p @ ''='' @ peerAddr p"

fun peers_text :: "Peer list \<Rightarrow> string" where
  "peers_text [] = ''''"
| "peers_text [p] = peer_text p"
| "peers_text (p # q # ps) = peer_text p @ '','' @ peers_text (q # ps)"

text \<open>No space at either end and no comma.\<close>

definition clean :: "string \<Rightarrow> bool" where
  "clean s \<longleftrightarrow> CHR '','' \<notin> set s \<and> (\<forall>p \<in> set space_runes. \<not> prefix p s \<and> \<not> suffix p s)"

lemma space_runes_no_sep: "p \<in> set space_runes \<Longrightarrow> CHR ''='' \<notin> set p \<and> CHR '','' \<notin> set p \<and> p \<noteq> []"
  by (auto simp: space_runes_def)

lemma TrimSpace_fixed:
  assumes "\<forall>p \<in> set space_runes. \<not> prefix p s \<and> \<not> suffix p s"
  shows "TrimSpace s = s"
proof -
  have "trim_by space_runes s = s" using assms by (subst trim_by.simps) (auto simp: find_None_iff split: option.splits dest: find_Some_iff [THEN iffD1])
  moreover have "trim_by (map rev space_runes) (rev s) = rev s"
    using assms by (subst trim_by.simps)
      (force simp: find_None_iff suffix_to_prefix split: option.splits dest: find_Some_iff [THEN iffD1])
  ultimately show ?thesis by (simp add: TrimSpace_def)
qed

lemma prefix_before_sep: "prefix p (s @ c # t) \<Longrightarrow> c \<notin> set p \<Longrightarrow> prefix p s"
  by (induction s arbitrary: p) (auto simp: prefix_Cons)

lemma suffix_after_sep: "suffix p (s @ c # t) \<Longrightarrow> c \<notin> set p \<Longrightarrow> suffix p t"
  using prefix_before_sep [of "rev p" "rev t" c "rev s"] by (simp add: suffix_to_prefix)

lemma TrimSpace_joined:
  assumes "clean a" "clean b" "c \<in> {CHR ''='', CHR '',''}" "d \<in> {CHR ''='', CHR '',''}"
  shows "TrimSpace (a @ c # b) = a @ c # b" "TrimSpace (a @ c # t @ d # b) = a @ c # t @ d # b"
proof -
  have n: "\<not> prefix p (a @ c # t) \<and> \<not> suffix p (t @ d # b)" "c \<notin> set p" "d \<notin> set p"
    if "p \<in> set space_runes" for p t
    using assms space_runes_no_sep [OF that] that prefix_before_sep [of p a c t] suffix_after_sep [of p t d b]
    by (auto simp: clean_def)
  show "TrimSpace (a @ c # b) = a @ c # b"
    using n(1) [of _ b] n(2) suffix_after_sep [of _ a c b] assms(2) by (intro TrimSpace_fixed) (auto simp: clean_def)
  show "TrimSpace (a @ c # t @ d # b) = a @ c # t @ d # b"
    using n(1) [of _ "t @ d # b"] n(1) [of _ "a @ c # t"] by (intro TrimSpace_fixed) simp
qed

lemma Split_plain: "sep \<notin> set s \<Longrightarrow> Split sep s = [s]"
  by (induction s) auto

lemma Split_sep: "sep \<notin> set s \<Longrightarrow> Split sep (s @ sep # t) = s # Split sep t"
  by (induction s) auto

lemma Split_peers_text:
  "ps \<noteq> [] \<Longrightarrow> \<forall>p \<in> set ps. CHR '','' \<notin> set (peer_text p) \<Longrightarrow> Split (CHR '','') (peers_text ps) = map peer_text ps"
  by (induction ps rule: peers_text.induct) (auto simp: Split_plain Split_sep)

definition good_peer :: "Peer \<Rightarrow> bool" where
  "good_peer p \<longleftrightarrow> peerID p \<noteq> '''' \<and> CHR ''='' \<notin> set (peerID p) \<and> clean (peerID p) \<and> clean (peerAddr p)"

lemma parse_peer_text: "good_peer p \<Longrightarrow> TrimSpace (peer_text p) = peer_text p \<and> parse_peer (peer_text p) = p"
proof -
  assume g: "good_peer p"
  have "takeWhile (\<lambda>c. c \<noteq> CHR ''='') (peer_text p) = peerID p"
    "dropWhile (\<lambda>c. c \<noteq> CHR ''='') (peer_text p) = CHR ''='' # peerAddr p"
    using g by (simp_all add: peer_text_def good_peer_def takeWhile_sep dropWhile_sep)
  then show ?thesis
    using g TrimSpace_fixed [of "peerID p"] TrimSpace_fixed [of "peerAddr p"]
      TrimSpace_joined(1) [of "peerID p" "peerAddr p" "CHR ''=''"]
    by (auto simp: parse_peer_def Cut_def peer_text_def good_peer_def clean_def)
qed

lemma parse_loop_texts:
  "\<forall>p \<in> set ps. good_peer p \<Longrightarrow> distinct (map peerID ps) \<Longrightarrow> set seen \<inter> set (map peerID ps) = {} \<Longrightarrow>
    parse_loop spec (map peer_text ps) seen m = Inr (rev (map peerID ps) @ seen, m\<lparr>Peers := Peers m @ ps\<rparr>)"
proof (induction ps arbitrary: seen m)
  case (Cons p ps)
  then have "TrimSpace (peer_text p) = peer_text p" "parse_peer (peer_text p) = p" "peerID p \<noteq> ''''" "peer_text p \<noteq> ''''"
    using parse_peer_text by (auto simp: good_peer_def peer_text_def)
  then show ?case using Cons by auto
qed simp

lemma peers_text_shape:
  "ps \<noteq> [] \<Longrightarrow> TrimSpace (peers_text ps) = peers_text ps" if "\<forall>p \<in> set ps. good_peer p"
proof -
  assume ne: "ps \<noteq> []"
  have first: "\<exists>t. peers_text ps = peerID (hd ps) @ CHR ''='' # t"
    using ne by (cases ps rule: peers_text.cases) (auto simp: peer_text_def)
  have last: "\<exists>t. peers_text ps = t @ CHR ''='' # peerAddr (last ps)"
    using ne
  proof (induction ps rule: peers_text.induct)
    case (3 p q ps)
    then obtain t where "peers_text (q # ps) = t @ CHR ''='' # peerAddr (last (q # ps))" by auto
    then show ?case by (intro exI [of _ "peer_text p @ CHR '','' # t"]) simp
  qed (simp_all add: peer_text_def)
  have c: "clean (peerID (hd ps))" "clean (peerAddr (last ps))" using that ne by (auto simp: good_peer_def)
  show ?thesis
  proof (rule TrimSpace_fixed, intro ballI conjI)
    fix p assume p: "p \<in> set space_runes"
    show "\<not> prefix p (peers_text ps)"
      using first c(1) p prefix_before_sep space_runes_no_sep [OF p] unfolding clean_def by metis
    show "\<not> suffix p (peers_text ps)"
      using last c(2) p suffix_after_sep space_runes_no_sep [OF p] unfolding clean_def by metis
  qed
qed

text \<open>C31. Writing a list of peers as \<^verbatim>\<open>id=addr,id=addr\<close> and parsing it gives the peers back, sorted by
  id, when the ids are distinct and include the node itself, and ids and addresses hold no separator and
  no surrounding space.\<close>

theorem ParsePeers_roundtrip:
  assumes "ps \<noteq> []" "\<forall>p \<in> set ps. good_peer p" "distinct (map peerID ps)" "self \<in> peerID ` set ps"
  shows "ParsePeers self (peers_text ps) = Inr \<lparr>Self = self, Peers = sort_key peerID ps\<rparr>"
proof -
  have "peers_text ps \<noteq> ''''"
    using assms(1) by (cases ps rule: peers_text.cases) (auto simp: peer_text_def)
  moreover have "Split (CHR '','') (peers_text ps) = map peer_text ps"
    using assms(1,2) by (intro Split_peers_text) (auto simp: good_peer_def clean_def peer_text_def)
  ultimately show ?thesis
    using assms parse_loop_texts [of ps "[]" "peers_text ps"] peers_text_shape [OF assms(2,1)]
    by (auto simp: ParsePeers_def Let_def)
qed

theorem ParsePeers_roundtrip_witness:
  "ParsePeers ''A'' (peers_text [\<lparr>peerID = ''B'', peerAddr = ''h:2''\<rparr>, \<lparr>peerID = ''A'', peerAddr = ''h:1''\<rparr>]) =
     Inr \<lparr>Self = ''A'', Peers = [\<lparr>peerID = ''A'', peerAddr = ''h:1''\<rparr>, \<lparr>peerID = ''B'', peerAddr = ''h:2''\<rparr>]\<rparr>"
proof -
  let ?ps = "[\<lparr>peerID = ''B'', peerAddr = ''h:2''\<rparr>, \<lparr>peerID = ''A'', peerAddr = ''h:1''\<rparr>]"
  have "\<forall>p \<in> set ?ps. good_peer p"
    by (simp add: good_peer_def clean_def space_runes_def suffix_to_prefix)
  moreover have "sort_key peerID ?ps = [\<lparr>peerID = ''A'', peerAddr = ''h:1''\<rparr>, \<lparr>peerID = ''B'', peerAddr = ''h:2''\<rparr>]"
    by code_simp
  ultimately show ?thesis using ParsePeers_roundtrip [of ?ps "''A''"] by simp
qed

lemma quorums_meet:
  assumes "distinct (IDs m)" "A \<subseteq> set (IDs m)" "B \<subseteq> set (IDs m)" "int (card A) + int (card B) > N m"
  shows "A \<inter> B \<noteq> {}"
proof -
  have "finite (set (IDs m))" "card (set (IDs m)) = length (Peers m)"
    using assms(1) distinct_card [of "IDs m"] by (simp_all add: IDs_def)
  then have "card (A \<union> B) \<le> length (Peers m)" "finite A" "finite B"
    using assms(2,3) card_mono [of "set (IDs m)" "A \<union> B"] finite_subset by auto
  moreover have "card A + card B > length (Peers m)" using assms(4) by (simp add: N_def)
  ultimately show ?thesis using card_Un_disjoint [of A B] by fastforce
qed

text \<open>The reason for \<open>R + W > N\<close>: any set of members that acknowledged a write with enough answers and any
  set that answered a read with enough answers share a member; and a write is bound to fail
  (\<^verbatim>\<open>WriteFails\<close>) exactly when the members still reachable cannot satisfy \<^verbatim>\<open>QuorumOK\<close>.\<close>

theorem quorum_overlap:
  assumes "distinct (IDs m)" "A \<subseteq> set (IDs m)" "B \<subseteq> set (IDs m)"
    and "QuorumOK (int (card A)) w" "QuorumOK (int (card B)) r" "r + w > N m"
  shows "A \<inter> B \<noteq> {} \<and> (\<forall>k \<ge> 0. WriteFails (N m) w k \<longleftrightarrow> \<not> QuorumOK (N m - k) w)"
proof -
  have "A \<inter> B \<noteq> {}" using assms by (intro quorums_meet) (auto simp: QuorumOK_def)
  then show ?thesis using assms(4) by (auto simp: WriteFails_def QuorumOK_def)
qed

theorem quorum_overlap_witness:
  "{''A'', ''B''} \<inter> {''B'', ''C''} \<noteq> ({} :: string set) \<and>
   WriteFails 3 2 2 = (\<not> QuorumOK (3 - 2) 2)"
proof -
  let ?m = "\<lparr>Self = ''A'', Peers = map (\<lambda>i. \<lparr>peerID = i, peerAddr = ''''\<rparr>) [''A'', ''B'', ''C'']\<rparr>"
  show ?thesis
    using quorum_overlap [of ?m "{''A'', ''B''}" "{''B'', ''C''}" 2 2] by (simp add: IDs_def QuorumOK_def N_def)
qed

end
