(* ===== verification/Fault_Net.thy ===== *)
theory Fault_Net
  imports Types
begin

text \<open>
  \<^verbatim>\<open>internal/net/faultnet.go\<close>: the in-process network with injected faults. Go's generator
  \<^verbatim>\<open>rand.New(rand.NewSource(seed))\<close> is an argument: the sequence of numbers in [0,1) it will draw; a
  probability is a rational. A handler is a reference to the node that serves it, and the state of the
  nodes is passed along by the endpoint operations as \<open>'s\<close>. A send hook is a function on the fault
  table. Whether a context expires while a delayed message sleeps is an argument of the operations. Go's
  zero values for missing map entries are written out.
\<close>

type_synonym link = "string \<times> string"

record Faults =
  n_rng :: "nat \<Rightarrow> rat"
  n_seed :: int
  n_group :: "(string, int) fmap"
  n_isolated :: "(string, bool) fmap"
  n_drop :: "(link, rat) fmap"
  n_delay :: "(link, int) fmap"
  n_handlers :: "(string, string) fmap"
  n_seq :: int
  n_failAfter :: "(string, int) fmap"
  n_failCount :: "(string, int) fmap"

type_synonym SendHook = "string \<Rightarrow> string \<Rightarrow> int \<Rightarrow> Faults \<Rightarrow> Faults"

record Network =
  faults :: Faults
  n_hook :: "SendHook option"

datatype 'e rpc_error = ErrUnreachable | ErrContext | ErrHandler 'e

definition entry :: "('k, 'v) fmap \<Rightarrow> 'k \<Rightarrow> 'v \<Rightarrow> 'v" where
  "entry m k zero = (case fmlookup m k of None \<Rightarrow> zero | Some v \<Rightarrow> v)"

definition NewFaultNet :: "(int \<Rightarrow> nat \<Rightarrow> rat) \<Rightarrow> int \<Rightarrow> Network" where
  "NewFaultNet source seed =
     (let seed = (if seed = 0 then 1 else seed) in
      \<lparr>faults =
         \<lparr>n_rng = source seed, n_seed = seed, n_group = fmempty, n_isolated = fmempty, n_drop = fmempty,
          n_delay = fmempty, n_handlers = fmempty, n_seq = 0, n_failAfter = fmempty, n_failCount = fmempty\<rparr>,
       n_hook = None\<rparr>)"

definition Seed :: "Faults \<Rightarrow> int" where
  "Seed n = n_seed n"

definition Register :: "Faults \<Rightarrow> string \<Rightarrow> string \<Rightarrow> Faults" where
  "Register n i h = n\<lparr>n_handlers := fmupd i h (n_handlers n)\<rparr>"

definition Unregister :: "Faults \<Rightarrow> string \<Rightarrow> Faults" where
  "Unregister n i = n\<lparr>n_handlers := fmdrop i (n_handlers n)\<rparr>"

definition Handler :: "Faults \<Rightarrow> string \<Rightarrow> string option" where
  "Handler n i = fmlookup (n_handlers n) i"

definition SetHook :: "Network \<Rightarrow> SendHook option \<Rightarrow> Network" where
  "SetHook n h = n\<lparr>n_hook := h\<rparr>"

definition FailFromAfter :: "Faults \<Rightarrow> string \<Rightarrow> int \<Rightarrow> Faults" where
  "FailFromAfter n i after =
     n\<lparr>n_failAfter := fmupd i after (n_failAfter n), n_failCount := fmupd i 0 (n_failCount n)\<rparr>"

definition Partition :: "Faults \<Rightarrow> string list \<Rightarrow> string list \<Rightarrow> Faults" where
  "Partition n left right =
     (let g = foldl (\<lambda>g i. fmupd i 1 g) (n_group n) left;
          g = foldl (\<lambda>g i. fmupd i 2 g) g right
      in n\<lparr>n_group := g\<rparr>)"

definition Heal :: "Faults \<Rightarrow> Faults" where
  "Heal n = n\<lparr>n_group := fmempty\<rparr>"

definition Isolate :: "Faults \<Rightarrow> string \<Rightarrow> Faults" where
  "Isolate n i = n\<lparr>n_isolated := fmupd i True (n_isolated n)\<rparr>"

definition Recover :: "Faults \<Rightarrow> string \<Rightarrow> Faults" where
  "Recover n i = n\<lparr>n_isolated := fmdrop i (n_isolated n)\<rparr>"

definition Drop :: "Faults \<Rightarrow> string \<Rightarrow> string \<Rightarrow> rat \<Rightarrow> Faults" where
  "Drop n from to p = n\<lparr>n_drop := fmupd (to, from) p (fmupd (from, to) p (n_drop n))\<rparr>"

definition Delay :: "Faults \<Rightarrow> string \<Rightarrow> string \<Rightarrow> int \<Rightarrow> Faults" where
  "Delay n from to d = n\<lparr>n_delay := fmupd (to, from) d (fmupd (from, to) d (n_delay n))\<rparr>"

definition ResetFaults :: "Network \<Rightarrow> Network" where
  "ResetFaults n =
     n\<lparr>faults := (faults n)\<lparr>n_group := fmempty, n_isolated := fmempty, n_drop := fmempty, n_delay := fmempty,
         n_failAfter := fmempty, n_failCount := fmempty\<rparr>,
       n_hook := None\<rparr>"

definition Float64 :: "Faults \<Rightarrow> rat \<times> Faults" where
  "Float64 n = (n_rng n 0, n\<lparr>n_rng := (\<lambda>i. n_rng n (Suc i))\<rparr>)"

definition allowLocked :: "Faults \<Rightarrow> string \<Rightarrow> string \<Rightarrow> (bool \<times> int) \<times> Faults" where
  "allowLocked n from to =
     (if from = to then ((True, 0), n)
      else if entry (n_isolated n) from False \<or> entry (n_isolated n) to False then ((False, 0), n)
      else if entry (n_group n) from 0 \<noteq> entry (n_group n) to 0 then ((False, 0), n)
      else
        (let p = entry (n_drop n) (from, to) 0;
             (dropped, n) = (if p > 0 then (let (x, n) = Float64 n in (x < p, n)) else (False, n))
         in if dropped then ((False, 0), n)
            else
              (case fmlookup (n_failAfter n) from of
                 None \<Rightarrow> ((True, entry (n_delay n) (from, to) 0), n)
               | Some after \<Rightarrow>
                   (let c = entry (n_failCount n) from 0 + 1;
                        n = n\<lparr>n_failCount := fmupd from c (n_failCount n)\<rparr>
                    in if c > after then ((False, 0), n)
                       else ((True, entry (n_delay n) (from, to) 0), n)))))"

definition Allow :: "Faults \<Rightarrow> string \<Rightarrow> string \<Rightarrow> (bool \<times> int) \<times> Faults" where
  "Allow n from to = allowLocked n from to"

definition dispatch :: "Network \<Rightarrow> string \<Rightarrow> string \<Rightarrow> ('e rpc_error + string \<times> int) \<times> Network" where
  "dispatch n from to =
     (let f = faults n; f = f\<lparr>n_seq := n_seq f + 1\<rparr>; seq = n_seq f;
          ((ok, delay), f) = allowLocked f from to;
          h = fmlookup (n_handlers f) to;
          f = (case n_hook n of None \<Rightarrow> f | Some hook \<Rightarrow> hook from to seq f);
          n = n\<lparr>faults := f\<rparr>
      in if \<not> ok then (Inl ErrUnreachable, n)
         else (case h of None \<Rightarrow> (Inl ErrUnreachable, n) | Some h \<Rightarrow> (Inr (h, delay), n)))"

definition sleep :: "bool \<Rightarrow> int \<Rightarrow> 'e rpc_error option" where
  "sleep expired d = (if d \<le> 0 then None else if expired then Some ErrContext else None)"

section \<open>Endpoints\<close>

text \<open>
  An endpoint is bound to a node id. The state is the network and the state of the nodes; the method of
  the handler interface that is called is an argument, applied to the handler's reference.
\<close>

definition call ::
  "bool \<Rightarrow> string \<Rightarrow> string \<Rightarrow> (string \<Rightarrow> 's \<Rightarrow> ('e + 'r) \<times> 's) \<Rightarrow> Network \<times> 's \<Rightarrow> ('e rpc_error + 'r) \<times> Network \<times> 's" where
  "call expired i to method st =
     (let (n, s) = st in
      case dispatch n i to of
        (Inl e, n) \<Rightarrow> (Inl e, n, s)
      | (Inr (h, delay), n) \<Rightarrow>
          (case sleep expired delay of
             Some e \<Rightarrow> (Inl e, n, s)
           | None \<Rightarrow>
               (case method h s of
                  (Inl e, s) \<Rightarrow> (Inl (ErrHandler e), n, s)
                | (Inr r, s) \<Rightarrow> (Inr r, n, s))))"

definition Endpoint_ReplicateWrite ::
  "(string \<Rightarrow> string \<Rightarrow> string \<Rightarrow> Value \<Rightarrow> 's \<Rightarrow> ('e + unit) \<times> 's) \<Rightarrow> bool \<Rightarrow> string \<Rightarrow> string \<Rightarrow> string \<Rightarrow> Value \<Rightarrow>
   Network \<times> 's \<Rightarrow> ('e rpc_error + unit) \<times> Network \<times> 's" where
  "Endpoint_ReplicateWrite applyReplicate expired i to key val = call expired i to (\<lambda>h. applyReplicate h i key val)"

definition Endpoint_ReplicateRead ::
  "(string \<Rightarrow> string \<Rightarrow> string \<Rightarrow> 's \<Rightarrow> ('e + Value \<times> bool) \<times> 's) \<Rightarrow> bool \<Rightarrow> string \<Rightarrow> string \<Rightarrow> string \<Rightarrow>
   Network \<times> 's \<Rightarrow> ('e rpc_error + Value \<times> bool) \<times> Network \<times> 's" where
  "Endpoint_ReplicateRead serveRead expired i to key = call expired i to (\<lambda>h. serveRead h i key)"

definition Endpoint_GetDigest ::
  "(string \<Rightarrow> string \<Rightarrow> 's \<Rightarrow> ('e + (string, Value) fmap) \<times> 's) \<Rightarrow> bool \<Rightarrow> string \<Rightarrow> string \<Rightarrow>
   Network \<times> 's \<Rightarrow> ('e rpc_error + (string, Value) fmap) \<times> Network \<times> 's" where
  "Endpoint_GetDigest serveDigest expired i to = call expired i to (\<lambda>h. serveDigest h i)"

definition Endpoint_ReplayHint ::
  "(string \<Rightarrow> string \<Rightarrow> string \<Rightarrow> Value \<Rightarrow> 's \<Rightarrow> ('e + unit) \<times> 's) \<Rightarrow> bool \<Rightarrow> string \<Rightarrow> string \<Rightarrow> string \<Rightarrow> Value \<Rightarrow>
   Network \<times> 's \<Rightarrow> ('e rpc_error + unit) \<times> Network \<times> 's" where
  "Endpoint_ReplayHint applyReplicate expired i to key val = Endpoint_ReplicateWrite applyReplicate expired i to key val"

section \<open>Who reaches whom\<close>

definition linked :: "Faults \<Rightarrow> string \<Rightarrow> string \<Rightarrow> bool" where
  "linked n from to \<longleftrightarrow> from = to \<or>
     \<not> entry (n_isolated n) from False \<and> \<not> entry (n_isolated n) to False \<and> entry (n_group n) from 0 = entry (n_group n) to 0"

lemma entry_simps [simp]:
  "entry fmempty k z = z" "entry (fmupd k v m) k' z = (if k' = k then v else entry m k' z)"
  "entry (fmdrop k m) k' z = (if k' = k then z else entry m k' z)"
  by (simp_all add: entry_def)

lemma entry_foldl: "entry (foldl (\<lambda>g i. fmupd i v g) m ids) k z = (if k \<in> set ids then v else entry m k z)"
  by (induction ids arbitrary: m) auto

lemma allow_plain:
  assumes "entry (n_drop n) (from, to) 0 \<le> 0" "fmlookup (n_failAfter n) from = None"
  shows "allowLocked n from to = ((linked n from to, if linked n from to \<and> from \<noteq> to then entry (n_delay n) (from, to) 0 else 0), n)"
  using assms by (auto simp: allowLocked_def linked_def Let_def)

lemma linked_cong:
  "n_isolated m = n_isolated n \<Longrightarrow> n_group m = n_group n \<Longrightarrow> linked m from to = linked n from to"
  by (simp add: linked_def)

lemma allow_keeps:
  "n_isolated (snd (allowLocked n from to)) = n_isolated n" "n_group (snd (allowLocked n from to)) = n_group n"
  "n_drop (snd (allowLocked n from to)) = n_drop n" "n_failAfter (snd (allowLocked n from to)) = n_failAfter n"
  "n_handlers (snd (allowLocked n from to)) = n_handlers n" "n_delay (snd (allowLocked n from to)) = n_delay n"
  by (auto simp: allowLocked_def Let_def Float64_def split: prod.splits option.splits)

text \<open>The successive sends of one node.\<close>

fun sends :: "Faults \<Rightarrow> string \<Rightarrow> string list \<Rightarrow> bool list" where
  "sends n from [] = []"
| "sends n from (to # tos) = (let ((ok, _), n) = allowLocked n from to in ok # sends n from tos)"

lemma allow_counted:
  assumes "from \<noteq> to" "linked n from to" "entry (n_drop n) (from, to) 0 \<le> 0" "fmlookup (n_failAfter n) from = Some after"
  shows "fst (fst (allowLocked n from to)) \<longleftrightarrow> entry (n_failCount n) from 0 + 1 \<le> after"
    "entry (n_failCount (snd (allowLocked n from to))) from 0 = entry (n_failCount n) from 0 + 1"
  using assms by (auto simp: allowLocked_def linked_def Let_def)

lemma sends_counted:
  assumes "\<forall>to \<in> set tos. from \<noteq> to \<and> linked n from to \<and> entry (n_drop n) (from, to) 0 \<le> 0"
    and "fmlookup (n_failAfter n) from = Some after"
  shows "sends n from tos = map (\<lambda>k. entry (n_failCount n) from 0 + int k < after) [0..<length tos]"
  using assms
proof (induction tos arbitrary: n)
  case (Cons to tos)
  obtain ok d m where m: "allowLocked n from to = ((ok, d), m)" by (metis surj_pair)
  have ok: "ok \<longleftrightarrow> entry (n_failCount n) from 0 < after" "entry (n_failCount m) from 0 = entry (n_failCount n) from 0 + 1"
    using allow_counted [of "from" to n after] Cons.prems by (auto simp: m)
  have keep: "n_isolated m = n_isolated n" "n_group m = n_group n" "n_drop m = n_drop n" "n_failAfter m = n_failAfter n"
    using allow_keeps [of n "from" to] by (simp_all add: m)
  have "sends m from tos = map (\<lambda>k. entry (n_failCount m) from 0 + int k < after) [0..<length tos]"
    using Cons.prems by (intro Cons.IH) (auto simp: keep linked_cong [OF keep(1,2)])
  also have "\<dots> = map (\<lambda>k. entry (n_failCount n) from 0 + int k < after) [1..<Suc (length tos)]"
    by (rule nth_equalityI) (simp_all add: ok(2) ac_simps del: upt_Suc)
  finally show ?case using ok(1) by (simp add: m upt_conv_Cons del: upt_Suc)
qed simp

section \<open>Properties\<close>

lemma partition_groups:
  "entry (n_group (Partition n l r)) i 0 = (if i \<in> set r then 2 else if i \<in> set l then 1 else entry (n_group n) i 0)"
  by (simp add: Partition_def Let_def entry_foldl)

lemma reset_allows:
  "allowLocked (faults (ResetFaults net)) a b = ((True, 0), faults (ResetFaults net))"
  "allowLocked ((faults (ResetFaults net))\<lparr>n_seq := s\<rparr>) a b = ((True, 0), (faults (ResetFaults net))\<lparr>n_seq := s\<rparr>)"
  by (simp_all add: allowLocked_def ResetFaults_def Let_def)

lemma reset_sends: "sends (faults (ResetFaults net)) i tos = replicate (length tos) True"
  by (induction tos) (simp_all add: reset_allows)

text \<open>C33. Faults. On links without random drops and between nodes without a send limit, a message passes exactly when the two
  nodes share a group and neither is isolated, in both directions alike. \<^verbatim>\<open>Partition\<close> cuts every link from a node of its left
  side (not also listed on the right) to its right side and back, whatever other faults there are. After \<^verbatim>\<open>ResetFaults\<close>,
  whatever faults, send limits and hook there were, every message passes without delay, any number of times, and reaches
  the handler registered for its target; a partition, isolation, drop, delay, send limit or hook set before leaves no trace.\<close>

theorem partition_symmetric:
  "(entry (n_drop n) (a, b) 0 \<le> 0 \<and> entry (n_drop n) (b, a) 0 \<le> 0 \<and> fmlookup (n_failAfter n) a = None \<and> fmlookup (n_failAfter n) b = None \<longrightarrow>
      (fst (fst (Allow n a b)) \<longleftrightarrow> a = b \<or> \<not> entry (n_isolated n) a False \<and> \<not> entry (n_isolated n) b False \<and>
        entry (n_group n) a 0 = entry (n_group n) b 0) \<and>
      fst (fst (Allow n a b)) = fst (fst (Allow n b a))) \<and>
   (a \<in> set l \<and> a \<notin> set r \<and> b \<in> set r \<longrightarrow>
      \<not> fst (fst (Allow (Partition n l r) a b)) \<and> \<not> fst (fst (Allow (Partition n l r) b a))) \<and>
   Allow (faults (ResetFaults net)) a b = ((True, 0), faults (ResetFaults net)) \<and>
   sends (faults (ResetFaults net)) a tos = replicate (length tos) True \<and>
   fst (dispatch (ResetFaults net) a b) =
     (case fmlookup (n_handlers (faults net)) b of None \<Rightarrow> Inl ErrUnreachable | Some h \<Rightarrow> Inr (h, 0)) \<and>
   (\<forall>f \<in> {Partition (faults net) l r, Isolate (faults net) a, Drop (faults net) a b p, Delay (faults net) a b d,
      FailFromAfter (faults net) a k}. ResetFaults (SetHook (net\<lparr>faults := f\<rparr>) hook) = ResetFaults net)"
proof -
  have cut: "\<not> fst (fst (allowLocked m x y))" if "x \<noteq> y" "entry (n_group m) x 0 \<noteq> entry (n_group m) y 0" for m x y
    using that by (simp add: allowLocked_def)
  have "n_hook (ResetFaults net) = None" "n_handlers (faults (ResetFaults net)) = n_handlers (faults net)"
    by (simp_all add: ResetFaults_def)
  then have "fst (dispatch (ResetFaults net) a b) =
     (case fmlookup (n_handlers (faults net)) b of None \<Rightarrow> Inl ErrUnreachable | Some h \<Rightarrow> Inr (h, 0))"
    by (simp add: dispatch_def Let_def reset_allows split: option.split)
  moreover have "\<forall>f \<in> {Partition (faults net) l r, Isolate (faults net) a, Drop (faults net) a b p, Delay (faults net) a b d,
      FailFromAfter (faults net) a k}. ResetFaults (SetHook (net\<lparr>faults := f\<rparr>) hook) = ResetFaults net"
    by (simp add: ResetFaults_def SetHook_def Partition_def Isolate_def Drop_def Delay_def FailFromAfter_def Let_def)
  moreover have "\<not> fst (fst (allowLocked (Partition n l r) a b)) \<and> \<not> fst (fst (allowLocked (Partition n l r) b a))"
    if "a \<in> set l" "a \<notin> set r" "b \<in> set r"
    using that cut [of a b "Partition n l r"] cut [of b a "Partition n l r"] by (auto simp: partition_groups)
  ultimately show ?thesis
    by (auto simp: Allow_def allow_plain linked_def reset_allows reset_sends)
qed

theorem partition_symmetric_witness:
  "\<not> fst (fst (Allow (Partition (faults (NewFaultNet (\<lambda>_ _. 0) 7)) [''A''] [''B'', ''C'']) ''A'' ''C'')) \<and>
   fst (fst (Allow (faults (NewFaultNet (\<lambda>_ _. 0) 7)) ''A'' ''C''))"
  using partition_symmetric [of "faults (NewFaultNet (\<lambda>_ _. 0) 7)" "''A''" "''C''" "[''A'']" "[''B'', ''C'']" "NewFaultNet (\<lambda>_ _. 0) 7" "[]" 0 0 0 None]
  by (auto simp: NewFaultNet_def)

text \<open>C34. \<^verbatim>\<open>FailFromAfter(id, k)\<close> lets exactly the first \<open>k\<close> sends of the node pass and fails all
  later ones, when nothing else blocks them.\<close>

theorem fail_after_exact:
  assumes "\<forall>to \<in> set tos. i \<noteq> to \<and> linked n i to \<and> entry (n_drop n) (i, to) 0 \<le> 0"
  shows "sends (FailFromAfter n i (int k)) i tos = replicate (min k (length tos)) True @ replicate (length tos - k) False"
proof -
  have "sends (FailFromAfter n i (int k)) i tos = map (\<lambda>j. j < k) [0..<length tos]"
    using assms sends_counted [of tos i "FailFromAfter n i (int k)" "int k"]
    by (auto simp: FailFromAfter_def linked_def)
  also have "\<dots> = replicate (min k (length tos)) True @ replicate (length tos - k) False"
    by (rule nth_equalityI) (auto simp: nth_append)
  finally show ?thesis .
qed

theorem fail_after_exact_witness:
  "sends (FailFromAfter (faults (NewFaultNet (\<lambda>_ _. 0) 7)) ''A'' 1) ''A'' [''B'', ''C''] = [True, False]"
  using fail_after_exact [of "[''B'', ''C'']" "''A''" "faults (NewFaultNet (\<lambda>_ _. 0) 7)" 1]
  by (simp add: NewFaultNet_def linked_def)

end
