(* ===== verification/Coordinator.thy ===== *)
theory Coordinator
  imports Anti_Entropy Read_Repair Hinted_Handoff Membership Fault_Net
begin

text \<open>
  \<^verbatim>\<open>internal/node/coordinator.go\<close> on the endpoints of the fault network. A node is a \<open>Node\<close>
  record; the nodes live in a store indexed by a reference, which is also what the network's handler
  table holds. Locks are left out: what runs under one lock is one step.

  The environment is part of the state: \<open>cl_io\<close> are the answers of the operating system to the coming
  log writes and \<open>cl_expired\<close> says of each coming message whether its context expires while it sleeps;
  the operations consume them in order. \<^verbatim>\<open>Write\<close> and \<^verbatim>\<open>Read\<close> start one goroutine per member and
  collect their results from a channel. Here a goroutine is one step, the order in which they finish is
  the argument \<open>sched\<close>, and \<open>timeout\<close> is the number of results read from the channel when the select
  takes the expired context, if it does. Goroutines that finish after the answer still run. A collector
  whose channel runs dry is waiting: the value \<^term>\<open>None\<close>.
\<close>

datatype node_error = WalError wal_error | ReadsDisabled

record Node =
  nodeID :: string
  nodeMembers :: Membership
  nodeReplica :: Replica
  nodeNet :: string
  nodeHints :: Hints
  nodeTimeout :: int
  nodeAntiOn :: bool
  nodeAntiEvery :: int
  nodeTagCounter :: u64
  nodeReadRepair :: bool

record Config =
  cfgID :: string
  cfgPeers :: Membership
  cfgTransport :: string
  cfgWAL :: "Replica option"
  cfgTimeout :: int
  cfgAntiEntropyEvery :: int
  cfgDisableReadRepair :: bool

definition New :: "Config \<Rightarrow> Node" where
  "New cfg =
     (let to = cfgTimeout cfg;
          to = (if to = 0 then 2 * 1000000000 else to)
      in \<lparr>nodeID = cfgID cfg, nodeMembers = cfgPeers cfg,
          nodeReplica = (case cfgWAL cfg of None \<Rightarrow> NewReplica (cfgID cfg) None | Some r \<Rightarrow> r),
          nodeNet = cfgTransport cfg, nodeHints = NewHints, nodeTimeout = to, nodeAntiOn = False,
          nodeAntiEvery = cfgAntiEntropyEvery cfg, nodeTagCounter = 0,
          nodeReadRepair = (\<not> cfgDisableReadRepair cfg)\<rparr>)"

definition Node_N :: "Node \<Rightarrow> int" where
  "Node_N n = N (nodeMembers n)"

definition validateQuorum :: "Node \<Rightarrow> int \<Rightarrow> string \<Rightarrow> string option" where
  "validateQuorum n q what =
     (if q < 1 \<or> q > Node_N n
      then Some (what @ ''='' @ itoa q @ '' out of range for N='' @ itoa (Node_N n))
      else None)"

definition nextORSetTag :: "Node \<Rightarrow> string \<times> Node" where
  "nextORSetTag n =
     (let n = n\<lparr>nodeTagCounter := nodeTagCounter n + 1\<rparr> in
      (nodeID n @ '':'' @ itoa_nat (unat (nodeTagCounter n)), n))"

definition localPrepare :: "Node \<Rightarrow> WriteReq \<Rightarrow> Version \<Rightarrow> Value \<times> Node" where
  "localPrepare n req ver =
     (let (cur, found) = Replica_Get (nodeReplica n) (wqKey req) in
      if wqPolicy req = PolicyCRDTORSet then
        (let (tag, n) = nextORSetTag n in
         (ApplyORSetOp cur found (wqORSetOp req) (wqORSetElem req) tag ver, n))
      else if wqPolicy req = PolicyCRDTLWWReg then
        (ApplyLWWRegWrite cur found (wqData req) ver (wqTombstone req), n)
      else
        (\<lparr>Data = append_nil (wqData req), Version = ver, Policy = PolicyLWW,
          Tombstone = wqTombstone req, CRDT = None\<rparr>, n))"

section \<open>The cluster\<close>

record Cluster =
  cl_net :: Network
  cl_nodes :: "(string, Node) fmap"
  cl_io :: "nat \<Rightarrow> wal_io"
  cl_expired :: "nat \<Rightarrow> bool"

definition node_at :: "Cluster \<Rightarrow> string \<Rightarrow> Node" where
  "node_at cl i = the (fmlookup (cl_nodes cl) i)"

definition upd_node :: "string \<Rightarrow> Node \<Rightarrow> Cluster \<Rightarrow> Cluster" where
  "upd_node i n cl = cl\<lparr>cl_nodes := fmupd i n (cl_nodes cl)\<rparr>"

definition next_io :: "Cluster \<Rightarrow> wal_io \<times> Cluster" where
  "next_io cl = (cl_io cl 0, cl\<lparr>cl_io := (\<lambda>i. cl_io cl (Suc i))\<rparr>)"

definition next_expired :: "Cluster \<Rightarrow> bool \<times> Cluster" where
  "next_expired cl = (cl_expired cl 0, cl\<lparr>cl_expired := (\<lambda>i. cl_expired cl (Suc i))\<rparr>)"

text \<open>\<^verbatim>\<open>n.Replica.Apply\<close> on the node at a reference.\<close>

definition local_apply :: "string \<Rightarrow> string \<Rightarrow> Value \<Rightarrow> Cluster \<Rightarrow> (Value \<times> wal_error option) \<times> Cluster" where
  "local_apply i key val cl =
     (let (io, cl) = next_io cl; n = node_at cl i;
          (res, r) = Replica_Apply (nodeReplica n) io key val
      in (res, upd_node i (n\<lparr>nodeReplica := r\<rparr>) cl))"

definition ApplyReplicate :: "string \<Rightarrow> string \<Rightarrow> string \<Rightarrow> Value \<Rightarrow> Cluster \<Rightarrow> (node_error + unit) \<times> Cluster" where
  "ApplyReplicate i from key val cl =
     (let ((_, err), cl) = local_apply i key val cl in
      (case err of None \<Rightarrow> Inr () | Some e \<Rightarrow> Inl (WalError e), cl))"

definition ServeRead :: "string \<Rightarrow> string \<Rightarrow> string \<Rightarrow> Cluster \<Rightarrow> (node_error + Value \<times> bool) \<times> Cluster" where
  "ServeRead i from key cl =
     (let n = node_at cl i in
      if \<not> ReadsEnabled (nodeReplica n) then (Inl ReadsDisabled, cl)
      else (Inr (Replica_Get (nodeReplica n) key), cl))"

definition ServeDigest :: "string \<Rightarrow> string \<Rightarrow> Cluster \<Rightarrow> (node_error + (string, Value) fmap) \<times> Cluster" where
  "ServeDigest i from cl = (Inr (Replica_Snapshot (nodeReplica (node_at cl i))), cl)"

text \<open>A call on the endpoint of a node: the network is the one of the cluster.\<close>

definition rpc ::
  "(bool \<Rightarrow> Network \<times> Cluster \<Rightarrow> ('e rpc_error + 'r) \<times> Network \<times> Cluster) \<Rightarrow> Cluster \<Rightarrow> ('e rpc_error + 'r) \<times> Cluster" where
  "rpc f cl =
     (let (expired, cl) = next_expired cl; (r, net, cl) = f expired (cl_net cl, cl) in (r, cl\<lparr>cl_net := net\<rparr>))"

definition Net_ReplicateWrite ::
  "Node \<Rightarrow> string \<Rightarrow> string \<Rightarrow> Value \<Rightarrow> Cluster \<Rightarrow> (node_error rpc_error + unit) \<times> Cluster" where
  "Net_ReplicateWrite n to key val =
     rpc (\<lambda>expired. Endpoint_ReplicateWrite ApplyReplicate expired (nodeNet n) to key val)"

definition Net_ReplicateRead ::
  "Node \<Rightarrow> string \<Rightarrow> string \<Rightarrow> Cluster \<Rightarrow> (node_error rpc_error + Value \<times> bool) \<times> Cluster" where
  "Net_ReplicateRead n to key =
     rpc (\<lambda>expired. Endpoint_ReplicateRead ServeRead expired (nodeNet n) to key)"

definition Net_GetDigest ::
  "Node \<Rightarrow> string \<Rightarrow> Cluster \<Rightarrow> (node_error rpc_error + (string, Value) fmap) \<times> Cluster" where
  "Net_GetDigest n to = rpc (\<lambda>expired. Endpoint_GetDigest ServeDigest expired (nodeNet n) to)"

definition Net_ReplayHint ::
  "Node \<Rightarrow> string \<Rightarrow> string \<Rightarrow> Value \<Rightarrow> Cluster \<Rightarrow> (node_error rpc_error + unit) \<times> Cluster" where
  "Net_ReplayHint n to key val =
     rpc (\<lambda>expired. Endpoint_ReplayHint ApplyReplicate expired (nodeNet n) to key val)"

section \<open>Goroutines and their channel\<close>

fun run_tasks :: "('p \<Rightarrow> 's \<Rightarrow> 'r \<times> 's) \<Rightarrow> 'p list \<Rightarrow> 's \<Rightarrow> 'r list \<times> 's" where
  "run_tasks task [] s = ([], s)"
| "run_tasks task (p # ps) s =
     (let (r, s) = task p s; (rs, s) = run_tasks task ps s in (r # rs, s))"

datatype 'r event = Done | Result 'r

definition channel :: "nat option \<Rightarrow> 'r list \<Rightarrow> 'r event list" where
  "channel timeout rs =
     (case timeout of None \<Rightarrow> map Result rs | Some k \<Rightarrow> map Result (take k rs) @ [Done])"

section \<open>Write\<close>

abbreviation failed_write :: "string \<Rightarrow> WriteResp" where
  "failed_write e \<equiv> \<lparr>wrOK = False, wrVersion = zero_Version, wrAcksReceived = 0, wrError = e\<rparr>"

definition write_begin :: "string \<Rightarrow> WriteReq \<Rightarrow> Cluster \<Rightarrow> (Version \<times> Value) \<times> Cluster" where
  "write_begin c req cl =
     (let n = node_at cl c;
          (lamport, clock) = Tick (repClock (nodeReplica n));
          n = n\<lparr>nodeReplica := (nodeReplica n)\<lparr>repClock := clock\<rparr>\<rparr>;
          ver = \<lparr>Lamport = lamport, NodeID = nodeID n\<rparr>;
          (payload, n) = localPrepare n req ver
      in ((ver, payload), upd_node c n cl))"

definition write_task ::
  "string \<Rightarrow> string \<Rightarrow> Value \<Rightarrow> string \<Rightarrow> Cluster \<Rightarrow> node_error rpc_error option \<times> Cluster" where
  "write_task c key payload peer cl =
     (let n = node_at cl c in
      if peer = nodeID n then
        (let ((_, err), cl) = local_apply c key payload cl in
         (map_option (\<lambda>e. ErrHandler (WalError e)) err, cl))
      else
        (case Net_ReplicateWrite n peer key payload cl of
           (Inr _, cl) \<Rightarrow> (None, cl)
         | (Inl e, cl) \<Rightarrow>
             (let n = node_at cl c in
              (Some e, upd_node c (n\<lparr>nodeHints := Hints_Store (nodeHints n) peer key payload\<rparr>) cl))))"

fun write_collect ::
  "Version \<Rightarrow> int \<Rightarrow> int \<Rightarrow> nat \<Rightarrow> 'e option event list \<Rightarrow> WriteResp option" where
  "write_collect ver w acks 0 evs =
     Some (if acks \<ge> w then \<lparr>wrOK = True, wrVersion = ver, wrAcksReceived = acks, wrError = ''''\<rparr>
       else \<lparr>wrOK = False, wrVersion = ver, wrAcksReceived = acks,
         wrError = ''need W='' @ itoa w @ '' acks, got '' @ itoa acks\<rparr>)"
| "write_collect ver w acks (Suc remaining) [] = None"
| "write_collect ver w acks (Suc remaining) (Done # evs) =
     Some \<lparr>wrOK = False, wrVersion = ver, wrAcksReceived = acks, wrError = ''quorum timeout''\<rparr>"
| "write_collect ver w acks (Suc remaining) (Result err # evs) =
     (if err = None then
        (if acks + 1 \<ge> w then Some \<lparr>wrOK = True, wrVersion = ver, wrAcksReceived = acks + 1, wrError = ''''\<rparr>
         else write_collect ver w (acks + 1) remaining evs)
      else write_collect ver w acks remaining evs)"

definition Write ::
  "string \<Rightarrow> WriteReq \<Rightarrow> string list \<Rightarrow> nat option \<Rightarrow> Cluster \<Rightarrow> WriteResp option \<times> Cluster" where
  "Write c req sched timeout cl =
     (case validateQuorum (node_at cl c) (wqW req) ''W'' of
        Some e \<Rightarrow> (Some (failed_write e), cl)
      | None \<Rightarrow>
          (let ((ver, payload), cl) = write_begin c req cl;
               (errs, cl) = run_tasks (write_task c (wqKey req) payload) sched cl
           in (write_collect ver (wqW req) 0 (length (Peers (nodeMembers (node_at cl c)))) (channel timeout errs), cl)))"

definition Delete ::
  "string \<Rightarrow> string \<Rightarrow> int \<Rightarrow> string list \<Rightarrow> nat option \<Rightarrow> Cluster \<Rightarrow> WriteResp option \<times> Cluster" where
  "Delete c key w =
     Write c \<lparr>wqKey = key, wqData = None, wqPolicy = PolicyLWW, wqW = w, wqClientTS = 0, wqORSetOp = '''',
       wqORSetElem = '''', wqTombstone = True\<rparr>"

section \<open>Read\<close>

definition read_task ::
  "string \<Rightarrow> string \<Rightarrow> string \<Rightarrow> Cluster \<Rightarrow> (node_error rpc_error + ReplicaView) \<times> Cluster" where
  "read_task c key peer cl =
     (let n = node_at cl c in
      if peer = nodeID n then
        (if \<not> ReadsEnabled (nodeReplica n) then (Inl (ErrHandler ReadsDisabled), cl)
         else (let (v, ok) = Replica_Get (nodeReplica n) key in
               (Inr \<lparr>rvNodeID = nodeID n, rvValue = v, rvFound = ok\<rparr>, cl)))
      else
        (case Net_ReplicateRead n peer key cl of
           (Inl e, cl) \<Rightarrow> (Inl e, cl)
         | (Inr (v, ok), cl) \<Rightarrow> (Inr \<lparr>rvNodeID = peer, rvValue = v, rvFound = ok\<rparr>, cl)))"

fun read_collect ::
  "int \<Rightarrow> nat \<Rightarrow> ReplicaView list \<Rightarrow> ('e + ReplicaView) event list \<Rightarrow> ReplicaView list option" where
  "read_collect r remaining views evs =
     (if remaining > 0 \<and> int (length views) < r then
        (case evs of
           [] \<Rightarrow> None
         | Done # _ \<Rightarrow> Some views
         | Result (Inl _) # evs' \<Rightarrow> read_collect r (remaining - 1) views evs'
         | Result (Inr v) # evs' \<Rightarrow> read_collect r (remaining - 1) (views @ [v]) evs')
      else Some views)"

definition repair_one ::
  "string \<Rightarrow> string \<Rightarrow> Value \<Rightarrow> bool \<times> Cluster \<Rightarrow> string \<Rightarrow> bool \<times> Cluster" where
  "repair_one c key winner st dest =
     (let (repaired, cl) = st; n = node_at cl c in
      if dest = nodeID n then (True, snd (local_apply c key winner cl))
      else
        (case Net_ReplicateWrite n dest key winner cl of
           (Inr _, cl) \<Rightarrow> (True, cl)
         | (Inl _, cl) \<Rightarrow> (repaired, cl)))"

abbreviation failed_read :: "int \<Rightarrow> string \<Rightarrow> ReadResp" where
  "failed_read got e \<equiv>
     \<lparr>rrValue = zero_Value, rrFound = False, rrReplicasResponded = got, rrReplicasAgreed = False,
      rrRepaired = False, rrError = e\<rparr>"

text \<open>What a read does with enough responses: resolve, repair, answer.\<close>

definition read_finish :: "string \<Rightarrow> string \<Rightarrow> ReplicaView list \<Rightarrow> Cluster \<Rightarrow> ReadResp \<times> Cluster" where
  "read_finish c key views cl =
     (let (winner, found) = ResolveMany views;
          agreed = (found \<and> Agreed views winner);
          (repaired, cl) =
            (if nodeReadRepair (node_at cl c) \<and> found \<and> \<not> agreed
             then foldl (repair_one c key winner) (False, cl) (StaleAmong views winner)
             else (False, cl));
          resp = \<lparr>rrValue = winner, rrFound = found, rrReplicasResponded = int (length views),
                  rrReplicasAgreed = agreed, rrRepaired = repaired, rrError = ''''\<rparr>
      in (if found \<and> Tombstone winner then resp\<lparr>rrFound := False\<rparr> else resp, cl))"

definition Read ::
  "string \<Rightarrow> ReadReq \<Rightarrow> string list \<Rightarrow> nat option \<Rightarrow> string list \<Rightarrow> Cluster \<Rightarrow> ReadResp option \<times> Cluster" where
  "Read c req sched timeout late cl =
     (case validateQuorum (node_at cl c) (rqR req) ''R'' of
        Some e \<Rightarrow> (Some (failed_read 0 e), cl)
      | None \<Rightarrow>
          (let (results, cl) = run_tasks (read_task c (rqKey req)) sched cl;
               (resp, cl) =
                 (case read_collect (rqR req) (length (Peers (nodeMembers (node_at cl c)))) [] (channel timeout results) of
                    None \<Rightarrow> (None, cl)
                  | Some views \<Rightarrow>
                      (if int (length views) < rqR req
                       then (Some (failed_read (int (length views))
                              (''need R='' @ itoa (rqR req) @ '' responses, got '' @ itoa (int (length views)))), cl)
                       else (let (resp, cl) = read_finish c (rqKey req) views cl in (Some resp, cl))));
               (_, cl) = run_tasks (read_task c (rqKey req)) late cl
           in (resp, cl)))"

section \<open>Repair in the background\<close>

definition pull_one :: "string \<Rightarrow> nat \<times> Cluster \<Rightarrow> string \<times> Value \<Rightarrow> nat \<times> Cluster" where
  "pull_one c st e = (let (pulled, cl) = st; (k, v) = e in (pulled + 1, snd (local_apply c k v cl)))"

definition push_one :: "string \<Rightarrow> string \<Rightarrow> nat \<times> Cluster \<Rightarrow> string \<times> Value \<Rightarrow> nat \<times> Cluster" where
  "push_one c peer st e =
     (let (pushed, cl) = st; (k, v) = e in
      case Net_ReplicateWrite (node_at cl c) peer k v cl of
        (Inr _, cl) \<Rightarrow> (pushed + 1, cl)
      | (Inl _, cl) \<Rightarrow> (pushed, cl))"

definition exchange :: "string \<Rightarrow> (nat \<times> nat) \<times> Cluster \<Rightarrow> string \<Rightarrow> (nat \<times> nat) \<times> Cluster" where
  "exchange c st peer =
     (let ((pushed, pulled), cl) = st in
      case Net_GetDigest (node_at cl c) peer cl of
        (Inl _, cl) \<Rightarrow> ((pushed, pulled), cl)
      | (Inr remote, cl) \<Rightarrow>
          (let plan = Scan (Replica_Snapshot (nodeReplica (node_at cl c))) remote;
               (pulled, cl) = foldl (pull_one c) (pulled, cl) (sorted_list_of_fmap (Pull plan));
               (pushed, cl) = foldl (push_one c peer) (pushed, cl) (sorted_list_of_fmap (Push plan))
           in ((pushed, pulled), cl)))"

definition AntiEntropyRound :: "string \<Rightarrow> Cluster \<Rightarrow> (nat \<times> nat) \<times> Cluster" where
  "AntiEntropyRound c cl =
     foldl (exchange c) ((0, 0), cl) (map peerID (Others (nodeMembers (node_at cl c))))"

fun deliver_hints :: "string \<Rightarrow> string \<Rightarrow> Hint list \<Rightarrow> nat \<Rightarrow> Cluster \<Rightarrow> (bool \<times> nat) \<times> Cluster" where
  "deliver_hints c target [] delivered cl = ((True, delivered), cl)"
| "deliver_hints c target (h # hs) delivered cl =
     (case Net_ReplayHint (node_at cl c) target (hintKey h) (hintValue h) cl of
        (Inl _, cl) \<Rightarrow> ((False, delivered), cl)
      | (Inr _, cl) \<Rightarrow> deliver_hints c target hs (delivered + 1) cl)"

text \<open>
  The hints of a target are read, delivered one by one and then dropped. Writes may fail and store new
  hints while that goes on: \<open>meanwhile target\<close> are the hints stored for the target between the
  two.
\<close>

definition replay_target ::
  "string \<Rightarrow> (string \<Rightarrow> (string \<times> Value) list) \<Rightarrow> nat \<times> Cluster \<Rightarrow> string \<Rightarrow> nat \<times> Cluster" where
  "replay_target c meanwhile st target =
     (let (delivered, cl) = st;
          hints = Peek (nodeHints (node_at cl c)) target;
          ((ok, delivered), cl) = deliver_hints c target hints delivered cl;
          n = node_at cl c;
          n = n\<lparr>nodeHints := foldl (\<lambda>h (k, v). Hints_Store h target k v) (nodeHints n) (meanwhile target)\<rparr>;
          n = (if ok \<and> length hints > 0 then n\<lparr>nodeHints := snd (Hints_Take (nodeHints n) target)\<rparr> else n)
      in (delivered, upd_node c n cl))"

definition ReplayHints :: "string \<Rightarrow> (string \<Rightarrow> (string \<times> Value) list) \<Rightarrow> Cluster \<Rightarrow> nat \<times> Cluster" where
  "ReplayHints c meanwhile cl =
     foldl (replay_target c meanwhile) (0, cl) (Targets (nodeHints (node_at cl c)))"

definition StartAntiEntropy :: "Node \<Rightarrow> Node" where
  "StartAntiEntropy n = (if nodeAntiOn n \<or> nodeAntiEvery n \<le> 0 then n else n\<lparr>nodeAntiOn := True\<rparr>)"

text \<open>What the background goroutine does on every tick of its ticker.\<close>

definition anti_tick :: "string \<Rightarrow> (string \<Rightarrow> (string \<times> Value) list) \<Rightarrow> Cluster \<Rightarrow> Cluster" where
  "anti_tick c meanwhile cl =
     (let (_, cl) = AntiEntropyRound c cl; (_, cl) = ReplayHints c meanwhile cl in cl)"

definition StopAntiEntropy :: "Node \<Rightarrow> Node" where
  "StopAntiEntropy n = (if \<not> nodeAntiOn n then n else n\<lparr>nodeAntiOn := False\<rparr>)"

definition Node_Close :: "wal_error option \<Rightarrow> Node \<Rightarrow> wal_error option \<times> Node" where
  "Node_Close answer n =
     (let n = StopAntiEntropy n in
      (case repWAL (nodeReplica n) of None \<Rightarrow> None | Some w \<Rightarrow> WAL_Close answer w, n))"

end
