(* ===== verification/Cluster.thy ===== *)
theory Cluster
  imports Coordinator
begin

text \<open>
  What a cluster keeps while its nodes coordinate requests, repair each other and suffer faults. \<open>cluster_ok\<close>
  is the invariant: every node is known to the network under its own id, its replica is sound and its hints are
  values the program makes. \<open>evolves\<close> says that no replica forgets: each value held is below what is held later.
  Every step of the coordinator, down to the single goroutine, keeps both (\<open>moves\<close>), whatever the network and the
  disks do; \<open>step\<close> is the step relation built from them and \<open>steps\<close> its closure.
\<close>

section \<open>The invariant\<close>

definition node_of :: "Cluster \<Rightarrow> string \<Rightarrow> Node option" where
  "node_of cl i = fmlookup (cl_nodes cl) i"

definition hints_ok :: "(string \<Rightarrow> Policy) \<Rightarrow> Hints \<Rightarrow> bool" where
  "hints_ok pol h \<longleftrightarrow> (\<forall>t. \<forall>x \<in> set (Peek h t). wf_pol (pol (hintKey x)) (hintValue x))"

definition node_ok :: "(string \<Rightarrow> Policy) \<Rightarrow> string \<Rightarrow> Node \<Rightarrow> bool" where
  "node_ok pol i n \<longleftrightarrow>
     nodeID n = i \<and> nodeNet n = i \<and> valid_utf8 i \<and> repID (nodeReplica n) = i \<and>
     sound pol (nodeReplica n) \<and> durable pol (nodeReplica n) \<and> hints_ok pol (nodeHints n)"

text \<open>A send hook may take handlers away but not add any.\<close>

definition tame_hook :: "SendHook option \<Rightarrow> bool" where
  "tame_hook h \<longleftrightarrow>
     (\<forall>hook a b s f. h = Some hook \<longrightarrow> fmlookup (n_handlers (hook a b s f)) \<subseteq>\<^sub>m fmlookup (n_handlers f))"

definition handlers_ok :: "Faults \<Rightarrow> (string, Node) fmap \<Rightarrow> bool" where
  "handlers_ok f nodes \<longleftrightarrow>
     (\<forall>i h. fmlookup (n_handlers f) i = Some h \<longrightarrow> h = i \<and> fmlookup nodes i \<noteq> None)"

definition net_ok :: "Network \<Rightarrow> (string, Node) fmap \<Rightarrow> bool" where
  "net_ok net nodes \<longleftrightarrow> handlers_ok (faults net) nodes \<and> tame_hook (n_hook net)"

lemma handlers_ok_upd: "handlers_ok f nodes \<Longrightarrow> handlers_ok f (fmupd i n nodes)"
  by (auto simp: handlers_ok_def)

definition cluster_ok :: "(string \<Rightarrow> Policy) \<Rightarrow> Cluster \<Rightarrow> bool" where
  "cluster_ok pol cl \<longleftrightarrow> (\<forall>i n. node_of cl i = Some n \<longrightarrow> node_ok pol i n) \<and> net_ok (cl_net cl) (cl_nodes cl)"

definition evolves :: "Cluster \<Rightarrow> Cluster \<Rightarrow> bool" where
  "evolves cl cl' \<longleftrightarrow>
     (\<forall>i n. node_of cl i = Some n \<longrightarrow>
        (\<exists>n'. node_of cl' i = Some n' \<and> nodeMembers n' = nodeMembers n \<and> grows (nodeReplica n) (nodeReplica n'))) \<and>
     (\<forall>i. node_of cl i = None \<longrightarrow> node_of cl' i = None)"

definition moves :: "(string \<Rightarrow> Policy) \<Rightarrow> Cluster \<Rightarrow> Cluster \<Rightarrow> bool" where
  "moves pol cl cl' \<longleftrightarrow> cluster_ok pol cl' \<and> evolves cl cl'"

lemma node_ok_of: "cluster_ok pol cl \<Longrightarrow> node_of cl i = Some n \<Longrightarrow> node_ok pol i n"
  by (simp add: cluster_ok_def)

lemma node_at_of: "node_of cl i = Some n \<Longrightarrow> node_at cl i = n"
  by (simp add: node_of_def node_at_def)

lemma sound_typed: "sound pol r \<Longrightarrow> typed pol r"
  by (simp add: sound_def)

lemma evolves_refl: "cluster_ok pol cl \<Longrightarrow> evolves cl cl"
proof -
  assume ok: "cluster_ok pol cl"
  have "grows (nodeReplica n) (nodeReplica n)" if "node_of cl i = Some n" for i n
    using node_ok_of [OF ok that] by (intro grows_refl [of pol]) (simp add: node_ok_def sound_typed)
  then show ?thesis by (simp add: evolves_def)
qed

lemma evolvesD:
  assumes "evolves cl cl'" "node_of cl i = Some n"
  obtains n' where "node_of cl' i = Some n'" "nodeMembers n' = nodeMembers n" "grows (nodeReplica n) (nodeReplica n')"
  using assms unfolding evolves_def by blast

lemma movesD: "moves pol cl cl' \<Longrightarrow> cluster_ok pol cl'" "moves pol cl cl' \<Longrightarrow> evolves cl cl'"
  by (simp_all add: moves_def)

lemma moves_refl: "cluster_ok pol cl \<Longrightarrow> moves pol cl cl"
  by (simp add: moves_def evolves_refl)

lemma moves_trans:
  assumes "cluster_ok pol cl" "moves pol cl cl1" "moves pol cl1 cl2"
  shows "moves pol cl cl2"
proof -
  have ok: "cluster_ok pol cl1" "cluster_ok pol cl2" using assms by (auto simp: moves_def)
  have "\<exists>n2. node_of cl2 i = Some n2 \<and> nodeMembers n2 = nodeMembers n \<and> grows (nodeReplica n) (nodeReplica n2)"
    if n: "node_of cl i = Some n" for i n
  proof -
    obtain n1 where n1: "node_of cl1 i = Some n1" "nodeMembers n1 = nodeMembers n" "grows (nodeReplica n) (nodeReplica n1)"
      using evolvesD [OF movesD(2) [OF assms(2)] n] by blast
    obtain n2 where n2: "node_of cl2 i = Some n2" "nodeMembers n2 = nodeMembers n1" "grows (nodeReplica n1) (nodeReplica n2)"
      using evolvesD [OF movesD(2) [OF assms(3)] n1(1)] by blast
    have "typed pol (nodeReplica n)" "typed pol (nodeReplica n1)" "typed pol (nodeReplica n2)"
      using node_ok_of [OF assms(1) n] node_ok_of [OF ok(1) n1(1)] node_ok_of [OF ok(2) n2(1)]
      by (auto simp: node_ok_def sound_typed)
    then show ?thesis using n1 n2 grows_trans by metis
  qed
  moreover have "node_of cl2 i = None" if "node_of cl i = None" for i
    using that assms(2,3) by (simp add: moves_def evolves_def)
  ultimately show ?thesis using ok by (simp add: moves_def evolves_def)
qed

lemma node_of_simps [simp]:
  "node_of (upd_node i n cl) j = (if j = i then Some n else node_of cl j)"
  "node_of (cl\<lparr>cl_net := net\<rparr>) j = node_of cl j" "node_of (cl\<lparr>cl_io := io\<rparr>) j = node_of cl j"
  "node_of (cl\<lparr>cl_expired := ex\<rparr>) j = node_of cl j"
  by (simp_all add: node_of_def upd_node_def)

text \<open>Only the node at one reference changes.\<close>

lemma moves_upd:
  assumes "cluster_ok pol cl" "node_of cl i = Some n" "node_ok pol i n'"
    and "nodeMembers n' = nodeMembers n" "grows (nodeReplica n) (nodeReplica n')"
  shows "moves pol cl (upd_node i n' cl)"
proof -
  have "cluster_ok pol (upd_node i n' cl)"
    using assms(1,3) by (simp add: cluster_ok_def net_ok_def) (simp add: upd_node_def handlers_ok_upd)
  moreover have "evolves cl (upd_node i n' cl)"
    using evolves_refl [OF assms(1)] assms(2,4,5) by (simp add: evolves_def)
  ultimately show ?thesis by (simp add: moves_def)
qed

text \<open>Only the network or the environment changes.\<close>

lemma moves_net:
  assumes "cluster_ok pol cl" "net_ok net (cl_nodes cl)"
  shows "moves pol cl (cl\<lparr>cl_net := net\<rparr>)"
  using assms evolves_refl [OF assms(1)] by (simp add: moves_def cluster_ok_def evolves_def node_of_def)

lemma moves_env:
  assumes "cluster_ok pol cl"
  shows "moves pol cl (cl\<lparr>cl_io := io\<rparr>)" "moves pol cl (cl\<lparr>cl_expired := ex\<rparr>)"
  using assms evolves_refl [OF assms] by (simp_all add: moves_def cluster_ok_def evolves_def node_of_def)

section \<open>Single operations\<close>

definition reaches :: "Cluster \<Rightarrow> string \<Rightarrow> string \<Rightarrow> Value \<Rightarrow> bool" where
  "reaches cl i key v \<longleftrightarrow> (\<exists>n c. node_of cl i = Some n \<and> held (nodeReplica n) key = Some c \<and> below v c)"

lemma local_apply_moves:
  assumes "cluster_ok pol cl" "node_of cl i = Some n" "wf_pol (pol key) v"
  shows "moves pol cl (snd (local_apply i key v cl))"
    "snd (fst (local_apply i key v cl)) = None \<Longrightarrow> reaches (snd (local_apply i key v cl)) i key v"
proof -
  let ?io = "cl_io cl 0" and ?cl = "cl\<lparr>cl_io := \<lambda>i. cl_io cl (Suc i)\<rparr>"
  let ?r = "snd (Replica_Apply (nodeReplica n) ?io key v)"
  have s: "sound pol (nodeReplica n)" "durable pol (nodeReplica n)" and n: "node_ok pol i n"
    using node_ok_of [OF assms(1,2)] by (auto simp: node_ok_def)
  have eq: "local_apply i key v cl = (fst (Replica_Apply (nodeReplica n) ?io key v), upd_node i (n\<lparr>nodeReplica := ?r\<rparr>) ?cl)"
    using node_at_of [of ?cl i n] assms(2) by (simp add: local_apply_def next_io_def Let_def case_prod_unfold)
  note A = Apply_sound [OF s(1) assms(3), of ?io]
  have "durable pol ?r" "repID ?r = i"
    using Apply_durable [OF s assms(3)] Apply_wal(1) [of "nodeReplica n"] s(1) n by (auto simp: sound_def typed_def node_ok_def)
  have c: "moves pol cl ?cl" by (rule moves_env [OF assms(1)])
  then have "moves pol ?cl (upd_node i (n\<lparr>nodeReplica := ?r\<rparr>) ?cl)"
    using assms(2) A n \<open>durable pol ?r\<close> \<open>repID ?r = i\<close>
    by (intro moves_upd [of pol ?cl i n]) (auto simp: moves_def node_ok_def)
  then show "moves pol cl (snd (local_apply i key v cl))" using moves_trans [OF assms(1) c] by (simp add: eq)
  show "reaches (snd (local_apply i key v cl)) i key v" if "snd (fst (local_apply i key v cl)) = None"
    using A(3) that by (simp add: eq reaches_def)
qed

section \<open>Messages\<close>

lemma dispatch_handlers:
  assumes "net_ok net nodes"
  shows "net_ok (snd (dispatch net a b)) nodes"
    "fst (dispatch net a b) = Inr (h, d) \<Longrightarrow> h = b \<and> fmlookup nodes b \<noteq> None"
proof -
  let ?f = "snd (allowLocked ((faults net)\<lparr>n_seq := n_seq (faults net) + 1\<rparr>) a b)"
  have h: "n_handlers ?f = n_handlers (faults net)" by (simp add: allow_keeps)
  have f: "faults (snd (dispatch net a b)) =
      (case n_hook net of None \<Rightarrow> ?f | Some hook \<Rightarrow> hook a b (n_seq (faults net) + 1) ?f)"
    "n_hook (snd (dispatch net a b)) = n_hook net"
    by (auto simp: dispatch_def Let_def case_prod_unfold split: option.splits)
  have "fmlookup (n_handlers (faults (snd (dispatch net a b)))) \<subseteq>\<^sub>m fmlookup (n_handlers (faults net))"
    using assms h unfolding f net_ok_def tame_hook_def by (cases "n_hook net") (simp_all, metis)
  then show "net_ok (snd (dispatch net a b)) nodes"
    using assms unfolding net_ok_def handlers_ok_def f(2) by (metis map_le_def domI)
  show "h = b \<and> fmlookup nodes b \<noteq> None" if "fst (dispatch net a b) = Inr (h, d)"
  proof -
    have "fmlookup (n_handlers (faults net)) b = Some h"
      using that by (auto simp: dispatch_def Let_def case_prod_unfold allow_keeps split: option.splits if_splits)
    then show ?thesis using assms by (simp add: net_ok_def handlers_ok_def)
  qed
qed

text \<open>A call that is answered has run its method at the target; one that is not has changed nothing at all
  or failed at the target.\<close>

lemma rpc_cases:
  assumes "net_ok (cl_net cl) (cl_nodes cl)"
  obtains (lost) net ex e where "net_ok net (cl_nodes cl)"
      "rpc (\<lambda>expired. call expired i to meth) cl = (Inl e, cl\<lparr>cl_expired := ex, cl_net := net\<rparr>)"
  | (run) net ex r cl1 where "net_ok net (cl_nodes cl)" "node_of cl to \<noteq> None"
      "meth to (cl\<lparr>cl_expired := ex\<rparr>) = (r, cl1)"
      "rpc (\<lambda>expired. call expired i to meth) cl =
        (case r of Inl e \<Rightarrow> Inl (ErrHandler e) | Inr x \<Rightarrow> Inr x, cl1\<lparr>cl_net := net\<rparr>)"
proof -
  obtain d net where d: "dispatch (cl_net cl) i to = (d :: ('a rpc_error + string \<times> int), net)" by force
  let ?ex = "\<lambda>i. cl_expired cl (Suc i)" and ?now = "cl_expired cl 0"
  have n: "net_ok net (cl_nodes cl)" using dispatch_handlers(1) [OF assms, of i to] d by (metis snd_conv)
  have R: "rpc (\<lambda>expired. call expired i to meth) cl =
    (case d of
       Inl e \<Rightarrow> (Inl e, cl\<lparr>cl_expired := ?ex, cl_net := net\<rparr>)
     | Inr (h, delay) \<Rightarrow>
         (case sleep ?now delay of
            Some e \<Rightarrow> (Inl e, cl\<lparr>cl_expired := ?ex, cl_net := net\<rparr>)
          | None \<Rightarrow>
             (case meth h (cl\<lparr>cl_expired := ?ex\<rparr>) of
                (r, cl1) \<Rightarrow> (case r of Inl e \<Rightarrow> Inl (ErrHandler e) | Inr x \<Rightarrow> Inr x, cl1\<lparr>cl_net := net\<rparr>))))"
    by (simp add: rpc_def next_expired_def call_def d split: sum.splits option.splits prod.splits)
  show thesis
  proof (cases d)
    case (Inl e)
    then show thesis using lost [OF n, of e ?ex] R by simp
  next
    case (Inr hd)
    obtain h delay where hd: "hd = (h, delay)" by force
    have h: "h = to" "node_of cl to \<noteq> None"
    proof -
      have "fst (dispatch (cl_net cl) i to :: ('a rpc_error + string \<times> int) \<times> Network) = Inr (h, delay)"
        using d Inr hd by simp
      from dispatch_handlers(2) [OF assms this] show "h = to" "node_of cl to \<noteq> None" by (simp_all add: node_of_def)
    qed
    obtain r cl1 where m: "meth to (cl\<lparr>cl_expired := ?ex\<rparr>) = (r, cl1)" by force
    show thesis
    proof (cases "sleep ?now delay :: 'a rpc_error option")
      case None
      then show thesis using run [OF n h(2) m] R Inr hd h(1) m by simp
    next
      case (Some e)
      then show thesis using lost [OF n, of e ?ex] R Inr hd by simp
    qed
  qed
qed

lemma moves_after:
  assumes "cluster_ok pol cl" "moves pol cl cl1" "net_ok net (cl_nodes cl)"
  shows "moves pol cl (cl1\<lparr>cl_net := net\<rparr>)"
proof -
  have "fmlookup (cl_nodes cl1) i \<noteq> None" if "fmlookup (cl_nodes cl) i \<noteq> None" for i
    using that evolvesD [OF movesD(2) [OF assms(2)]] unfolding node_of_def by (metis not_None_eq)
  then have "net_ok net (cl_nodes cl1)" using assms(3) by (simp add: net_ok_def handlers_ok_def)
  then show ?thesis using moves_trans [OF assms(1,2)] moves_net movesD(1) [OF assms(2)] by blast
qed

lemma rpc_moves:
  assumes "cluster_ok pol cl"
    and "\<And>cl0 n. cluster_ok pol cl0 \<Longrightarrow> node_of cl0 to = Some n \<Longrightarrow> moves pol cl0 (snd (meth to cl0))"
  shows "moves pol cl (snd (rpc (\<lambda>expired. call expired i to meth) cl))"
proof -
  have net: "net_ok (cl_net cl) (cl_nodes cl)" using assms(1) by (simp add: cluster_ok_def)
  show ?thesis
  proof (cases rule: rpc_cases [OF net, of i to meth])
    case (1 net ex e)
    then show ?thesis using moves_after [OF assms(1) moves_env(2) [OF assms(1), of ex] 1(1)] by simp
  next
    case (2 net ex r cl1)
    have e: "moves pol cl (cl\<lparr>cl_expired := ex\<rparr>)" by (rule moves_env [OF assms(1)])
    then have "moves pol (cl\<lparr>cl_expired := ex\<rparr>) cl1"
      using assms(2) [OF movesD(1) [OF e]] 2(2,3) by (metis node_of_simps(4) not_None_eq snd_conv)
    then show ?thesis using moves_after [OF assms(1) moves_trans [OF assms(1) e] 2(1)] 2(4) by simp
  qed
qed

lemma reaches_simps [simp]: "reaches (cl\<lparr>cl_net := net\<rparr>) i key v = reaches cl i key v"
  by (simp add: reaches_def)

lemma ReplicateWrite_moves:
  assumes "cluster_ok pol cl" "wf_pol (pol key) v"
  shows "moves pol cl (snd (Net_ReplicateWrite n to key v cl))"
    "fst (Net_ReplicateWrite n to key v cl) = Inr u \<Longrightarrow> reaches (snd (Net_ReplicateWrite n to key v cl)) to key v"
proof -
  let ?m = "\<lambda>h. ApplyReplicate h (nodeNet n) key v"
  have eq: "Net_ReplicateWrite n to key v = rpc (\<lambda>expired. call expired (nodeNet n) to ?m)"
    by (simp add: Net_ReplicateWrite_def Endpoint_ReplicateWrite_def fun_eq_iff)
  have ap: "snd (ApplyReplicate i j key v c) = snd (local_apply i key v c)"
    "fst (ApplyReplicate i j key v c) = Inr () \<longleftrightarrow> snd (fst (local_apply i key v c)) = None" for i j c
    by (auto simp: ApplyReplicate_def Let_def case_prod_unfold split: option.splits)
  show "moves pol cl (snd (Net_ReplicateWrite n to key v cl))"
    unfolding eq by (rule rpc_moves [OF assms(1)]) (simp add: ap local_apply_moves(1) assms(2))
  show "reaches (snd (Net_ReplicateWrite n to key v cl)) to key v" if "fst (Net_ReplicateWrite n to key v cl) = Inr u"
  proof -
    have net: "net_ok (cl_net cl) (cl_nodes cl)" using assms(1) by (simp add: cluster_ok_def)
    show ?thesis
    proof (cases rule: rpc_cases [OF net, of "nodeNet n" to ?m])
      case (1 net ex e)
      then show ?thesis using that by (simp add: eq)
    next
      case (2 net ex r cl1)
      let ?c = "cl\<lparr>cl_expired := ex\<rparr>"
      have "r = Inr ()" using that 2(4) by (auto simp: eq split: sum.splits)
      then have "snd (fst (local_apply to key v ?c)) = None" using ap(2) [of to "nodeNet n" ?c] 2(3) by simp
      moreover obtain m where "node_of ?c to = Some m" using 2(2) by auto
      moreover have "cluster_ok pol ?c" using moves_env(2) [OF assms(1)] movesD(1) by blast
      ultimately have "reaches (snd (local_apply to key v ?c)) to key v"
        using local_apply_moves(2) assms(2) by blast
      moreover have "cl1 = snd (local_apply to key v ?c)" using ap(1) [of to "nodeNet n" ?c] 2(3) by simp
      ultimately show ?thesis using 2(4) by (simp add: eq)
    qed
  qed
qed

lemma ReplayHint_ReplicateWrite: "Net_ReplayHint n to key v cl = Net_ReplicateWrite n to key v cl"
  by (simp add: Net_ReplayHint_def Net_ReplicateWrite_def Endpoint_ReplayHint_def)

lemma Read_rpc_moves:
  assumes "cluster_ok pol cl"
  shows "moves pol cl (snd (Net_ReplicateRead n to key cl))" "moves pol cl (snd (Net_GetDigest n to cl))"
proof -
  have "Net_ReplicateRead n to key cl = rpc (\<lambda>expired. call expired (nodeNet n) to (\<lambda>h. ServeRead h (nodeNet n) key)) cl"
    "Net_GetDigest n to cl = rpc (\<lambda>expired. call expired (nodeNet n) to (\<lambda>h. ServeDigest h (nodeNet n))) cl"
    by (simp_all add: Net_ReplicateRead_def Endpoint_ReplicateRead_def Net_GetDigest_def Endpoint_GetDigest_def)
  then show "moves pol cl (snd (Net_ReplicateRead n to key cl))" "moves pol cl (snd (Net_GetDigest n to cl))"
    by (auto intro!: rpc_moves [OF assms] simp: ServeRead_def ServeDigest_def Let_def moves_refl)
qed

section \<open>Preparing a write\<close>

text \<open>The requests that use a key under its policy: any policy but the two CRDTs is last-writer-wins.\<close>

definition norm_policy :: "Policy \<Rightarrow> Policy" where
  "norm_policy p = (if p = PolicyCRDTORSet \<or> p = PolicyCRDTLWWReg then p else PolicyLWW)"

definition req_ok :: "(string \<Rightarrow> Policy) \<Rightarrow> WriteReq \<Rightarrow> bool" where
  "req_ok pol req \<longleftrightarrow> norm_policy (wqPolicy req) = pol (wqKey req) \<and> valid_utf8 (wqORSetElem req)"

lemma orset_op_grows:
  assumes "wf_orset s" "valid_utf8 e" "valid_utf8 tag"
  shows "mergeORSetStates s (Add s e tag) = Add s e tag" "mergeORSetStates s (Remove s e) = Remove s e"
proof -
  have u: "opt_union x (opt_union x y) = opt_union x y" for x y by (metis opt_union_aci(1,3))
  have w: "wf_orset (Add s e tag)" "wf_orset (Remove s e)" using assms by (auto intro: wf_intros)
  show "mergeORSetStates s (Add s e tag) = Add s e tag"
    by (rule wf_orset_eqI [OF wf_merge [OF assms(1) w(1)] w(1)])
      (simp_all add: merge_view Add_def set_tag_view opt_union_aci(3) u)
  show "mergeORSetStates s (Remove s e) = Remove s e"
    by (rule wf_orset_eqI [OF wf_merge [OF assms(1) w(2)] w(2)])
      (simp_all add: merge_view Remove_def remove_tags_view opt_union_aci(3) u)
qed

lemma Get_held:
  assumes "typed pol r"
  shows "Replica_Get r k = (case held r k of None \<Rightarrow> (zero_Value, False) | Some c \<Rightarrow> (c, True))"
  using assms held_canon [of r k] by (auto simp: Replica_Get_def KV_Get_def held_def typed_def split: option.splits)

lemma tag_utf8: "valid_utf8 (nodeID n) \<Longrightarrow> valid_utf8 (fst (nextORSetTag n))"
  by (auto simp: nextORSetTag_def Let_def byte_def valid_utf8_itoa_nat intro!: valid_utf8_append)

lemma localPrepare_frame:
  "nodeID (snd (localPrepare n req ver)) = nodeID n" "nodeMembers (snd (localPrepare n req ver)) = nodeMembers n"
  "nodeReplica (snd (localPrepare n req ver)) = nodeReplica n" "nodeNet (snd (localPrepare n req ver)) = nodeNet n"
  "nodeHints (snd (localPrepare n req ver)) = nodeHints n"
  by (simp_all add: localPrepare_def nextORSetTag_def Let_def case_prod_unfold)

text \<open>The payload of a write under each policy: well formed, with the new version, above the current value.\<close>

lemma orset_payload:
  fixes opn :: string
  assumes "found \<Longrightarrow> wf_orset_value c \<and> Version c < ver" "valid_utf8 e" "valid_utf8 tag"
  defines "v \<equiv> ApplyORSetOp c found opn e tag ver"
  shows "wf_orset_value v" "Version v = ver" "found \<Longrightarrow> below c v"
proof -
  show wv: "wf_orset_value v" unfolding v_def using assms(1-3) by (intro wf_ApplyORSetOp) auto
  show "Version v = ver" by (simp add: v_def ApplyORSetOp_base)
  assume found
  then have c: "wf_orset_value c" "Version c < ver" using assms(1) by auto
  obtain s where s: "wf_orset s" "c = encodeORSet s (Version c)" using c(1) by (auto simp: wf_orset_value_def)
  define s' where "s' = (if opn = ''remove'' then Remove s e else Add s e tag)"
  have "decodeORSet c = s" using decode_encode_ORSet [OF s(1), of "Version c"] s(2) by simp
  then have v': "v = encodeORSet s' ver" using \<open>found\<close> by (simp add: v_def ApplyORSetOp_base base_state_def s'_def)
  have ws': "wf_orset s'" using s(1) assms(2,3) by (auto simp: s'_def intro: wf_intros)
  have "mergeORSetStates s s' = s'" using orset_op_grows [OF s(1) assms(2,3)] by (simp add: s'_def)
  then have "MergeORSet c v = v"
    using MergeORSet_encode [OF s(1) ws', of "Version c" ver] s(2) v' c(2) by (simp add: max_def)
  then show "below c v" using Resolve_orset [OF c(1) wv] by (simp add: below_def)
qed

lemma reg_payload:
  fixes data :: slice and tomb :: bool
  assumes "found \<Longrightarrow> wf_lwwreg c \<and> Version c < ver" "valid_utf8 (NodeID ver)"
  defines "v \<equiv> ApplyLWWRegWrite c found data ver tomb"
  shows "wf_lwwreg v" "Version v = ver" "found \<Longrightarrow> below c v"
proof -
  let ?new = "encodeLWWReg (newLWWReg data ver tomb)"
  have wn: "wf_lwwreg ?new" "Version ?new = ver"
    using wf_newLWWReg [OF assms(2)] by (auto intro: wf_intros simp: newLWWReg_def)
  have v: "v = (if found then MergeLWWReg c ?new else ?new)" by (simp add: v_def ApplyLWWRegWrite_def)
  show wv: "wf_lwwreg v" using assms(1) wn(1) lwwreg.closed by (simp add: v)
  show "Version v = ver" using assms(1) wn MergeLWWReg_version by (auto simp: v max_def)
  show "below c v" if found
    using assms(1) that wn(1) wv lwwreg.absorb Resolve_reg by (simp add: below_def v)
qed

lemma lww_payload:
  fixes d :: slice and tomb :: bool
  assumes "found \<Longrightarrow> wf_lww c \<and> Version c < ver"
  defines "v \<equiv> \<lparr>Data = append_nil d, Version = ver, Policy = PolicyLWW, Tombstone = tomb, CRDT = None\<rparr>"
  shows "wf_lww v" "Version v = ver" "found \<Longrightarrow> below c v"
proof -
  show wv: "wf_lww v" "Version v = ver" by (simp_all add: v_def wf_lww_def)
  show "below c v" if found
    using assms(1) [OF that] value_key_le_version [of v c] wv by (auto simp: below_def Resolve_lww LWW_wf)
qed

lemma localPrepare_payload:
  assumes "typed pol (nodeReplica n)" "req_ok pol req" "valid_utf8 (nodeID n)" "valid_utf8 (NodeID ver)"
    and "\<And>c. held (nodeReplica n) (wqKey req) = Some c \<Longrightarrow> Version c < ver"
  defines "v \<equiv> fst (localPrepare n req ver)"
  shows "wf_pol (pol (wqKey req)) v" "Version v = ver"
    "\<And>c. held (nodeReplica n) (wqKey req) = Some c \<Longrightarrow> below c v"
proof -
  let ?k = "wqKey req" and ?h = "held (nodeReplica n) (wqKey req)"
  obtain c found where g: "Replica_Get (nodeReplica n) ?k = (c, found)" by force
  have cur: "found \<Longrightarrow> wf_pol (pol ?k) c \<and> Version c < ver" "\<And>d. ?h = Some d \<longleftrightarrow> found \<and> c = d"
    using g assms(1,5) by (auto simp: Get_held [OF assms(1)] typed_def split: option.splits)
  consider (orset) "wqPolicy req = PolicyCRDTORSet" "pol ?k = PolicyCRDTORSet"
    | (reg) "wqPolicy req = PolicyCRDTLWWReg" "pol ?k = PolicyCRDTLWWReg"
    | (lww) "wqPolicy req \<noteq> PolicyCRDTORSet" "wqPolicy req \<noteq> PolicyCRDTLWWReg" "pol ?k = PolicyLWW"
    using assms(2) by (auto simp: req_ok_def norm_policy_def split: if_splits)
  then have "wf_pol (pol ?k) v \<and> Version v = ver \<and> (found \<longrightarrow> below c v)"
  proof cases
    case orset
    then show ?thesis
      using orset_payload [of found c ver "wqORSetElem req" "fst (nextORSetTag n)" "wqORSetOp req"] cur assms(2) tag_utf8 [OF assms(3)]
      by (auto simp: v_def localPrepare_def g wf_pol_simps req_ok_def case_prod_unfold Let_def)
  next
    case reg
    then show ?thesis
      using reg_payload [of found c ver "wqData req" "wqTombstone req"] cur assms(4) by (auto simp: v_def localPrepare_def g wf_pol_simps)
  next
    case lww
    then show ?thesis
      using lww_payload [of found c ver "wqData req" "wqTombstone req"] cur by (auto simp: v_def localPrepare_def g wf_pol_simps)
  qed
  then show "wf_pol (pol ?k) v" "Version v = ver" "\<And>d. ?h = Some d \<Longrightarrow> below d v" using cur(2) by auto
qed

section \<open>The steps of a write\<close>

lemma Lamport_less: "Lamport a < Lamport b \<Longrightarrow> (a :: Version) < b"
  by (simp add: less_Version_ext_def less_prod_def')

lemma held_clock [simp]: "held (r\<lparr>repClock := x\<rparr>) = held r"
  by (simp add: held_def fun_eq_iff)

lemma write_begin_facts:
  assumes "cluster_ok pol cl" "node_of cl c = Some n" "req_ok pol req" "clock_t (repClock (nodeReplica n)) + 1 \<noteq> 0"
  defines "ver \<equiv> fst (fst (write_begin c req cl))" and "v \<equiv> snd (fst (write_begin c req cl))"
  shows "moves pol cl (snd (write_begin c req cl))"
    "ver = \<lparr>Lamport = clock_t (repClock (nodeReplica n)) + 1, NodeID = c\<rparr>"
    "wf_pol (pol (wqKey req)) v" "Version v = ver"
    "\<And>d. held (nodeReplica n) (wqKey req) = Some d \<Longrightarrow> below d v \<and> Version d < ver"
    "cl_nodes (snd (write_begin c req cl)) = fmupd c (the (node_of (snd (write_begin c req cl)) c)) (cl_nodes cl)"
proof -
  let ?r = "nodeReplica n" and ?t = "clock_t (repClock (nodeReplica n)) + 1"
  let ?n = "n\<lparr>nodeReplica := ?r\<lparr>repClock := (repClock ?r)\<lparr>clock_t := ?t\<rparr>\<rparr>\<rparr>"
  have n: "node_ok pol c n" by (rule node_ok_of [OF assms(1,2)])
  have id: "nodeID n = c" and u: "valid_utf8 c" and s: "sound pol ?r" using n by (auto simp: node_ok_def)
  have wb: "write_begin c req cl =
      ((\<lparr>Lamport = ?t, NodeID = c\<rparr>, fst (localPrepare ?n req \<lparr>Lamport = ?t, NodeID = c\<rparr>)),
       upd_node c (snd (localPrepare ?n req \<lparr>Lamport = ?t, NodeID = c\<rparr>)) cl)"
    using id by (simp add: write_begin_def Tick_def Let_def node_at_of [OF assms(2)] case_prod_unfold)
  show ver: "ver = \<lparr>Lamport = ?t, NodeID = c\<rparr>" by (simp add: ver_def wb)
  have lt: "clock_t (repClock ?r) < ?t" by (rule word_less_succ [OF assms(4)])
  have old: "Version d < \<lparr>Lamport = ?t, NodeID = c\<rparr>" if "held ?r k = Some d" for k d
    using s lt that by (intro Lamport_less) (auto simp: sound_def clock_covers_def intro: le_less_trans)
  have t: "typed pol (nodeReplica ?n)" using s by (simp add: sound_def typed_def rep_ok_def)
  note p = localPrepare_payload [of pol ?n req "\<lparr>Lamport = ?t, NodeID = c\<rparr>", OF t assms(3)]
  show "wf_pol (pol (wqKey req)) v" "Version v = ver"
    using p(1,2) u id old by (simp_all add: v_def wb ver_def)
  show "below d v \<and> Version d < ver" if "held ?r (wqKey req) = Some d" for d
    using p(3) u id old that by (simp add: v_def wb ver_def)
  have "clock_covers (nodeReplica ?n)"
    using s less_imp_le [OF lt] order_trans by (fastforce simp: sound_def clock_covers_def)
  moreover have "durable pol (nodeReplica ?n)" using n by (auto simp: node_ok_def durable_def restart_def grows_def)
  ultimately have "node_ok pol c (snd (localPrepare ?n req \<lparr>Lamport = ?t, NodeID = c\<rparr>))"
    using n t by (simp add: node_ok_def localPrepare_frame sound_def)
  moreover have "grows ?r (nodeReplica ?n)"
    using grows_refl [OF sound_typed [OF s]] by (simp add: grows_def)
  ultimately show "moves pol cl (snd (write_begin c req cl))"
    unfolding wb snd_conv by (intro moves_upd [OF assms(1,2)]) (simp_all add: localPrepare_frame)
  show "cl_nodes (snd (write_begin c req cl)) = fmupd c (the (node_of (snd (write_begin c req cl)) c)) (cl_nodes cl)"
    by (simp add: wb) (simp add: upd_node_def)
qed

lemma hints_ok_store: "hints_ok pol h \<Longrightarrow> wf_pol (pol key) v \<Longrightarrow> hints_ok pol (Hints_Store h t key v)"
  by (auto simp: hints_ok_def hints.peek_store)

lemma node_of_some:
  assumes "moves pol cl cl'" "node_of cl c = Some n"
  obtains n' where "node_of cl' c = Some n'" "node_ok pol c n'" "nodeMembers n' = nodeMembers n"
  using evolvesD [OF movesD(2) [OF assms(1)] assms(2)] node_ok_of [OF movesD(1) [OF assms(1)]] by metis

lemma moves_hints:
  assumes "cluster_ok pol cl" "node_of cl c = Some n" "hints_ok pol h"
  shows "moves pol cl (upd_node c (n\<lparr>nodeHints := h\<rparr>) cl)"
  using node_ok_of [OF assms(1,2)] assms
  by (intro moves_upd [OF assms(1,2)]) (auto simp: node_ok_def intro: grows_refl sound_typed)

lemma write_task_moves:
  assumes "cluster_ok pol cl" "node_of cl c = Some n" "wf_pol (pol key) v"
  shows "moves pol cl (snd (write_task c key v peer cl))"
    "fst (write_task c key v peer cl) = None \<Longrightarrow> reaches (snd (write_task c key v peer cl)) peer key v"
proof -
  have id: "nodeID n = c" using node_ok_of [OF assms(1,2)] by (simp add: node_ok_def)
  have at: "node_at cl c = n" by (rule node_at_of [OF assms(2)])
  have "moves pol cl (snd (write_task c key v peer cl)) \<and>
    (fst (write_task c key v peer cl) = None \<longrightarrow> reaches (snd (write_task c key v peer cl)) peer key v)"
  proof (cases "peer = c")
    case True
    then show ?thesis
      using local_apply_moves [OF assms] by (auto simp: write_task_def at id Let_def case_prod_unfold)
  next
    case False
    obtain r cl1 where r: "Net_ReplicateWrite n peer key v cl = (r, cl1)" by force
    note m = ReplicateWrite_moves [OF assms(1,3), of n peer]
    have m1: "moves pol cl cl1" using m(1) r by simp
    show ?thesis
    proof (cases r)
      case (Inr u)
      then show ?thesis using m r False by (simp add: write_task_def at id Let_def)
    next
      case (Inl e)
      obtain n1 where n1: "node_of cl1 c = Some n1" "node_ok pol c n1" using node_of_some [OF m1 assms(2)] by blast
      have "hints_ok pol (Hints_Store (nodeHints n1) peer key v)"
        using n1(2) assms(3) by (intro hints_ok_store) (simp_all add: node_ok_def)
      from moves_trans [OF assms(1) m1 moves_hints [OF movesD(1) [OF m1] n1(1) this]]
      show ?thesis using Inl r False by (simp add: write_task_def at id Let_def node_at_of [OF n1(1)])
    qed
  qed
  then show "moves pol cl (snd (write_task c key v peer cl))"
    "fst (write_task c key v peer cl) = None \<Longrightarrow> reaches (snd (write_task c key v peer cl)) peer key v" by blast+
qed

text \<open>What is reached stays reached.\<close>

lemma reaches_moves:
  assumes "cluster_ok pol cl" "moves pol cl cl'" "reaches cl i key v" "wf_pol (pol key) v"
  shows "reaches cl' i key v"
proof -
  obtain n d where n: "node_of cl i = Some n" "held (nodeReplica n) key = Some d" "below v d"
    using assms(3) by (auto simp: reaches_def)
  obtain n' where n': "node_of cl' i = Some n'" "grows (nodeReplica n) (nodeReplica n')"
    using evolvesD [OF movesD(2) [OF assms(2)] n(1)] by blast
  then obtain d' where d': "held (nodeReplica n') key = Some d'" "below d d'" using n(2) by (auto simp: grows_def)
  have "typed pol (nodeReplica n)" "typed pol (nodeReplica n')"
    using node_ok_of [OF assms(1) n(1)] node_ok_of [OF movesD(1) [OF assms(2)] n'(1)] by (simp_all add: node_ok_def sound_typed)
  then have "below v d'"
    using value_below_trans [of "pol key" v d d'] n(2,3) d' assms(4) by (simp add: typed_def)
  then show ?thesis using n'(1) d'(1) by (auto simp: reaches_def)
qed

section \<open>Goroutines in sequence\<close>

lemma length_run_tasks [simp]: "length (fst (run_tasks task ps s)) = length ps"
  by (induction ps arbitrary: s) (simp_all add: Let_def case_prod_unfold)

lemma run_tasks_moves:
  assumes "\<And>p cl n. cluster_ok pol cl \<Longrightarrow> node_of cl c = Some n \<Longrightarrow> moves pol cl (snd (task p cl))"
    and "cluster_ok pol cl" "node_of cl c = Some n"
  shows "moves pol cl (snd (run_tasks task ps cl))"
  using assms(2,3)
proof (induction ps arbitrary: cl n)
  case Nil
  then show ?case by (simp add: moves_refl)
next
  case (Cons p ps)
  have m: "moves pol cl (snd (task p cl))" by (rule assms(1) [OF Cons.prems])
  obtain n' where "node_of (snd (task p cl)) c = Some n'" using node_of_some [OF m Cons.prems(2)] by blast
  from moves_trans [OF Cons.prems(1) m Cons.IH [OF movesD(1) [OF m] this]]
  show ?case by (simp add: Let_def case_prod_unfold)
qed

text \<open>The members that acknowledged hold the value at the end.\<close>

lemma write_tasks_reach:
  assumes "cluster_ok pol cl" "node_of cl c = Some n" "wf_pol (pol key) v"
    and "(p, None) \<in> set (zip ps (fst (run_tasks (write_task c key v) ps cl)))"
  shows "reaches (snd (run_tasks (write_task c key v) ps cl)) p key v"
  using assms(1,2,4)
proof (induction ps arbitrary: cl n)
  case (Cons q ps)
  let ?cl = "snd (write_task c key v q cl)"
  note t = write_task_moves [OF Cons.prems(1,2) assms(3), of q]
  obtain n' where n': "node_of ?cl c = Some n'" using node_of_some [OF t(1) Cons.prems(2)] by blast
  have m: "moves pol ?cl (snd (run_tasks (write_task c key v) ps ?cl))"
    by (rule run_tasks_moves [OF _ movesD(1) [OF t(1)] n']) (erule write_task_moves(1) [where pol = pol], assumption, rule assms(3))
  have "p = q \<and> fst (write_task c key v q cl) = None \<or> (p, None) \<in> set (zip ps (fst (run_tasks (write_task c key v) ps ?cl)))"
    using Cons.prems(3) by (auto simp: Let_def case_prod_unfold)
  then show ?case
    using Cons.IH [OF movesD(1) [OF t(1)] n'] reaches_moves [OF movesD(1) [OF t(1)] m _ assms(3)] t(2)
    by (auto simp: Let_def case_prod_unfold)
qed simp

section \<open>The channels\<close>

abbreviation acks_in :: "'e option list \<Rightarrow> nat" where
  "acks_in rs \<equiv> length (filter (\<lambda>e. e = None) rs)"

lemma write_collect_ok:
  "write_collect ver w acks n (map Result rs @ ds) = Some resp \<Longrightarrow> wrOK resp \<Longrightarrow> set ds \<subseteq> {Done} \<Longrightarrow>
    w \<le> acks + int (acks_in rs) \<and> wrVersion resp = ver \<and> wrAcksReceived resp \<ge> w"
proof (induction rs arbitrary: acks n)
  case Nil
  then show ?case
    by (cases n; cases ds) (auto split: if_splits)
next
  case (Cons r rs)
  then show ?case
    by (cases n) (auto split: if_splits dest!: Cons.IH)
qed

lemma write_collect_exact:
  "acks < w \<Longrightarrow> write_collect ver w acks (length rs) (map Result rs) =
    Some (if acks + int (acks_in rs) \<ge> w then \<lparr>wrOK = True, wrVersion = ver, wrAcksReceived = w, wrError = ''''\<rparr>
      else \<lparr>wrOK = False, wrVersion = ver, wrAcksReceived = acks + int (acks_in rs),
         wrError = ''need W='' @ itoa w @ '' acks, got '' @ itoa (acks + int (acks_in rs))\<rparr>)"
proof (induction rs arbitrary: acks)
  case (Cons r rs)
  show ?case
  proof (cases "r = None")
    case True
    show ?thesis
    proof (cases "acks + 1 < w")
      case lt: True
      have "acks + int (acks_in (r # rs)) = acks + 1 + int (acks_in rs)" using True by simp
      then show ?thesis using Cons.IH [OF lt] True lt by (simp add: add.assoc)
    next
      case False
      then have "acks + 1 = w" using Cons.prems by simp
      then show ?thesis using True by simp
    qed
  next
    case False
    then obtain e where "r = Some e" by blast
    then show ?thesis using Cons.IH [OF Cons.prems] by simp
  qed
qed simp

lemma read_collect_views:
  "read_collect r n views (map Result rs @ ds) = Some vs \<Longrightarrow> set ds \<subseteq> {Done} \<Longrightarrow>
    \<exists>k. vs = views @ take k [v. Inr v \<leftarrow> rs]"
proof (induction rs arbitrary: n views)
  case Nil
  then show ?case
    by (cases ds) (auto simp: read_collect.simps [of r n views] split: if_splits event.splits sum.splits)
next
  case (Cons x rs)
  show ?case
  proof (cases "n > 0 \<and> int (length views) < r")
    case True
    show ?thesis
    proof (cases x)
      case (Inl e)
      then show ?thesis
        using Cons.IH [of "n - 1" views] Cons.prems True by (simp add: read_collect.simps [of r n views])
    next
      case (Inr v)
      then obtain k where "vs = (views @ [v]) @ take k [v. Inr v \<leftarrow> rs]"
        using Cons.IH [of "n - 1" "views @ [v]"] Cons.prems True by (auto simp: read_collect.simps [of r n views])
      then show ?thesis using Inr by (intro exI [of _ "Suc k"]) simp
    qed
  next
    case False
    then show ?thesis using Cons.prems by (intro exI [of _ 0]) (auto simp: read_collect.simps [of r n views])
  qed
qed

section \<open>The steps of a read\<close>

definition sees :: "(string \<Rightarrow> Policy) \<Rightarrow> Cluster \<Rightarrow> string \<Rightarrow> string \<Rightarrow> ReplicaView \<Rightarrow> bool" where
  "sees pol cl p key vw \<longleftrightarrow> rvNodeID vw = p \<and>
     (rvFound vw \<longrightarrow> wf_pol (pol key) (rvValue vw)) \<and>
     (\<forall>w. wf_pol (pol key) w \<longrightarrow> reaches cl p key w \<longrightarrow> rvFound vw \<and> below w (rvValue vw))"

lemma sees_held:
  assumes "cluster_ok pol cl" "node_of cl p = Some n" "Replica_Get (nodeReplica n) key = (v, ok)"
  shows "sees pol cl p key \<lparr>rvNodeID = p, rvValue = v, rvFound = ok\<rparr>"
proof -
  have t: "typed pol (nodeReplica n)" using node_ok_of [OF assms(1,2)] by (simp add: node_ok_def sound_typed)
  then show ?thesis
    using assms(2,3) by (auto simp: sees_def reaches_def Get_held [OF t] typed_def split: option.splits)
qed

lemma sees_env: "sees pol (cl\<lparr>cl_expired := ex\<rparr>) p key vw = sees pol cl p key vw"
  by (simp add: sees_def reaches_def)

lemma sees_before:
  assumes "cluster_ok pol cl" "moves pol cl cl'" "sees pol cl' p key vw"
  shows "sees pol cl p key vw"
  using assms reaches_moves [OF assms(1,2)] by (auto simp: sees_def)

lemma read_task_facts:
  assumes "cluster_ok pol cl" "node_of cl c = Some n"
  shows "moves pol cl (snd (read_task c key peer cl))"
    "fst (read_task c key peer cl) = Inr vw \<Longrightarrow> sees pol cl peer key vw"
proof -
  have id: "nodeID n = c" using node_ok_of [OF assms(1,2)] by (simp add: node_ok_def)
  note at = node_at_of [OF assms(2)]
  let ?m = "\<lambda>h. ServeRead h (nodeNet n) key"
  have eq: "Net_ReplicateRead n peer key cl = rpc (\<lambda>expired. call expired (nodeNet n) peer ?m) cl"
    by (simp add: Net_ReplicateRead_def Endpoint_ReplicateRead_def)
  show "moves pol cl (snd (read_task c key peer cl))"
    using Read_rpc_moves(1) [OF assms(1), of n peer key] moves_refl [OF assms(1)]
    by (auto simp: read_task_def at Let_def case_prod_unfold split: prod.splits sum.splits)
  assume vw: "fst (read_task c key peer cl) = Inr vw"
  show "sees pol cl peer key vw"
  proof (cases "peer = c")
    case True
    then show ?thesis
      using vw sees_held [OF assms] by (auto simp: read_task_def at id Let_def case_prod_unfold split: if_splits)
  next
    case False
    have net: "net_ok (cl_net cl) (cl_nodes cl)" using assms(1) by (simp add: cluster_ok_def)
    show ?thesis
    proof (cases rule: rpc_cases [OF net, of "nodeNet n" peer ?m])
      case (1 net ex e)
      then show ?thesis using vw False by (simp add: read_task_def at id eq)
    next
      case (2 net ex r cl1)
      obtain m where m: "node_of cl peer = Some m" using 2(2) by blast
      then have "node_at (cl\<lparr>cl_expired := ex\<rparr>) peer = m" by (simp add: node_at_of)
      then have "r = (if \<not> ReadsEnabled (nodeReplica m) then Inl ReadsDisabled else Inr (Replica_Get (nodeReplica m) key))"
        using 2(3) by (auto simp: ServeRead_def split: if_splits)
      then show ?thesis
        using vw False 2(4) sees_held [OF assms(1) m]
        by (auto simp: read_task_def at id eq case_prod_unfold split: if_splits)
    qed
  qed
qed

lemma read_tasks_see:
  assumes "cluster_ok pol cl" "node_of cl c = Some n"
    and "(p, Inr vw) \<in> set (zip ps (fst (run_tasks (read_task c key) ps cl)))"
  shows "sees pol cl p key vw"
  using assms
proof (induction ps arbitrary: cl n)
  case (Cons q ps)
  note t = read_task_facts [OF Cons.prems(1,2), of key q]
  let ?cl = "snd (read_task c key q cl)"
  obtain n' where n': "node_of ?cl c = Some n'" using node_of_some [OF t(1) Cons.prems(2)] by blast
  have "p = q \<and> fst (read_task c key q cl) = Inr vw \<or> (p, Inr vw) \<in> set (zip ps (fst (run_tasks (read_task c key) ps ?cl)))"
    using Cons.prems(3) by (auto simp: Let_def case_prod_unfold)
  then show ?case
    using t(2) Cons.IH [OF movesD(1) [OF t(1)] n'] sees_before [OF Cons.prems(1) t(1)] by blast
qed simp

section \<open>Repair\<close>

lemma repair_one_moves:
  assumes "cluster_ok pol cl" "node_of cl c = Some n" "wf_pol (pol key) v"
  shows "moves pol cl (snd (repair_one c key v (b, cl) dest))"
  using local_apply_moves(1) [OF assms] ReplicateWrite_moves(1) [OF assms(1,3), of n dest]
  by (auto simp: repair_one_def node_at_of [OF assms(2)] Let_def split: prod.splits sum.splits)

lemma foldl_moves:
  assumes "\<And>b cl n x. x \<in> set xs \<Longrightarrow> cluster_ok pol cl \<Longrightarrow> node_of cl c = Some n \<Longrightarrow> moves pol cl (snd (f (b, cl) x))"
    and "cluster_ok pol cl" "node_of cl c = Some n"
  shows "moves pol cl (snd (foldl f (b, cl) xs))"
  using assms
proof (induction xs arbitrary: b cl n)
  case Nil
  then show ?case by (simp add: moves_refl)
next
  case (Cons x xs)
  obtain b' cl' where f: "f (b, cl) x = (b', cl')" by force
  have m: "moves pol cl cl'" using Cons.prems(1) [of x cl n b] Cons.prems(2,3) f by simp
  obtain n' where "node_of cl' c = Some n'" using node_of_some [OF m Cons.prems(3)] by blast
  then have "moves pol cl' (snd (foldl f (b', cl') xs))"
    using Cons.IH [of cl' n' b'] Cons.prems(1) movesD(1) [OF m] by simp
  then show ?case using moves_trans [OF Cons.prems(2) m] f by simp
qed

lemma read_finish_moves:
  assumes "cluster_ok pol cl" "node_of cl c = Some n" "\<And>v. v \<in> set views \<Longrightarrow> rvFound v \<Longrightarrow> wf_pol (pol key) (rvValue v)"
  shows "moves pol cl (snd (read_finish c key views cl))"
proof -
  have wf: "wf_pol (pol key) (fst (ResolveMany views))" if "snd (ResolveMany views)"
    using that assms(3) by (intro ResolveMany_wf) (auto simp: ResolveMany_eq found_values_def split: list.splits)
  have "moves pol cl (snd (foldl (repair_one c key (fst (ResolveMany views))) (False, cl) (StaleAmong views (fst (ResolveMany views)))))"
    if "snd (ResolveMany views)"
    by (rule foldl_moves [OF _ assms(1,2)]) (erule repair_one_moves, assumption, rule wf [OF that])
  then show ?thesis
    using moves_refl [OF assms(1)] by (auto simp: read_finish_def Let_def case_prod_unfold)
qed

lemma digest_result:
  assumes "cluster_ok pol cl" "fst (Net_GetDigest n peer cl) = Inr remote"
  obtains m where "node_of cl peer = Some m" "remote = Replica_Snapshot (nodeReplica m)" "typed pol (nodeReplica m)"
proof -
  let ?m = "\<lambda>h. ServeDigest h (nodeNet n)"
  have eq: "Net_GetDigest n peer cl = rpc (\<lambda>expired. call expired (nodeNet n) peer ?m) cl"
    by (simp add: Net_GetDigest_def Endpoint_GetDigest_def)
  have net: "net_ok (cl_net cl) (cl_nodes cl)" using assms(1) by (simp add: cluster_ok_def)
  show thesis
  proof (cases rule: rpc_cases [OF net, of "nodeNet n" peer ?m])
    case (1 net ex e)
    then show thesis using assms(2) by (simp add: eq)
  next
    case (2 net ex s cl2)
    obtain m where m: "node_of cl peer = Some m" using 2(2) by blast
    have "remote = Replica_Snapshot (nodeReplica m)"
      using 2(3,4) assms(2) node_at_of [of "cl\<lparr>cl_expired := ex\<rparr>" peer m] m by (auto simp: eq ServeDigest_def)
    moreover have "typed pol (nodeReplica m)" using node_ok_of [OF assms(1) m] by (simp add: node_ok_def sound_typed)
    ultimately show thesis using that m by blast
  qed
qed

lemma pull_moves:
  assumes "cluster_ok pol cl" "node_of cl c = Some n" "\<And>k v. (k, v) \<in> set es \<Longrightarrow> wf_pol (pol k) v"
  shows "moves pol cl (snd (foldl (pull_one c) (b, cl) es))" "moves pol cl (snd (foldl (push_one c peer) (b, cl) es))"
proof -
  show "moves pol cl (snd (foldl (pull_one c) (b, cl) es))"
  proof (rule foldl_moves [OF _ assms(1,2)])
    fix b cl n x assume x: "x \<in> set es" "cluster_ok pol cl" "node_of cl c = Some n"
    then have "wf_pol (pol (fst x)) (snd x)" using assms(3) by simp
    then show "moves pol cl (snd (pull_one c (b, cl) x))"
      using local_apply_moves(1) [OF x(2,3)] by (simp add: pull_one_def case_prod_unfold)
  qed
  have "moves pol cl (snd (push_one c peer (b, cl) x))" if "x \<in> set es" "cluster_ok pol cl" for b cl x
    using ReplicateWrite_moves(1) [OF that(2), of "fst x" "snd x" "node_at cl c" peer] assms(3) [of "fst x" "snd x"] that(1)
    by (auto simp: push_one_def Let_def split: prod.splits sum.splits)
  then show "moves pol cl (snd (foldl (push_one c peer) (b, cl) es))" by (rule foldl_moves [OF _ assms(1,2)])
qed

lemma exchange_moves:
  assumes "cluster_ok pol cl" "node_of cl c = Some n"
  shows "moves pol cl (snd (exchange c (b, cl) peer))"
proof -  obtain r cl1 where r: "Net_GetDigest n peer cl = (r, cl1)" by force
  have m1: "moves pol cl cl1" using Read_rpc_moves(2) [OF assms(1), of n peer] r by simp
  obtain n1 where n1: "node_of cl1 c = Some n1" "node_ok pol c n1" using node_of_some [OF m1 assms(2)] by blast
  have t1: "typed pol (nodeReplica n1)" using n1(2) by (simp add: node_ok_def sound_typed)
  show ?thesis
  proof (cases r)
    case (Inl e)
    then show ?thesis using r m1 by (cases b) (simp add: exchange_def node_at_of [OF assms(2)])
  next
    case (Inr remote)
    have "fst (Net_GetDigest n peer cl) = Inr remote" using r Inr by simp
    then obtain m where m: "node_of cl peer = Some m" "remote = Replica_Snapshot (nodeReplica m)" "typed pol (nodeReplica m)"
      by (rule digest_result [OF assms(1)])
    have rem: "wf_pol (pol k) v" if "fmlookup remote k = Some v" for k v
      using that m(3) unfolding m(2) Snapshot_held [OF m(3)] by (simp add: typed_def)
    let ?plan = "Scan (Replica_Snapshot (nodeReplica n1)) remote"
    have wf: "wf_pol (pol k) v" if "(k, v) \<in> set (sorted_list_of_fmap (Pull ?plan)) \<or> (k, v) \<in> set (sorted_list_of_fmap (Push ?plan))" for k v
      using that plan_wf [of "Replica_Snapshot (nodeReplica n1)" k "pol k" remote v] rem t1
      by (auto simp: in_sorted_list_of_fmap Snapshot_held typed_def)
    obtain pulled cl2 where f2: "foldl (pull_one c) (snd b, cl1) (sorted_list_of_fmap (Pull ?plan)) = (pulled, cl2)" by force
    have m2: "moves pol cl1 cl2"
      using pull_moves(1) [OF movesD(1) [OF m1] n1(1), of "sorted_list_of_fmap (Pull ?plan)" "snd b"] f2 wf by simp
    obtain n2 where n2: "node_of cl2 c = Some n2" using node_of_some [OF m2 n1(1)] by blast
    have "moves pol cl2 (snd (foldl (push_one c peer) (fst b, cl2) (sorted_list_of_fmap (Push ?plan))))"
      using pull_moves(2) [OF movesD(1) [OF m2] n2, of "sorted_list_of_fmap (Push ?plan)"] wf by blast
    then show ?thesis
      using moves_trans [OF assms(1) m1 moves_trans [OF movesD(1) [OF m1] m2]] r Inr f2
      by (cases b) (simp add: exchange_def node_at_of [OF assms(2)] node_at_of [OF n1(1)] case_prod_unfold Let_def)
  qed
qed

section \<open>Hinted handoff\<close>

lemma deliver_hints_moves:
  assumes "cluster_ok pol cl" "node_of cl c = Some n" "\<And>h. h \<in> set hs \<Longrightarrow> wf_pol (pol (hintKey h)) (hintValue h)"
  shows "moves pol cl (snd (deliver_hints c target hs d cl))"
  using assms
proof (induction hs arbitrary: d cl n)
  case Nil
  then show ?case by (simp add: moves_refl)
next
  case (Cons h hs)
  obtain r cl1 where r: "Net_ReplicateWrite n target (hintKey h) (hintValue h) cl = (r, cl1)" by force
  have m: "moves pol cl cl1"
    using ReplicateWrite_moves(1) [OF Cons.prems(1), of "hintKey h" "hintValue h" n target] Cons.prems(3) r by simp
  obtain n1 where "node_of cl1 c = Some n1" using node_of_some [OF m Cons.prems(2)] by blast
  then have "moves pol cl1 (snd (deliver_hints c target hs d' cl1))" for d'
    using Cons.IH [OF movesD(1) [OF m]] Cons.prems(3) by simp
  then show ?case
    using m moves_trans [OF Cons.prems(1) m] r
    by (auto simp: ReplayHint_ReplicateWrite node_at_of [OF Cons.prems(2)] split: sum.splits)
qed

lemma hints_ok_stores:
  "hints_ok pol h \<Longrightarrow> typed_writes pol kvs \<Longrightarrow> hints_ok pol (foldl (\<lambda>h (k, v). Hints_Store h t k v) h kvs)"
  by (induction kvs arbitrary: h) (auto simp: typed_writes_def hints_ok_store)

lemma hints_ok_take: "hints_ok pol h \<Longrightarrow> hints_ok pol (snd (Hints_Take h t))"
  by (simp add: hints_ok_def hints.peek_take)

lemma replay_target_moves:
  assumes "cluster_ok pol cl" "node_of cl c = Some n" "typed_writes pol (meanwhile target)"
  shows "moves pol cl (snd (replay_target c meanwhile (d, cl) target))"
proof -
  let ?hs = "Peek (nodeHints n) target"
  have "\<And>h. h \<in> set ?hs \<Longrightarrow> wf_pol (pol (hintKey h)) (hintValue h)"
    using node_ok_of [OF assms(1,2)] by (simp add: node_ok_def hints_ok_def)
  then have m: "moves pol cl (snd (deliver_hints c target ?hs d cl))"
    by (rule deliver_hints_moves [OF assms(1,2)])
  obtain n1 where n1: "node_of (snd (deliver_hints c target ?hs d cl)) c = Some n1" "node_ok pol c n1"
    using node_of_some [OF m assms(2)] by blast
  have "moves pol (snd (deliver_hints c target ?hs d cl)) (upd_node c (n1\<lparr>nodeHints := h\<rparr>) (snd (deliver_hints c target ?hs d cl)))"
    if "hints_ok pol h" for h by (rule moves_hints [OF movesD(1) [OF m] n1(1) that])
  then have u: "moves pol cl (upd_node c (n1\<lparr>nodeHints := h\<rparr>) (snd (deliver_hints c target ?hs d cl)))"
    if "hints_ok pol h" for h using moves_trans [OF assms(1) m] that by blast
  let ?h = "foldl (\<lambda>h (k, v). Hints_Store h target k v) (nodeHints n1) (meanwhile target)"
  have "hints_ok pol ?h" using n1(2) assms(3) by (intro hints_ok_stores) (simp_all add: node_ok_def)
  then show ?thesis
    using u [of ?h] u [OF hints_ok_take, of ?h target]
    by (simp add: replay_target_def node_at_of [OF assms(2)] node_at_of [OF n1(1)] case_prod_unfold Let_def)
qed

section \<open>Crash and restart\<close>

text \<open>The process starts again on its log file: hints, counters and the clock are gone but for what the log gives.\<close>

definition reboot :: "Node \<Rightarrow> WAL \<Rightarrow> Node" where
  "reboot n w =
     New \<lparr>cfgID = nodeID n, cfgPeers = nodeMembers n, cfgTransport = nodeNet n,
       cfgWAL = Some (NewReplica (nodeID n) (Some w)), cfgTimeout = nodeTimeout n,
       cfgAntiEntropyEvery = nodeAntiEvery n, cfgDisableReadRepair = (\<not> nodeReadRepair n)\<rparr>"

lemma OpenWAL_synced_same:
  "wal_synced w \<Longrightarrow> OpenWAL (wal_path w) (env\<lparr>env_contents := the (wal_f w)\<rparr>) = Inr w' \<Longrightarrow> wal_path w \<noteq> '''' \<Longrightarrow> w' = w"
  by (auto simp: OpenWAL_def load_def wal_synced_def split: if_splits)

lemma reboot_moves:
  assumes "cluster_ok pol cl" "node_of cl c = Some n" "repWAL (nodeReplica n) = Some w"
  shows "moves pol cl (upd_node c (reboot n w) cl)"
proof -
  have n: "node_ok pol c n" by (rule node_ok_of [OF assms(1,2)])
  then have eq: "nodeReplica (reboot n w) = restart (nodeReplica n)"
    using assms(3) by (simp add: reboot_def New_def Let_def restart_def node_ok_def)
  have s: "sound pol (restart (nodeReplica n))" and g: "grows (nodeReplica n) (restart (nodeReplica n))"
    using n assms(3) by (auto simp: node_ok_def durable_def)
  have "restart (restart (nodeReplica n)) = restart (nodeReplica n)" by (simp add: restart_def)
  then have "durable pol (restart (nodeReplica n))" using s grows_refl sound_typed by (auto simp: durable_def)
  then have "node_ok pol c (reboot n w)"
    using n s eq restart_def [of "nodeReplica n"] by (simp add: node_ok_def) (simp add: reboot_def New_def Let_def hints_ok_def NewHints_def Peek_def)
  then show ?thesis
    using g eq by (intro moves_upd [OF assms(1,2)]) (simp_all add: reboot_def New_def Let_def)
qed

section \<open>The step relation\<close>

text \<open>
  One step is a piece of a request that the program runs without giving up control of the replica it works on, or a whole
  group of such pieces. Besides the groups of the coordinator (the start of a write, a read's repairs, an exchange, the
  replay of one target's hints) their single pieces are steps too, so that other requests may come between them: the tick
  of a clock, the preparation of a payload, one value applied to a replica, one value sent to a member, one digest asked
  for. The environment may change the faults, what the disks answer and which deadlines have passed at any time, and a
  node whose log file is in step with its log may crash and start again on the file.
\<close>

inductive step :: "(string \<Rightarrow> Policy) \<Rightarrow> Cluster \<Rightarrow> Cluster \<Rightarrow> bool" for pol where
  start: "node_of cl c = Some n \<Longrightarrow> req_ok pol req \<Longrightarrow> clock_t (repClock (nodeReplica n)) + 1 \<noteq> 0 \<Longrightarrow>
    step pol cl (snd (write_begin c req cl))"
| task: "node_of cl c = Some n \<Longrightarrow> wf_pol (pol key) v \<Longrightarrow> step pol cl (snd (write_task c key v peer cl))"
| read: "node_of cl c = Some n \<Longrightarrow> step pol cl (snd (read_task c key peer cl))"
| finish: "node_of cl c = Some n \<Longrightarrow> (\<forall>v \<in> set views. rvFound v \<longrightarrow> wf_pol (pol key) (rvValue v)) \<Longrightarrow>
    step pol cl (snd (read_finish c key views cl))"
| exchange: "node_of cl c = Some n \<Longrightarrow> step pol cl (snd (exchange c (b, cl) peer))"
| handoff: "node_of cl c = Some n \<Longrightarrow> typed_writes pol (meanwhile target) \<Longrightarrow>
    step pol cl (snd (replay_target c meanwhile (d, cl) target))"
| faults: "net_ok net (cl_nodes cl) \<Longrightarrow> step pol cl (cl\<lparr>cl_net := net\<rparr>)"
| crash: "node_of cl c = Some n \<Longrightarrow> repWAL (nodeReplica n) = Some w \<Longrightarrow> wal_synced w \<Longrightarrow>
    OpenWAL (wal_path w) (env\<lparr>env_contents := the (wal_f w)\<rparr>) = Inr w' \<Longrightarrow> wal_path w \<noteq> '''' \<Longrightarrow>
    step pol cl (upd_node c (reboot n w') cl)"
| environment: "step pol cl (cl\<lparr>cl_io := io, cl_expired := ex\<rparr>)"
| tick: "node_of cl c = Some n \<Longrightarrow> clock_t (repClock (nodeReplica n)) + 1 \<noteq> 0 \<Longrightarrow>
    step pol cl (upd_node c (n\<lparr>nodeReplica := (nodeReplica n)\<lparr>repClock := snd (Tick (repClock (nodeReplica n)))\<rparr>\<rparr>) cl)"
| prepare: "node_of cl c = Some n \<Longrightarrow> step pol cl (upd_node c (snd (localPrepare n req ver)) cl)"
| absorb: "node_of cl c = Some n \<Longrightarrow> wf_pol (pol key) v \<Longrightarrow> step pol cl (snd (local_apply c key v cl))"
| send: "node_of cl c = Some n \<Longrightarrow> wf_pol (pol key) v \<Longrightarrow> step pol cl (snd (Net_ReplicateWrite n peer key v cl))"
| digest: "node_of cl c = Some n \<Longrightarrow> step pol cl (snd (Net_GetDigest n peer cl))"

abbreviation steps :: "(string \<Rightarrow> Policy) \<Rightarrow> Cluster \<Rightarrow> Cluster \<Rightarrow> bool" where
  "steps pol \<equiv> (step pol)\<^sup>*\<^sup>*"

lemma tick_moves:
  assumes "cluster_ok pol cl" "node_of cl c = Some n" "clock_t (repClock (nodeReplica n)) + 1 \<noteq> 0"
  shows "moves pol cl (upd_node c (n\<lparr>nodeReplica := (nodeReplica n)\<lparr>repClock := snd (Tick (repClock (nodeReplica n)))\<rparr>\<rparr>) cl)"
proof -
  let ?r = "nodeReplica n"
  have n: "node_ok pol c n" by (rule node_ok_of [OF assms(1,2)])
  have lt: "clock_t (repClock ?r) < clock_t (repClock ?r) + 1" by (rule word_less_succ [OF assms(3)])
  have s: "sound pol ?r" using n by (simp add: node_ok_def)
  then have "sound pol (?r\<lparr>repClock := snd (Tick (repClock ?r))\<rparr>)"
    using less_imp_le [OF lt] order_trans
    by (fastforce simp: sound_def typed_def rep_ok_def clock_covers_def Tick_def Let_def)
  moreover have "durable pol (?r\<lparr>repClock := x\<rparr>)" for x using n by (auto simp: node_ok_def durable_def restart_def grows_def)
  ultimately show ?thesis
    using n grows_refl [OF sound_typed [OF s]]
    by (intro moves_upd [OF assms(1,2)]) (simp_all add: node_ok_def grows_def)
qed

lemma prepare_moves:
  assumes "cluster_ok pol cl" "node_of cl c = Some n"
  shows "moves pol cl (upd_node c (snd (localPrepare n req ver)) cl)"
  using node_ok_of [OF assms] grows_refl [OF sound_typed]
  by (intro moves_upd [OF assms]) (auto simp: node_ok_def localPrepare_frame)

lemma step_moves: "step pol cl cl' \<Longrightarrow> cluster_ok pol cl \<Longrightarrow> moves pol cl cl'"
proof (induction rule: step.induct)
  case (environment cl ex io)
  show ?case
    using moves_trans [OF environment moves_env(1) [OF environment, of io]
      moves_env(2) [OF movesD(1) [OF moves_env(1) [OF environment, of io]], of ex]] by simp
next
  case (crash cl c n w env w')
  have "w' = w" using OpenWAL_synced_same [OF crash(3,4)] crash(5) by blast
  then show ?case using reboot_moves [OF crash(6,1,2)] by simp
next
  case (finish cl c n views key)
  then show ?case by (intro read_finish_moves) auto
qed (auto intro: write_begin_facts(1) write_task_moves(1) read_task_facts(1) exchange_moves replay_target_moves moves_net
  tick_moves prepare_moves local_apply_moves(1) ReplicateWrite_moves(1) Read_rpc_moves(2))

interpretation cluster: forward_system "step pol" "cluster_ok pol" evolves for pol
proof unfold_locales
  show "cluster_ok pol cl2" "evolves cl1 cl2" if "cluster_ok pol cl1" "step pol cl1 cl2" for cl1 cl2
    using step_moves [OF that(2,1)] by (simp_all add: moves_def)
  show "evolves cl cl" if "cluster_ok pol cl" for cl by (rule evolves_refl [OF that])
  show "evolves cl1 cl3" if "cluster_ok pol cl1" "cluster_ok pol cl2" "cluster_ok pol cl3" "evolves cl1 cl2" "evolves cl2 cl3" for cl1 cl2 cl3
    using moves_trans [of pol cl1 cl2 cl3] that by (simp add: moves_def)
qed

lemma steps_moves: "steps pol cl cl' \<Longrightarrow> cluster_ok pol cl \<Longrightarrow> moves pol cl cl'"
  using cluster.run_forward by (simp add: moves_def)

end
