(* ===== verification/Quorum_Safety.thy ===== *)
theory Quorum_Safety
  imports Cluster
begin

text \<open>
  What the quorum protocol promises: how a write is answered, that an acknowledged write is never lost, and that a
  read whose quorum overlaps it sees it, whatever happens in between: other requests, repair, partitions, failing
  disks, crashes and restarts.
\<close>

section \<open>Counting answers\<close>

lemma card_acks:
  "distinct ps \<Longrightarrow> length ps = length rs \<Longrightarrow> card {p. (p, None) \<in> set (zip ps rs)} = acks_in rs"
proof (induction ps rs rule: list_induct2')
  case (4 p ps r rs)
  let ?S = "{q. (q, None) \<in> set (zip ps rs)}"
  have fin: "finite ?S" by (rule finite_subset [of _ "set ps"]) (auto dest: set_zip_leftD)
  have p: "p \<notin> ?S" using "4.prems"(1) by (auto dest: set_zip_leftD)
  have IH: "card ?S = acks_in rs" using 4 by simp
  show ?case
  proof (cases r)
    case None
    have "{q. (q, None) \<in> set (zip (p # ps) (r # rs))} = insert p ?S" using None by auto
    then show ?thesis using fin p IH None by simp
  next
    case (Some e)
    then show ?thesis using IH by simp
  qed
qed simp_all

lemma Inr_zip: "length ps = length rs \<Longrightarrow> Inr v \<in> set rs \<Longrightarrow> \<exists>p. (p, Inr v) \<in> set (zip ps rs)"
  by (induction ps rs rule: list_induct2') auto

lemma answered_ids:
  assumes "length ps = length rs" "distinct ps" "\<And>p v. (p, Inr v) \<in> set (zip ps rs) \<Longrightarrow> rvNodeID v = p"
  shows "distinct (map rvNodeID [v. Inr v \<leftarrow> rs])" "set (map rvNodeID [v. Inr v \<leftarrow> rs]) \<subseteq> set ps"
proof -
  have "distinct (map rvNodeID [v. Inr v \<leftarrow> rs]) \<and> set (map rvNodeID [v. Inr v \<leftarrow> rs]) \<subseteq> set ps"
    using assms
  proof (induction ps rs rule: list_induct2')
    case (4 p ps r rs)
    then have "distinct (map rvNodeID [v. Inr v \<leftarrow> rs])" "set (map rvNodeID [v. Inr v \<leftarrow> rs]) \<subseteq> set ps" by simp_all
    moreover have "rvNodeID v = p" if "r = Inr v" for v using "4.prems"(3) [of p v] that by simp
    ultimately show ?case using "4.prems"(2) by (cases r) auto
  qed simp_all
  then show "distinct (map rvNodeID [v. Inr v \<leftarrow> rs])" "set (map rvNodeID [v. Inr v \<leftarrow> rs]) \<subseteq> set ps" by blast+
qed

lemma in_answered: "v \<in> set [v. Inr v \<leftarrow> rs] \<longleftrightarrow> Inr v \<in> set rs"
proof (induction rs)
  case (Cons r rs)
  then show ?case by (cases r) auto
qed simp

lemma channel_map: "\<exists>qs ds. channel t rs = map Result qs @ ds \<and> set ds \<subseteq> {Done} \<and> (\<exists>k. qs = take k rs)"
proof (cases t)
  case None
  then have "channel t rs = map Result rs @ [] \<and> rs = take (length rs) rs" by (simp add: channel_def)
  then show ?thesis by (metis empty_set empty_subsetI)
next
  case (Some k)
  then have "channel t rs = map Result (take k rs) @ [Done]" by (simp add: channel_def)
  then show ?thesis by (metis empty_set list.simps(15) order_refl)
qed

lemma acks_take: "acks_in (take k rs) \<le> acks_in rs"
  by (metis append_take_drop_id filter_append le_add1 length_append)

section \<open>A write and what it leaves behind\<close>

lemma Write_started:
  assumes "Write c req sched timeout cl = (Some resp, cl1)" "wrOK resp"
  obtains ver v cl0 rs where "write_begin c req cl = ((ver, v), cl0)"
    "run_tasks (write_task c (wqKey req) v) sched cl0 = (rs, cl1)" "wrVersion resp = ver" "wqW req \<le> int (acks_in rs)"
proof -
  obtain ver v cl0 where b: "write_begin c req cl = ((ver, v), cl0)" by (metis surj_pair)
  obtain rs cl2 where r: "run_tasks (write_task c (wqKey req) v) sched cl0 = (rs, cl2)" by force
  have q: "validateQuorum (node_at cl c) (wqW req) ''W'' = None"
    using assms by (auto simp: Write_def split: option.splits)
  let ?n = "length (Peers (nodeMembers (node_at cl2 c)))"
  have w: "write_collect ver (wqW req) 0 ?n (channel timeout rs) = Some resp" "cl2 = cl1"
    using assms(1) q b r by (auto simp: Write_def)
  obtain qs ds k where ch: "channel timeout rs = map Result qs @ ds" "set ds \<subseteq> {Done}" "qs = take k rs"
    using channel_map [of timeout rs] by blast
  have "wqW req \<le> 0 + int (acks_in qs) \<and> wrVersion resp = ver \<and> wrAcksReceived resp \<ge> wqW req"
    using w(1) assms(2) ch(2) unfolding ch(1) by (rule write_collect_ok)
  then show thesis using that [OF b] r w(2) acks_take [of k rs] ch(3) by auto
qed

lemma acked_write_reaches:
  assumes "cluster_ok pol cl" "node_of cl c = Some n" "req_ok pol req" "clock_t (repClock (nodeReplica n)) + 1 \<noteq> 0"
    and "Write c req sched timeout cl = (Some resp, cl1)" "wrOK resp" "distinct sched"
  defines "v \<equiv> snd (fst (write_begin c req cl))"
  obtains A where "A \<subseteq> set sched" "wqW req \<le> int (card A)" "\<And>p. p \<in> A \<Longrightarrow> reaches cl1 p (wqKey req) v"
    "wf_pol (pol (wqKey req)) v" "Version v = wrVersion resp" "moves pol cl cl1"
proof -
  obtain ver v' cl0 rs where w: "write_begin c req cl = ((ver, v'), cl0)"
    "run_tasks (write_task c (wqKey req) v') sched cl0 = (rs, cl1)" "wrVersion resp = ver" "wqW req \<le> int (acks_in rs)"
    using assms(5,6) by (rule Write_started)
  have v': "v' = v" by (simp add: v_def w(1))
  note b = write_begin_facts [OF assms(1-4)]
  have m0: "moves pol cl cl0" and wf: "wf_pol (pol (wqKey req)) v" "Version v = ver" using b(1,3,4) w(1) by (simp_all add: v_def)
  obtain n0 where n0: "node_of cl0 c = Some n0" using node_of_some [OF m0 assms(2)] by blast
  let ?A = "{p. (p, None) \<in> set (zip sched rs)}"
  have len: "length rs = length sched" using w(2) length_run_tasks [of "write_task c (wqKey req) v'" sched cl0] by simp
  have "moves pol cl0 (snd (run_tasks (write_task c (wqKey req) v) sched cl0))"
    by (rule run_tasks_moves [OF _ movesD(1) [OF m0] n0]) (erule write_task_moves(1), assumption, rule wf(1))
  then have m1: "moves pol cl0 cl1" using w(2) v' by simp
  show thesis
  proof (rule that [of ?A])
    show "?A \<subseteq> set sched" by (auto dest: set_zip_leftD)
    show "wqW req \<le> int (card ?A)" using card_acks [OF assms(7), of rs] len w(4) by simp
    show "reaches cl1 p (wqKey req) v" if "p \<in> ?A" for p
      using write_tasks_reach [OF movesD(1) [OF m0] n0 wf(1), of p sched] that w(2) v' by simp
    show "wf_pol (pol (wqKey req)) v" by (rule wf(1))
    show "Version v = wrVersion resp" using wf(2) w(3) by simp
    show "moves pol cl cl1" by (rule moves_trans [OF assms(1) m0 m1])
  qed
qed

section \<open>A read and what it sees\<close>

lemma Read_answered:
  assumes "Read d rreq sched timeout late cl = (Some rresp, cl')" "rrError rresp = ''''"
    and "cluster_ok pol cl" "node_of cl d = Some m" "distinct sched"
  obtains views where "rrValue rresp = fst (ResolveMany views)" "rqR rreq \<le> int (length views)"
    "distinct (map rvNodeID views)" "set (map rvNodeID views) \<subseteq> set sched"
    "\<And>v. v \<in> set views \<Longrightarrow> sees pol cl (rvNodeID v) (rqKey rreq) v" "rrReplicasResponded rresp = int (length views)"
    "rrFound rresp \<longleftrightarrow> snd (ResolveMany views) \<and> \<not> Tombstone (rrValue rresp)"
proof -
  let ?rs = "fst (run_tasks (read_task d (rqKey rreq)) sched cl)"
  let ?cl = "snd (run_tasks (read_task d (rqKey rreq)) sched cl)"
  let ?n = "length (Peers (nodeMembers (node_at ?cl d)))"
  obtain views where views: "read_collect (rqR rreq) ?n [] (channel timeout ?rs) = Some views" "rqR rreq \<le> int (length views)"
    "rresp = fst (read_finish d (rqKey rreq) views ?cl)"
    using assms(1,2) by (auto simp: Read_def validateQuorum_def Let_def case_prod_unfold split: option.splits if_splits)
  obtain qs ds k where ch: "channel timeout ?rs = map Result qs @ ds" "set ds \<subseteq> {Done}" "qs = take k ?rs"
    using channel_map [of timeout ?rs] by blast
  then obtain j where j: "views = take j [v. Inr v \<leftarrow> qs]"
    using read_collect_views [of "rqR rreq" ?n "[]" qs ds views] views(1) by auto
  have len: "length (take k sched) = length qs" by (simp add: ch(3))
  have sees: "sees pol cl p (rqKey rreq) v" if "(p, Inr v) \<in> set (zip (take k sched) qs)" for p v
    using read_tasks_see [OF assms(3,4), of p v sched "rqKey rreq"] that by (metis ch(3) in_set_takeD take_zip)
  have ids: "rvNodeID v = p" if "(p, Inr v) \<in> set (zip (take k sched) qs)" for p v
    using sees [OF that] by (simp add: sees_def)
  note a = answered_ids [OF len _ ids]
  have "distinct (map rvNodeID views)"
    using a(1) assms(5) distinct_take [of _ j] unfolding j by (simp add: take_map [symmetric])
  moreover have "set (map rvNodeID views) \<subseteq> set sched"
    using a(2) assms(5) set_take_subset [of j] set_take_subset [of k sched] unfolding j by (fastforce simp: take_map [symmetric])
  moreover have "sees pol cl (rvNodeID v) (rqKey rreq) v" if "v \<in> set views" for v
  proof -
    have "Inr v \<in> set qs" using that in_answered [of v qs] in_set_takeD unfolding j by metis
    then obtain p where "(p, Inr v) \<in> set (zip (take k sched) qs)" using Inr_zip [OF len] by blast
    then show ?thesis using sees ids by metis
  qed
  moreover have "rrValue rresp = fst (ResolveMany views)" "rrReplicasResponded rresp = int (length views)"
    by (simp_all add: views(3) read_finish_def Let_def case_prod_unfold)
  moreover have "rrFound rresp \<longleftrightarrow> snd (ResolveMany views) \<and> \<not> Tombstone (rrValue rresp)"
    by (auto simp: views(3) read_finish_def Let_def case_prod_unfold)
  ultimately show thesis using that views(2) by blast
qed

section \<open>A fresh cluster\<close>

definition fresh_node :: "Membership \<Rightarrow> string \<Rightarrow> Node" where
  "fresh_node m i =
     New \<lparr>cfgID = i, cfgPeers = m\<lparr>Self := i\<rparr>, cfgTransport = i, cfgWAL = None, cfgTimeout = 0,
       cfgAntiEntropyEvery = 0, cfgDisableReadRepair = False\<rparr>"

definition fresh_cluster :: "Membership \<Rightarrow> Cluster" where
  "fresh_cluster m =
     \<lparr>cl_net = (NewFaultNet (\<lambda>_ _. 0) 1)\<lparr>faults := foldl (\<lambda>f i. Register f i i) (faults (NewFaultNet (\<lambda>_ _. 0) 1)) (IDs m)\<rparr>,
      cl_nodes = fmap_of_list (map (\<lambda>i. (i, fresh_node m i)) (IDs m)),
      cl_io = (\<lambda>_. IO_ok), cl_expired = (\<lambda>_. False)\<rparr>"

definition three :: Membership where
  "three = \<lparr>Self = ''A'', Peers = map (\<lambda>i. \<lparr>peerID = i, peerAddr = ''''\<rparr>) [''A'', ''B'', ''C'']\<rparr>"

lemma fresh_node_of:
  "node_of (fresh_cluster m) i = (if i \<in> set (IDs m) then Some (fresh_node m i) else None)"
proof -
  have "map_of (map (\<lambda>i. (i, fresh_node m i)) ids) i = (if i \<in> set ids then Some (fresh_node m i) else None)" for ids
    by (induction ids) auto
  then show ?thesis by (simp add: node_of_def fresh_cluster_def fmlookup_of_list)
qed

lemma handlers_register:
  "fmlookup (n_handlers (foldl (\<lambda>f i. Register f i i) f ids)) j = (if j \<in> set ids then Some j else fmlookup (n_handlers f) j)"
  by (induction ids arbitrary: f) (auto simp: Register_def)

lemma fresh_cluster_ok:
  assumes "\<forall>i \<in> set (IDs m). valid_utf8 i"
  shows "cluster_ok pol (fresh_cluster m)"
proof -
  have "clock_covers (NewReplica i None)" for i by (simp add: clock_covers_def held_def NewReplica_def NewKV_def)
  then have "node_ok pol i (fresh_node m i)" if "i \<in> set (IDs m)" for i
    using assms that by (simp add: node_ok_def fresh_node_def New_def Let_def sound_def durable_def hints_ok_def NewHints_def Peek_def)
  moreover have "net_ok (cl_net (fresh_cluster m)) (cl_nodes (fresh_cluster m))"
    using fresh_node_of [of m]
    by (auto simp: net_ok_def handlers_ok_def tame_hook_def node_of_def fresh_cluster_def handlers_register NewFaultNet_def split: if_splits)
  ultimately show ?thesis by (simp add: cluster_ok_def fresh_node_of)
qed

section \<open>Properties\<close>

text \<open>C2. Nothing a replica holds is ever lost: along any run of the cluster, made of starting writes, single
  replication goroutines, reads with their repairs, anti-entropy exchanges, hint replays, arbitrary changes of
  the network's faults, failing log writes and restarts of nodes from their synced log files, the invariant is
  kept and every value held by a node stays below what that node holds later. (Each key is used under one
  policy and no clock wraps.)\<close>

theorem cluster_never_forgets:
  assumes "cluster_ok pol cl" "(step pol)\<^sup>*\<^sup>* cl cl'" "node_of cl i = Some n" "Replica_Get (nodeReplica n) k = (c, True)"
  shows "cluster_ok pol cl' \<and>
    (\<exists>n' c'. node_of cl' i = Some n' \<and> Replica_Get (nodeReplica n') k = (c', True) \<and> Resolve c c' = c' \<and> Version c \<le> Version c')"
proof -
  have m: "moves pol cl cl'" by (rule steps_moves [OF assms(2,1)])
  obtain n' where n': "node_of cl' i = Some n'" "grows (nodeReplica n) (nodeReplica n')"
    using evolvesD [OF movesD(2) [OF m] assms(3)] by blast
  have t: "typed pol (nodeReplica n)" "typed pol (nodeReplica n')"
    using node_ok_of [OF assms(1,3)] node_ok_of [OF movesD(1) [OF m] n'(1)] by (simp_all add: node_ok_def sound_typed)
  have c: "held (nodeReplica n) k = Some c" using assms(4) by (auto simp: Get_held [OF t(1)] split: option.splits)
  then obtain c' where c': "held (nodeReplica n') k = Some c'" "below c c'" using n'(2) by (auto simp: grows_def)
  have "Version c \<le> Version c'" using below_version [of "pol k" c c'] t c c' by (simp add: typed_def)
  then show ?thesis using movesD(1) [OF m] n'(1) c' by (auto simp: Get_held [OF t(2)] below_def)
qed

definition put_k :: WriteReq where
  "put_k = \<lparr>wqKey = ''k'', wqData = Some ''v'', wqPolicy = 0, wqW = 2, wqClientTS = 0, wqORSetOp = '''', wqORSetElem = '''',
     wqTombstone = False\<rparr>"

definition after_put :: Cluster where
  "after_put = snd (Write ''A'' put_k [''A'', ''B''] None (fresh_cluster three))"

lemma three_ok: "cluster_ok pol (fresh_cluster three)" "distinct (IDs three)" "IDs three = [''A'', ''B'', ''C'']"
  by (auto intro!: fresh_cluster_ok simp: three_def IDs_def byte_def)

lemma put_k_ok: "req_ok (\<lambda>_. 0) put_k"
  by (simp add: req_ok_def put_k_def norm_policy_def)

lemma put_answer:
  "fst (Write ''A'' put_k [''A'', ''B''] None (fresh_cluster three)) =
     Some \<lparr>wrOK = True, wrVersion = \<lparr>Lamport = 1, NodeID = ''A''\<rparr>, wrAcksReceived = 2, wrError = ''''\<rparr>"
  by code_simp

lemma get_answer:
  "fst (Read ''C'' \<lparr>rqKey = ''k'', rqR = 2\<rparr> [''C'', ''B''] None [] after_put) =
     Some \<lparr>rrValue = \<lparr>Data = Some ''v'', Version = \<lparr>Lamport = 1, NodeID = ''A''\<rparr>, Policy = 0, Tombstone = False, CRDT = None\<rparr>,
       rrFound = True, rrReplicasResponded = 2, rrReplicasAgreed = True, rrRepaired = False, rrError = ''''\<rparr>"
  by code_simp

lemma views_upper:
  assumes "\<And>v. v \<in> set views \<Longrightarrow> rvFound v \<Longrightarrow> wf_pol p (rvValue v)" "v \<in> set views" "rvFound v"
  shows "wf_pol p (fst (ResolveMany views))" "below (rvValue v) (fst (ResolveMany views))" "snd (ResolveMany views)"
proof -
  have f: "rvValue v \<in> set (found_values views)" "\<And>x. x \<in> set (found_values views) \<Longrightarrow> wf_pol p x"
    using assms by (auto simp: found_values_def)
  show "wf_pol p (fst (ResolveMany views))" by (rule ResolveMany_wf [OF f(2)]) (use f(1) in auto)
  show "below (rvValue v) (fst (ResolveMany views))" unfolding below_def by (rule ResolveMany_upper [OF f(2) f(1)])
  show "snd (ResolveMany views)" using f(1) by (auto simp: ResolveMany_eq split: list.splits)
qed

lemma overlapping_read_sees:
  assumes "cluster_ok pol cl" "node_of cl c = Some n" "req_ok pol req" "clock_t (repClock (nodeReplica n)) + 1 \<noteq> 0"
    and members: "distinct (IDs m)" "distinct sched" "distinct sched'" "set sched \<subseteq> set (IDs m)" "set sched' \<subseteq> set (IDs m)"
    and quorums: "wqW req + rqR rreq > N m" "rqKey rreq = wqKey req"
    and W: "Write c req sched timeout cl = (Some resp, cl1)" "wrOK resp"
    and run: "(step pol)\<^sup>*\<^sup>* cl1 cl2"
    and R: "node_of cl2 d \<noteq> None" "Read d rreq sched' timeout' late cl2 = (Some rresp, cl3)" "rrError rresp = ''''"
  shows "wf_pol (pol (wqKey req)) (rrValue rresp)" "below (snd (fst (write_begin c req cl))) (rrValue rresp)"
    "wrVersion resp \<le> Version (rrValue rresp)" "rrFound rresp = (\<not> Tombstone (rrValue rresp))"
proof -
  let ?v = "snd (fst (write_begin c req cl))" and ?k = "wqKey req"
  obtain A where A: "A \<subseteq> set sched" "wqW req \<le> int (card A)" "\<And>p. p \<in> A \<Longrightarrow> reaches cl1 p ?k ?v"
    and v: "wf_pol (pol ?k) ?v" "Version ?v = wrVersion resp" and m1: "moves pol cl cl1"
    using acked_write_reaches [OF assms(1-4) W members(2)] by blast
  have m2: "moves pol cl1 cl2" by (rule steps_moves [OF run movesD(1) [OF m1]])
  obtain md where md: "node_of cl2 d = Some md" using R(1) by blast
  obtain views where views: "rrValue rresp = fst (ResolveMany views)" "rqR rreq \<le> int (length views)"
      "distinct (map rvNodeID views)" "set (map rvNodeID views) \<subseteq> set sched'"
    and sees: "\<And>v. v \<in> set views \<Longrightarrow> sees pol cl2 (rvNodeID v) ?k v"
    and found: "rrFound rresp \<longleftrightarrow> snd (ResolveMany views) \<and> \<not> Tombstone (rrValue rresp)"
    using Read_answered [OF R(2,3) movesD(1) [OF m2] md members(3)] quorums(2) by metis
  let ?B = "set (map rvNodeID views)"
  have "card ?B = length views" using distinct_card [OF views(3)] by simp
  then have c: "int (card A) + int (card ?B) > N m" using A(2) views(2) quorums(1) by simp
  have "A \<inter> ?B \<noteq> {}"
    by (rule quorums_meet [OF members(1) order_trans [OF A(1) members(4)] order_trans [OF views(4) members(5)] c])
  then obtain w where w: "w \<in> set views" "rvNodeID w \<in> A" by auto
  have "reaches cl2 (rvNodeID w) ?k ?v" by (rule reaches_moves [OF movesD(1) [OF m1] m2 A(3) [OF w(2)] v(1)])
  then have s: "rvFound w" "below ?v (rvValue w)" using sees [OF w(1)] v(1) by (simp_all add: sees_def)
  have wf: "\<And>u. u \<in> set views \<Longrightarrow> rvFound u \<Longrightarrow> wf_pol (pol ?k) (rvValue u)" using sees by (simp add: sees_def)
  note up = views_upper [OF wf w(1) s(1)]
  show b: "below ?v (rrValue rresp)"
    unfolding views(1) by (rule value_below_trans [OF v(1) wf [OF w(1) s(1)] up(1) s(2) up(2)])
  show "wf_pol (pol ?k) (rrValue rresp)" using up(1) by (simp add: views(1))
  then show "wrVersion resp \<le> Version (rrValue rresp)" using below_version [OF v(1) _ b] v(2) by simp
  show "rrFound rresp = (\<not> Tombstone (rrValue rresp))" using found up(3) by blast
qed

text \<open>C1. An acknowledged write is never lost and every later overlapping read sees it. A coordinator c acknowledged a
  write with W acknowledgements; then the cluster ran any steps (other requests, repairs, partitions, disk
  failures, restarts of nodes from their synced log files); then a coordinator d answered a read of the key
  without an error from R replicas. When R + W exceeds the number of members, the value of the answer has
  absorbed the value written, its version is at least the version the writer was given, and the key is
  reported as found unless the merged value is a tombstone. (Each key is used under one policy and no
  clock wraps.)\<close>

theorem read_your_writes:
  assumes "cluster_ok pol cl" "node_of cl c = Some n" "req_ok pol req" "clock_t (repClock (nodeReplica n)) + 1 \<noteq> 0"
    and members: "distinct (IDs m)" "distinct sched" "distinct sched'" "set sched \<subseteq> set (IDs m)" "set sched' \<subseteq> set (IDs m)"
    and quorums: "wqW req + rqR rreq > N m" "rqKey rreq = wqKey req"
    and W: "Write c req sched timeout cl = (Some resp, cl1)" "wrOK resp"
    and run: "(step pol)\<^sup>*\<^sup>* cl1 cl2"
    and R: "node_of cl2 d \<noteq> None" "Read d rreq sched' timeout' late cl2 = (Some rresp, cl3)" "rrError rresp = ''''"
  shows "Resolve (snd (fst (write_begin c req cl))) (rrValue rresp) = rrValue rresp \<and>
    wrVersion resp \<le> Version (rrValue rresp) \<and> rrFound rresp = (\<not> Tombstone (rrValue rresp))"
  using overlapping_read_sees [OF assms] by (simp add: below_def)

lemma N_three: "N three = 3"
  by (simp add: N_def three_def)

lemma after_put_eq:
  "Write ''A'' put_k [''A'', ''B''] None (fresh_cluster three) =
     (Some \<lparr>wrOK = True, wrVersion = \<lparr>Lamport = 1, NodeID = ''A''\<rparr>, wrAcksReceived = 2, wrError = ''''\<rparr>, after_put)"
  using put_answer by (metis after_put_def prod.collapse)

lemma put_start: "node_of (fresh_cluster three) ''A'' = Some (fresh_node three ''A'')"
  "clock_t (repClock (nodeReplica (fresh_node three ''A''))) + 1 \<noteq> 0"
  by (simp_all add: fresh_node_of three_ok(3)) code_simp

theorem read_your_writes_witness:
  "Resolve (snd (fst (write_begin ''A'' put_k (fresh_cluster three))))
     \<lparr>Data = Some ''v'', Version = \<lparr>Lamport = 1, NodeID = ''A''\<rparr>, Policy = 0, Tombstone = False, CRDT = None\<rparr> =
     \<lparr>Data = Some ''v'', Version = \<lparr>Lamport = 1, NodeID = ''A''\<rparr>, Policy = 0, Tombstone = False, CRDT = None\<rparr>"
proof -
  have C: "node_of after_put ''C'' \<noteq> None" by code_simp
  obtain cl3 where R: "Read ''C'' \<lparr>rqKey = ''k'', rqR = 2\<rparr> [''C'', ''B''] None [] after_put =
     (Some \<lparr>rrValue = \<lparr>Data = Some ''v'', Version = \<lparr>Lamport = 1, NodeID = ''A''\<rparr>, Policy = 0, Tombstone = False, CRDT = None\<rparr>,
       rrFound = True, rrReplicasResponded = 2, rrReplicasAgreed = True, rrRepaired = False, rrError = ''''\<rparr>, cl3)"
    using get_answer by (metis prod.collapse)
  show ?thesis
    using read_your_writes [OF three_ok(1) put_start(1) put_k_ok put_start(2) three_ok(2) _ _ _ _ _ _ after_put_eq _
      rtranclp.rtrancl_refl C R]
    by (simp add: three_ok(3) put_k_def N_three)
qed

lemma after_put_ok: "cluster_ok (\<lambda>_. 0) after_put"
proof -
  have "wrOK \<lparr>wrOK = True, wrVersion = \<lparr>Lamport = 1, NodeID = ''A''\<rparr>, wrAcksReceived = 2, wrError = ''''\<rparr>"
    "distinct [''A'', ''B'']" by simp_all
  from acked_write_reaches [OF three_ok(1) put_start(1) put_k_ok put_start(2) after_put_eq this] show ?thesis
    by (metis movesD(1))
qed
theorem cluster_never_forgets_witness:
  "cluster_ok (\<lambda>_. 0) (snd (exchange ''C'' ((0, 0), after_put) ''A''))"
proof -
  have A: "node_of after_put ''A'' = Some (node_at after_put ''A'')" "node_of after_put ''C'' = Some (node_at after_put ''C'')"
    by code_simp+
  have g: "Replica_Get (nodeReplica (node_at after_put ''A'')) ''k'' =
    (\<lparr>Data = Some ''v'', Version = \<lparr>Lamport = 1, NodeID = ''A''\<rparr>, Policy = 0, Tombstone = False, CRDT = None\<rparr>, True)"
    by code_simp
  have "(step (\<lambda>_. 0))\<^sup>*\<^sup>* after_put (snd (exchange ''C'' ((0, 0), after_put) ''A''))"
    by (rule r_into_rtranclp) (rule step.exchange [OF A(2)])
  from cluster_never_forgets [OF after_put_ok this A(1) g] show ?thesis by simp
qed

section \<open>How a write is answered\<close>

lemma write_collect_at:
  "acks < w \<Longrightarrow> k < length rs \<Longrightarrow> write_collect ver w acks (length rs) (map Result (take k rs) @ [Done]) =
    Some (if acks + int (acks_in (take k rs)) \<ge> w then \<lparr>wrOK = True, wrVersion = ver, wrAcksReceived = w, wrError = ''''\<rparr>
      else \<lparr>wrOK = False, wrVersion = ver, wrAcksReceived = acks + int (acks_in (take k rs)), wrError = ''quorum timeout''\<rparr>)"
proof (induction rs arbitrary: k acks)
  case (Cons r rs)
  show ?case
  proof (cases k)
    case (Suc j)
    then have "write_collect ver w (acks + 1) (length rs) (map Result (take j rs) @ [Done]) =
      Some (if acks + 1 + int (acks_in (take j rs)) \<ge> w then \<lparr>wrOK = True, wrVersion = ver, wrAcksReceived = w, wrError = ''''\<rparr>
        else \<lparr>wrOK = False, wrVersion = ver, wrAcksReceived = acks + 1 + int (acks_in (take j rs)), wrError = ''quorum timeout''\<rparr>)"
      if "acks + 1 < w" using that Cons.prems(2) by (intro Cons.IH) simp_all
    moreover have "acks + 1 = w" if "\<not> acks + 1 < w" using that Cons.prems(1) by simp
    ultimately show ?thesis using Cons.IH [OF Cons.prems(1), of j] Cons.prems(2) Suc by (auto simp: algebra_simps)
  qed (use Cons.prems in simp)
qed simp

lemma write_collect_full:
  assumes "write_collect ver w acks n (map Result rs) = Some resp" "n = length rs"
  shows "write_collect ver w acks n (map Result rs @ ds) = Some resp"
  using assms by (induction rs arbitrary: acks n) auto

lemma write_members:
  assumes "cluster_ok pol cl" "node_of cl c = Some n" "req_ok pol req" "clock_t (repClock (nodeReplica n)) + 1 \<noteq> 0"
    and "write_begin c req cl = ((ver, v), cl0)"
  shows "moves pol cl (snd (run_tasks (write_task c (wqKey req) v) sched cl0))"
    "nodeMembers (node_at (snd (run_tasks (write_task c (wqKey req) v) sched cl0)) c) = nodeMembers n"
proof -
  note b = write_begin_facts [OF assms(1-4)]
  have m0: "moves pol cl cl0" and wf: "wf_pol (pol (wqKey req)) v" using b(1,3) assms(5) by simp_all
  obtain n0 where n0: "node_of cl0 c = Some n0" "nodeMembers n0 = nodeMembers n" using node_of_some [OF m0 assms(2)] by blast
  have "moves pol cl0 (snd (run_tasks (write_task c (wqKey req) v) sched cl0))"
    by (rule run_tasks_moves [OF _ movesD(1) [OF m0] n0(1)]) (erule write_task_moves(1), assumption, rule wf)
  then show m: "moves pol cl (snd (run_tasks (write_task c (wqKey req) v) sched cl0))" by (rule moves_trans [OF assms(1) m0])
  show "nodeMembers (node_at (snd (run_tasks (write_task c (wqKey req) v) sched cl0)) c) = nodeMembers n"
    using node_of_some [OF m assms(2)] node_at_of by metis
qed

text \<open>C7. How a write is answered. A quorum outside 1..N is refused and nothing changes. Otherwise, once every
  member's goroutine has a result, the answer exists and is decided by the results that arrived before the
  deadline: success with exactly W acknowledgements counted when at least W of them are acknowledgements, else
  a failure that reports how many there were, as a timeout when the deadline cut the collection short.\<close>

theorem write_answer:
  assumes "cluster_ok pol cl" "node_of cl c = Some n" "req_ok pol req" "clock_t (repClock (nodeReplica n)) + 1 \<noteq> 0"
    and "length sched = length (Peers (nodeMembers n))" "write_begin c req cl = ((ver, v), cl0)"
    and "fst (run_tasks (write_task c (wqKey req) v) sched cl0) = errs"
    and "k = (case timeout of None \<Rightarrow> length errs | Some j \<Rightarrow> j)" "acks = int (length (filter (\<lambda>e. e = None) (take k errs)))"
  shows "if wqW req < 1 \<or> wqW req > N (nodeMembers n)
    then Write c req sched timeout cl =
      (Some (failed_write (''W='' @ itoa (wqW req) @ '' out of range for N='' @ itoa (N (nodeMembers n)))), cl)
    else fst (Write c req sched timeout cl) = Some
      (if acks \<ge> wqW req then \<lparr>wrOK = True, wrVersion = ver, wrAcksReceived = wqW req, wrError = ''''\<rparr>
       else \<lparr>wrOK = False, wrVersion = ver, wrAcksReceived = acks, wrError =
         if k < length errs then ''quorum timeout'' else ''need W='' @ itoa (wqW req) @ '' acks, got '' @ itoa acks\<rparr>)"
proof (cases "wqW req < 1 \<or> wqW req > N (nodeMembers n)")
  case True
  then show ?thesis by (auto simp: Write_def validateQuorum_def Node_N_def node_at_of [OF assms(2)])
next
  case False
  let ?run = "run_tasks (write_task c (wqKey req) v) sched cl0"
  have len: "length errs = length sched" using assms(7) by auto
  have n: "length (Peers (nodeMembers (node_at (snd ?run) c))) = length errs"
    using write_members(2) [OF assms(1-4,6)] assms(5) len by simp
  have W: "fst (Write c req sched timeout cl) = write_collect ver (wqW req) 0 (length errs) (channel timeout errs)"
    using False n assms(7) by (auto simp: Write_def validateQuorum_def Node_N_def node_at_of [OF assms(2)] assms(6) case_prod_unfold Let_def)
  have w: "0 < wqW req" using False by simp
  note full = write_collect_exact [OF w, of ver errs]
  show ?thesis
  proof (cases "k < length errs")
    case True
    then have "channel timeout errs = map Result (take k errs) @ [Done]"
      using assms(8) by (auto simp: channel_def split: option.splits)
    then show ?thesis using W write_collect_at [OF w True, of ver] True False assms(9) by simp
  next
    case k: False
    then have "channel timeout errs = map Result errs \<or> channel timeout errs = map Result errs @ [Done]" "take k errs = errs"
      using assms(8) by (auto simp: channel_def split: option.splits)
    then show ?thesis using W full write_collect_full [OF full refl, of "[Done]"] k False assms(9) by auto
  qed
qed

theorem write_answer_witness:
  "fst (Write ''A'' put_k [''A'', ''B'', ''C''] (Some 1) (fresh_cluster three)) =
     Some \<lparr>wrOK = False, wrVersion = \<lparr>Lamport = 1, NodeID = ''A''\<rparr>, wrAcksReceived = 1, wrError = ''quorum timeout''\<rparr>"
proof -
  let ?b = "write_begin ''A'' put_k (fresh_cluster three)"
  have "fst (fst ?b) = \<lparr>Lamport = 1, NodeID = ''A''\<rparr>" by code_simp
  then have b: "?b = ((\<lparr>Lamport = 1, NodeID = ''A''\<rparr>, snd (fst ?b)), snd ?b)" by (metis prod.collapse)
  have "fst (run_tasks (write_task ''A'' (wqKey put_k) (snd (fst ?b))) [''A'', ''B'', ''C''] (snd ?b)) = [None, None, None]"
    by code_simp
  from write_answer [OF three_ok(1) put_start(1) put_k_ok put_start(2) _ b this, where timeout = "Some 1"] show ?thesis
    by (simp add: fresh_node_def New_def Let_def three_def put_k_def N_def)
qed

section \<open>How a read is answered\<close>

lemma read_collect_exact:
  "length acc \<le> nat r \<Longrightarrow> n = length rs \<or> length rs \<le> n \<and> ds = [Done] \<Longrightarrow>
    read_collect r n acc (map Result rs @ ds) = Some (acc @ take (nat r - length acc) [v. Inr v \<leftarrow> rs])"
proof (induction rs arbitrary: acc n)
  case Nil
  then show ?case by auto
next
  case (Cons x rs)
  obtain m where n: "n = Suc m" and m: "m = length rs \<or> length rs \<le> m \<and> ds = [Done]" using Cons.prems(2) by (cases n) auto
  show ?case
  proof (cases "int (length acc) < r")
    case True
    then have *: "nat r - length acc = Suc (nat r - length (acc @ [v]))" for v by simp
    show ?thesis
    proof (cases x)
      case (Inr v)
      have "read_collect r m (acc @ [v]) (map Result rs @ ds) =
          Some ((acc @ [v]) @ take (nat r - length (acc @ [v])) [v. Inr v \<leftarrow> rs])"
        using True by (intro Cons.IH [OF _ m]) simp
      then show ?thesis using True Inr n * [of v] by (simp del: read_collect.simps add: read_collect.simps [of r "Suc m"])
    next
      case (Inl e)
      then show ?thesis using Cons.IH [OF Cons.prems(1) m] True n
        by (simp del: read_collect.simps add: read_collect.simps [of r "Suc m"])
    qed
  qed (use Cons.prems in simp)
qed

text \<open>A read goroutine changes no node: the call only draws from the network's counters and the
  deadlines.\<close>

lemma rpc_nodes:
  assumes "\<And>h s. cl_nodes (snd (meth h s)) = cl_nodes s"
  shows "cl_nodes (snd (rpc (\<lambda>expired. call expired i to meth) cl)) = cl_nodes cl"
  using assms
  by (auto simp: rpc_def call_def next_expired_def Let_def case_prod_unfold split: prod.splits sum.splits option.splits)
    (metis Cluster.select_convs(2) Cluster.surjective Cluster.update_convs(1,4) snd_conv)+

lemma read_task_nodes: "cl_nodes (snd (read_task c key peer cl)) = cl_nodes cl"
proof -
  have "cl_nodes (snd (Net_ReplicateRead n peer key cl)) = cl_nodes cl" for n
    unfolding Net_ReplicateRead_def Endpoint_ReplicateRead_def
    by (rule rpc_nodes) (simp add: ServeRead_def Let_def)
  then show ?thesis by (auto simp: read_task_def Let_def case_prod_unfold split: prod.splits sum.splits)
qed

lemma read_tasks_nodes: "cl_nodes (snd (run_tasks (read_task c key) ps cl)) = cl_nodes cl"
  by (induction ps arbitrary: cl) (simp_all add: read_task_nodes Let_def case_prod_unfold)

text \<open>C8. How a read is answered. A quorum outside 1..N is refused and nothing changes. Otherwise, once every member's
  goroutine has a result, the answer exists: it is made from the first R responses that are no errors and
  arrived before the deadline, merged, repaired and reported; when there are fewer, the read fails, says how many
  there were. The read goroutines leave every node (its replica, log, clock, hints and settings) exactly as
  it was, so a read that fails changes no node at all.\<close>

theorem read_answer:
  assumes "cluster_ok pol cl" "node_of cl c = Some n" "length sched = length (Peers (nodeMembers n))"
    and "run_tasks (read_task c (rqKey req)) sched cl = (results, cl1)"
    and "k = (case timeout of None \<Rightarrow> length results | Some j \<Rightarrow> j)"
    and "views = take (nat (rqR req)) [v. Inr v \<leftarrow> take k results]"
  shows "Read c req sched timeout [] cl =
    (if rqR req < 1 \<or> rqR req > N (nodeMembers n)
     then (Some (failed_read 0 (''R='' @ itoa (rqR req) @ '' out of range for N='' @ itoa (N (nodeMembers n)))), cl)
     else if int (length views) < rqR req
     then (Some (failed_read (int (length views)) (''need R='' @ itoa (rqR req) @ '' responses, got '' @ itoa (int (length views)))), cl1)
     else (Some (fst (read_finish c (rqKey req) views cl1)), snd (read_finish c (rqKey req) views cl1))) \<and>
    cl_nodes cl1 = cl_nodes cl"
proof -
  have nodes: "cl_nodes cl1 = cl_nodes cl" using read_tasks_nodes [of c "rqKey req" sched cl] assms(4) by simp
  show ?thesis
  proof (cases "rqR req < 1 \<or> rqR req > N (nodeMembers n)")
    case True
    then show ?thesis using nodes by (auto simp: Read_def validateQuorum_def Node_N_def node_at_of [OF assms(2)])
  next
    case False
    have "moves pol cl (snd (run_tasks (read_task c (rqKey req)) sched cl))"
      by (rule run_tasks_moves [OF _ assms(1,2)]) (rule read_task_facts(1))
    then have "nodeMembers (node_at cl1 c) = nodeMembers n"
      using node_of_some [OF _ assms(2)] node_at_of assms(4) by (metis snd_conv)
    then have n: "length (Peers (nodeMembers (node_at cl1 c))) = length results"
      using assms(3,4) length_run_tasks [of "read_task c (rqKey req)" sched cl] by simp
    have "read_collect (rqR req) (length results) [] (channel timeout results) = Some views"
    proof (cases timeout)
      case None
      then show ?thesis
        using read_collect_exact [of "[]" "rqR req" "length results" results "[]"] by (simp add: channel_def assms(5,6) del: read_collect.simps)
    next
      case (Some j)
      then show ?thesis using read_collect_exact [of "[]" "rqR req" "length results" "take j results" "[Done]"]
        by (simp add: channel_def assms(5,6) del: read_collect.simps)
    qed
    then show ?thesis
      using False n nodes by (simp add: Read_def validateQuorum_def Node_N_def node_at_of [OF assms(2)] assms(4) case_prod_unfold Let_def del: read_collect.simps)
  qed
qed

theorem read_answer_witness:
  "fst (Read ''C'' \<lparr>rqKey = ''k'', rqR = 2\<rparr> [''C'', ''B'', ''A''] (Some 1) [] after_put) =
     Some (failed_read 1 ''need R=2 responses, got 1'') \<and>
   cl_nodes (snd (Read ''C'' \<lparr>rqKey = ''k'', rqR = 2\<rparr> [''C'', ''B'', ''A''] (Some 1) [] after_put)) = cl_nodes after_put"
proof -
  let ?r = "run_tasks (read_task ''C'' (rqKey \<lparr>rqKey = ''k'', rqR = 2\<rparr>)) [''C'', ''B'', ''A''] after_put"
  obtain rs cl1 where r: "?r = (rs, cl1)" by force
  have C: "node_of after_put ''C'' = Some (node_at after_put ''C'')"
    "length [''C'', ''B'', ''A''] = length (Peers (nodeMembers (node_at after_put ''C'')))"
    "N (nodeMembers (node_at after_put ''C'')) = 3" by code_simp+
  have "length (take 2 [v. Inr v \<leftarrow> take 1 (fst ?r)]) = 1" by code_simp
  then have v: "length (take 2 [v. Inr v \<leftarrow> take 1 rs]) = 1" by (simp only: r fst_conv)
  have i: "itoa 2 = ''2''" "itoa 1 = ''1''" by code_simp+
  show ?thesis
    using read_answer [OF after_put_ok C(1,2) r, where timeout = "Some 1", OF refl refl] C(3) v
    by (simp add: i del: length_take)
qed

section \<open>A version used twice\<close>

text \<open>A goroutine for another member leaves the coordinator's own replica alone.\<close>

lemma write_task_other:
  assumes "cluster_ok pol cl" "node_of cl c = Some n" "peer \<noteq> c"
  shows "map_option nodeReplica (node_of (snd (write_task c key v peer cl)) c) = Some (nodeReplica n)"
proof -
  have id: "nodeID n = c" using node_ok_of [OF assms(1,2)] by (simp add: node_ok_def)
  have net: "net_ok (cl_net cl) (cl_nodes cl)" using assms(1) by (simp add: cluster_ok_def)
  have "node_of (snd (Net_ReplicateWrite n peer key v cl)) c = Some n"
  proof (cases rule: rpc_cases [OF net, of "nodeNet n" peer "\<lambda>h. ApplyReplicate h (nodeNet n) key v"])
    case (1 net ex e)
    then show ?thesis using assms(2) by (simp add: Net_ReplicateWrite_def Endpoint_ReplicateWrite_def)
  next
    case (2 net ex r cl1)
    have "node_of cl1 c = Some n"
      using 2(3) assms(2,3)
      by (auto simp: ApplyReplicate_def local_apply_def next_io_def Let_def case_prod_unfold)
    then show ?thesis using 2(4) by (simp add: Net_ReplicateWrite_def Endpoint_ReplicateWrite_def)
  qed
  then show ?thesis
    using assms(3) by (auto simp: write_task_def node_at_of [OF assms(2)] id Let_def node_at_of split: prod.splits sum.splits)
qed

lemma write_tasks_other:
  assumes "cluster_ok pol cl" "node_of cl c = Some n" "wf_pol (pol key) v" "c \<notin> set ps"
  shows "map_option nodeReplica (node_of (snd (run_tasks (write_task c key v) ps cl)) c) = Some (nodeReplica n)"
  using assms(1,2,4)
proof (induction ps arbitrary: cl n)
  case (Cons p ps)
  have "map_option nodeReplica (node_of (snd (write_task c key v p cl)) c) = Some (nodeReplica n)"
    using write_task_other [OF Cons.prems(1,2)] Cons.prems(3) by auto
  then obtain n' where "node_of (snd (write_task c key v p cl)) c = Some n'" "nodeReplica n' = nodeReplica n" by auto
  then show ?case
    using Cons.IH [of _ n'] movesD(1) [OF write_task_moves(1) [OF Cons.prems(1,2) assms(3)]] Cons.prems(3)
    by (auto simp: Let_def case_prod_unfold)
qed simp

lemma lww_write_begin:
  assumes "node_of cl c = Some n" "nodeID n = c" "wqPolicy req = PolicyLWW"
  shows "write_begin c req cl =
    ((\<lparr>Lamport = clock_t (repClock (nodeReplica n)) + 1, NodeID = c\<rparr>,
      \<lparr>Data = append_nil (wqData req), Version = \<lparr>Lamport = clock_t (repClock (nodeReplica n)) + 1, NodeID = c\<rparr>,
       Policy = PolicyLWW, Tombstone = wqTombstone req, CRDT = None\<rparr>),
     upd_node c (n\<lparr>nodeReplica := (nodeReplica n)\<lparr>repClock := \<lparr>clock_t = clock_t (repClock (nodeReplica n)) + 1\<rparr>\<rparr>\<rparr>) cl)"
  using assms(2,3)
  by (cases "repClock (nodeReplica n)") (simp add: write_begin_def node_at_of [OF assms(1)] Tick_def localPrepare_def Let_def case_prod_unfold)

text \<open>A write whose own goroutine has not run leaves the log of its node as it was.\<close>

lemma Write_log_kept:
  assumes "cluster_ok pol cl" "node_of cl c = Some n" "req_ok pol req" "clock_t (repClock (nodeReplica n)) + 1 \<noteq> 0" "c \<notin> set sched"
  shows "moves pol cl (snd (Write c req sched timeout cl))"
    "repWAL (nodeReplica (node_at (snd (Write c req sched timeout cl)) c)) = repWAL (nodeReplica n)"
proof -
  obtain ver v cl0 where b: "write_begin c req cl = ((ver, v), cl0)" by (metis surj_pair)
  note f = write_begin_facts [OF assms(1-4)]
  have m0: "moves pol cl cl0" and wf: "wf_pol (pol (wqKey req)) v" using f(1,3) b by simp_all
  obtain n0 where n0: "node_of cl0 c = Some n0" using node_of_some [OF m0 assms(2)] by blast
  let ?cl = "snd (run_tasks (write_task c (wqKey req) v) sched cl0)"
  have "cl0 = upd_node c n0 cl" "repWAL (nodeReplica n0) = repWAL (nodeReplica n)"
    using b n0 by (auto simp: write_begin_def node_at_of [OF assms(2)] Tick_def Let_def case_prod_unfold localPrepare_frame)
  then have w: "repWAL (nodeReplica (node_at ?cl c)) = repWAL (nodeReplica n)"
    using write_tasks_other [OF movesD(1) [OF m0] n0 wf assms(5)] by (auto simp: node_at_of)
  show "moves pol cl (snd (Write c req sched timeout cl))"
    using write_members(1) [OF assms(1-4) b] moves_refl [OF assms(1)] b
    by (simp add: Write_def case_prod_unfold Let_def split: option.splits)
  show "repWAL (nodeReplica (node_at (snd (Write c req sched timeout cl)) c)) = repWAL (nodeReplica n)"
    using w b by (simp add: Write_def case_prod_unfold Let_def node_at_of [OF assms(2)] split: option.splits)
qed

text \<open>A read that hears all the members it asked hears each of them.\<close>

lemma full_read_sees:
  assumes "cluster_ok pol cl" "node_of cl d \<noteq> None" "distinct sched" "p \<in> set sched" "reaches cl p key v" "wf_pol (pol key) v"
    and "Read d \<lparr>rqKey = key, rqR = int (length sched)\<rparr> sched timeout late cl = (Some rresp, cl')" "rrError rresp = ''''"
  shows "wf_pol (pol key) (rrValue rresp)" "below v (rrValue rresp)"
proof -
  obtain md where md: "node_of cl d = Some md" using assms(2) by blast
  obtain views where views: "rrValue rresp = fst (ResolveMany views)" "length sched \<le> length views"
      "distinct (map rvNodeID views)" "set (map rvNodeID views) \<subseteq> set sched"
    and sees: "\<And>v. v \<in> set views \<Longrightarrow> sees pol cl (rvNodeID v) key v"
    using Read_answered [OF assms(7,8,1) md assms(3)] by (metis ReadReq.select_convs(1,2) of_nat_le_iff)
  have "card (set sched) \<le> card (set (map rvNodeID views))"
    using views(2) distinct_card [OF assms(3)] distinct_card [OF views(3)] by simp
  then have "set (map rvNodeID views) = set sched" by (rule card_seteq [OF finite_set views(4)])
  then obtain w where w: "w \<in> set views" "rvNodeID w = p" using assms(4) by (metis (no_types, lifting) imageE set_map)
  then have s: "rvFound w" "below v (rvValue w)" using sees [OF w(1)] assms(5,6) by (simp_all add: sees_def)
  have wf: "\<And>u. u \<in> set views \<Longrightarrow> rvFound u \<Longrightarrow> wf_pol (pol key) (rvValue u)" using sees by (simp add: sees_def)
  note up = views_upper [OF wf w(1) s(1)]
  show "wf_pol (pol key) (rrValue rresp)" using up(1) views(1) by simp
  show "below v (rrValue rresp)"
    unfolding views(1) by (rule value_below_trans [OF assms(6) wf [OF w(1) s(1)] up(1) s(2) up(2)])
qed

lemma acked_write_moves:
  assumes "cluster_ok pol cl" "node_of cl c = Some n" "req_ok pol req" "clock_t (repClock (nodeReplica n)) + 1 \<noteq> 0"
    and "Write c req sched timeout cl = (Some resp, cl1)" "wrOK resp"
  shows "moves pol cl cl1" "wrVersion resp = \<lparr>Lamport = clock_t (repClock (nodeReplica n)) + 1, NodeID = c\<rparr>"
proof -
  obtain ver v cl0 rs where w: "write_begin c req cl = ((ver, v), cl0)"
    "run_tasks (write_task c (wqKey req) v) sched cl0 = (rs, cl1)" "wrVersion resp = ver"
    using assms(5,6) by (rule Write_started)
  then show "moves pol cl cl1" "wrVersion resp = \<lparr>Lamport = clock_t (repClock (nodeReplica n)) + 1, NodeID = c\<rparr>"
    using write_members(1) [OF assms(1-4) w(1), of sched] write_begin_facts(2) [OF assms(1-4)] by simp_all
qed

lemma below_lww:
  assumes "wf_lww a" "wf_lww b" "below a b"
  shows "value_key a \<le> value_key b"
proof -
  have "LWW a b = b" using assms by (simp add: below_def Resolve_lww)
  then show ?thesis using assms(1,2) by (auto simp: LWW_wf split: if_splits)
qed

text \<open>C36. A version can be used twice, and an acknowledged write lost over it. A coordinator
  whose clock is what its log gives starts a write of an LWW key; the value reaches member p, and the process stops before
  the coordinator's own goroutine has logged it. It starts again on its log file and writes the key once more. The clock
  is rebuilt from the log, which knows nothing of the first write, so the second one gets the same version. When its value
  is smaller than the first one (a put against a delete, or the smaller bytes) p keeps the first value for ever: although
  the second write is acknowledged with its quorum, no read that hears p ever returns it.\<close>

theorem version_reused_after_crash:
  assumes "cluster_ok pol cl" "node_of cl c = Some n" "clock_t (repClock (nodeReplica n)) + 1 \<noteq> 0"
    and log: "repWAL (nodeReplica n) = Some w" "wal_synced w" "wal_path w \<noteq> ''''"
      "repClock (nodeReplica n) = repClock (NewReplica c (Some w))"
    and reqs: "pol key = PolicyLWW" "wqKey req1 = key" "wqKey req2 = key" "wqPolicy req1 = PolicyLWW" "wqPolicy req2 = PolicyLWW"
      "valid_utf8 (wqORSetElem req1)" "valid_utf8 (wqORSetElem req2)"
      "(wqTombstone req2, bytes (wqData req2)) < (wqTombstone req1, bytes (wqData req1))"
    and first: "Write c req1 sched1 timeout1 cl = (resp1, cl1)" "c \<notin> set sched1"
      "node_of cl1 p = Some m" "Replica_Get (nodeReplica m) key = (snd (fst (write_begin c req1 cl)), True)"
    and crash: "OpenWAL (wal_path w) (env\<lparr>env_contents := the (wal_f w)\<rparr>) = Inr w'"
    and second: "Write c req2 sched2 timeout2 (upd_node c (reboot (node_at cl1 c) w') cl1) = (Some resp2, cl2)" "wrOK resp2"
    and later: "(step pol)\<^sup>*\<^sup>* cl2 cl3" "node_of cl3 d \<noteq> None" "distinct sched" "p \<in> set sched"
      "Read d \<lparr>rqKey = key, rqR = int (length sched)\<rparr> sched timeout late cl3 = (Some rresp, cl4)" "rrError rresp = ''''"
  shows "repWAL (nodeReplica (node_at cl1 c)) = Some w \<and>
    wrVersion resp2 = fst (fst (write_begin c req1 cl)) \<and> wrVersion resp2 \<le> Version (rrValue rresp) \<and>
    (Version (rrValue rresp) = wrVersion resp2 \<longrightarrow>
      (wqTombstone req2, bytes (wqData req2)) < (Tombstone (rrValue rresp), bytes (Data (rrValue rresp))))"
proof -
  let ?t = "clock_t (repClock (nodeReplica n)) + 1" and ?v1 = "snd (fst (write_begin c req1 cl))"
  let ?ver = "\<lparr>Lamport = ?t, NodeID = c\<rparr>"
  have ok: "req_ok pol req1" "req_ok pol req2" using reqs by (simp_all add: req_ok_def norm_policy_def)
  have id: "nodeID n = c" using node_ok_of [OF assms(1,2)] by (simp add: node_ok_def)
  note v1 = lww_write_begin [OF assms(2) id reqs(4)]
  have wf1: "wf_pol (pol key) ?v1" using write_begin_facts(3) [OF assms(1,2) ok(1) assms(3)] reqs(2) by simp
  note W1 = Write_log_kept [OF assms(1,2) ok(1) assms(3) first(2), of timeout1]
  have m1: "moves pol cl cl1" and w1: "repWAL (nodeReplica (node_at cl1 c)) = Some w" using W1 first(1) log(1) by simp_all
  obtain n1 where n1: "node_of cl1 c = Some n1" "node_ok pol c n1" using node_of_some [OF m1 assms(2)] by blast
  have w': "w' = w" using OpenWAL_synced_same [OF log(2) crash log(3)] .
  let ?cl = "upd_node c (reboot n1 w) cl1"
  have m2: "moves pol cl1 ?cl" using reboot_moves [OF movesD(1) [OF m1] n1(1)] w1 n1(1) by (simp add: node_at_of)
  have n2: "node_of ?cl c = Some (reboot n1 w)" by simp
  have id2: "nodeID (reboot n1 w) = c" and ck: "repClock (nodeReplica (reboot n1 w)) = repClock (nodeReplica n)"
    using n1(2) log(4) by (simp_all add: reboot_def New_def Let_def node_ok_def)
  note ok2 = movesD(1) [OF m2] and t2 = assms(3) [folded ck]
  have S: "Write c req2 sched2 timeout2 ?cl = (Some resp2, cl2)" using second(1) w' by (simp add: node_at_of [OF n1(1)])
  have m3: "moves pol ?cl cl2" and ver: "wrVersion resp2 = ?ver"
    using acked_write_moves [OF ok2 n2 ok(2) t2 S second(2)] ck by simp_all
  have m5: "moves pol cl1 cl3"
    using moves_trans [OF movesD(1) [OF m1] m2] moves_trans [OF ok2 m3 steps_moves [OF later(1) movesD(1) [OF m3]]] by blast
  have "typed pol (nodeReplica m)" using node_ok_of [OF movesD(1) [OF m1] first(3)] by (simp add: node_ok_def sound_typed)
  then have "held (nodeReplica m) key = Some ?v1" using first(4) by (auto simp: Get_held split: option.splits)
  then have "reaches cl1 p key ?v1" using first(3) below_refl [OF wf1] by (auto simp: reaches_def)
  then have "reaches cl3 p key ?v1" using reaches_moves [OF movesD(1) [OF m1] m5 _ wf1] by blast
  note r = full_read_sees [OF movesD(1) [OF m5] later(2,3,4) this wf1 later(5,6)]
  have k: "value_key ?v1 \<le> value_key (rrValue rresp)"
    using below_lww [OF _ _ r(2)] r(1) wf1 reqs(1) by (simp add: wf_pol_simps)
  have "Version ?v1 = ?ver" "Tombstone ?v1 = wqTombstone req1" "bytes (Data ?v1) = bytes (wqData req1)" by (simp_all add: v1)
  then show ?thesis using k reqs(8) w1 ver v1 value_key_le_version [OF k] by (auto simp: value_key_def)
qed

text \<open>A run of that kind: node A keeps a log in a file, empty at the start.\<close>

definition put_data :: "string \<Rightarrow> WriteReq" where
  "put_data d = put_k\<lparr>wqData := Some d\<rparr>"

definition empty_log :: WAL where
  "empty_log = \<lparr>wal_path = ''a.wal'', wal_f = Some '''', wal_seq = 0, wal_log = []\<rparr>"

definition logging :: Cluster where
  "logging = upd_node ''A'' (reboot (fresh_node three ''A'') empty_log) (fresh_cluster three)"

definition crashed :: Cluster where
  "crashed = snd (Write ''A'' (put_data ''b'') [''B''] None logging)"

definition restarted :: Cluster where
  "restarted = snd (Write ''A'' (put_data ''a'') [''A'', ''B''] None (upd_node ''A'' (reboot (node_at crashed ''A'') empty_log) crashed))"

lemma logging_node: "node_of logging ''A'' = Some (reboot (fresh_node three ''A'') empty_log)"
  by (simp add: logging_def)

lemma logging_ok: "cluster_ok pol logging"
proof -
  have A: "node_of (fresh_cluster three) ''A'' = Some (fresh_node three ''A'')" by (simp add: fresh_node_of three_ok(3))
  have r: "nodeReplica (reboot (fresh_node three ''A'') empty_log) = NewReplica ''A'' (Some empty_log)"
    by (simp add: reboot_def New_def Let_def fresh_node_def)
  have h: "held (NewReplica ''A'' (Some empty_log)) k = None" for k
    by (simp add: held_def NewReplica_def Let_def Replay_def All_def empty_log_def NewKV_def)
  have "sound pol (NewReplica ''A'' (Some empty_log))" by (simp add: sound_def typed_def clock_covers_def h)
  moreover from this have "durable pol (NewReplica ''A'' (Some empty_log))" by (simp add: durable_def restart_def grows_def h)
  ultimately have "node_ok pol ''A'' (reboot (fresh_node three ''A'') empty_log)"
    using r by (simp add: node_ok_def) (simp add: reboot_def New_def Let_def fresh_node_def hints_ok_def NewHints_def Peek_def byte_def)
  moreover have "grows (nodeReplica (fresh_node three ''A'')) (nodeReplica (reboot (fresh_node three ''A'') empty_log))"
    by (simp add: grows_def fresh_node_def New_def Let_def held_def NewReplica_def NewKV_def)
  ultimately show ?thesis
    unfolding logging_def by (intro movesD(1) [OF moves_upd [OF three_ok(1) A]]) (simp_all add: reboot_def New_def Let_def)
qed

lemma crash_answers:
  "map_option nodeID (node_of crashed ''B'') = Some ''B''" "node_of restarted ''A'' \<noteq> None"
  "Replica_Get (nodeReplica (node_at crashed ''B'')) ''k'' = (snd (fst (write_begin ''A'' (put_data ''b'') logging)), True)"
  "fst (Write ''A'' (put_data ''a'') [''A'', ''B''] None (upd_node ''A'' (reboot (node_at crashed ''A'') empty_log) crashed)) =
     Some \<lparr>wrOK = True, wrVersion = \<lparr>Lamport = 1, NodeID = ''A''\<rparr>, wrAcksReceived = 2, wrError = ''''\<rparr>"
  "map_option (\<lambda>r. (Version (rrValue r), rrError r)) (fst (Read ''A'' \<lparr>rqKey = ''k'', rqR = 2\<rparr> [''A'', ''B''] None [] restarted)) =
     Some (\<lparr>Lamport = 1, NodeID = ''A''\<rparr>, '''')"
  by code_simp+

theorem version_reused_after_crash_witness:
  "fst (Write ''A'' (put_data ''a'') [''A'', ''B''] None (upd_node ''A'' (reboot (node_at crashed ''A'') empty_log) crashed)) =
     Some \<lparr>wrOK = True, wrVersion = \<lparr>Lamport = 1, NodeID = ''A''\<rparr>, wrAcksReceived = 2, wrError = ''''\<rparr> \<and>
   (\<exists>r. fst (Read ''A'' \<lparr>rqKey = ''k'', rqR = 2\<rparr> [''A'', ''B''] None [] restarted) = Some r \<and> rrError r = '''' \<and>
     Version (rrValue r) = \<lparr>Lamport = 1, NodeID = ''A''\<rparr> \<and> (False, ''a'') < (Tombstone (rrValue r), bytes (Data (rrValue r))))"
proof -
  let ?cl = "upd_node ''A'' (reboot (node_at crashed ''A'') empty_log) crashed"
  obtain resp1 where W1: "Write ''A'' (put_data ''b'') [''B''] None logging = (resp1, crashed)" by (metis crashed_def prod.collapse)
  have W2: "Write ''A'' (put_data ''a'') [''A'', ''B''] None ?cl =
      (Some \<lparr>wrOK = True, wrVersion = \<lparr>Lamport = 1, NodeID = ''A''\<rparr>, wrAcksReceived = 2, wrError = ''''\<rparr>, restarted)"
    by (metis restarted_def crash_answers(4) prod.collapse)
  obtain r cl4 where R: "Read ''A'' \<lparr>rqKey = ''k'', rqR = int (length [''A'', ''B''])\<rparr> [''A'', ''B''] None [] restarted = (Some r, cl4)"
    "rrError r = ''''" "Version (rrValue r) = \<lparr>Lamport = 1, NodeID = ''A''\<rparr>" using crash_answers(5) by (auto simp: prod_eq_iff)
  obtain m where m: "node_of crashed ''B'' = Some m" using crash_answers(1) by blast
  have G: "Replica_Get (nodeReplica m) ''k'' = (snd (fst (write_begin ''A'' (put_data ''b'') logging)), True)"
    using crash_answers(3) by (simp add: node_at_of [OF m])
  have ck: "clock_t (repClock (nodeReplica (reboot (fresh_node three ''A'') empty_log))) + 1 \<noteq> 0" by code_simp
  have log: "repWAL (nodeReplica (reboot (fresh_node three ''A'') empty_log)) = Some empty_log" "wal_path empty_log \<noteq> ''''"
    "repClock (nodeReplica (reboot (fresh_node three ''A'') empty_log)) = repClock (NewReplica ''A'' (Some empty_log))"
    by (simp_all add: reboot_def New_def Let_def fresh_node_def) (simp add: empty_log_def)
  have sy: "wal_synced empty_log" "OpenWAL (wal_path empty_log) (sample_env\<lparr>env_contents := the (wal_f empty_log)\<rparr>) = Inr empty_log"
    by (simp_all add: wal_synced_def empty_log_def whole_lines_def OpenWAL_def load_def sample_env_def)
  note t = version_reused_after_crash [where pol = "\<lambda>_. PolicyLWW" and p = "''B''" and sched = "[''A'', ''B'']" and key = "''k''",
      OF logging_ok logging_node ck log(1) sy(1) log(2,3) refl, OF _ _ _ _ _ _ _ W1 _ m G sy(2) W2 _ rtranclp.rtrancl_refl crash_answers(2) _ _ R(1,2)]
  have "(wqTombstone (put_data ''a''), bytes (wqData (put_data ''a''))) < (Tombstone (rrValue r), bytes (Data (rrValue r)))"
    using t R(3) by (simp add: put_data_def put_k_def)
  then have "(False, ''a'') < (Tombstone (rrValue r), bytes (Data (rrValue r)))" by (simp add: put_data_def put_k_def)
  then show ?thesis using R crash_answers(4) by (intro conjI exI [of _ r]) simp_all
qed

end
