(* ===== verification/Convergence.thy ===== *)
theory Convergence
  imports Quorum_Safety
begin

text \<open>
  Repair on a cluster without faults. \<open>healthy\<close> is the situation after \<^verbatim>\<open>ResetFaults\<close> with every node registered
  and working disks; there every call runs its method at the target, so what an operation of the coordinator does can be said
  exactly: \<open>delivers\<close> names the one replica that changed and the values applied to it. From it follows that two anti-entropy
  rounds of one node make all members equal.
\<close>

section \<open>A healthy cluster\<close>

text \<open>No fault is injected (what \<^verbatim>\<open>ResetFaults\<close> leaves behind), every node is registered, the disks work.\<close>

definition calm :: "Network \<Rightarrow> bool" where
  "calm net \<longleftrightarrow> n_hook net = None \<and> n_group (faults net) = fmempty \<and> n_isolated (faults net) = fmempty \<and>
     n_drop (faults net) = fmempty \<and> n_delay (faults net) = fmempty \<and> n_failAfter (faults net) = fmempty"

definition healthy :: "Cluster \<Rightarrow> bool" where
  "healthy cl \<longleftrightarrow> calm (cl_net cl) \<and> cl_io cl = (\<lambda>_. IO_ok) \<and>
     (\<forall>i n. node_of cl i = Some n \<longrightarrow> fmlookup (n_handlers (faults (cl_net cl))) i = Some i \<and> rep_ok (nodeReplica n))"

lemma ResetFaults_calm: "calm (ResetFaults n)"
  by (simp add: calm_def ResetFaults_def)

abbreviation with_replica :: "Node \<Rightarrow> Replica \<Rightarrow> Node" where
  "with_replica n r \<equiv> n\<lparr>nodeReplica := r\<rparr>"

lemma dispatch_calm:
  assumes "calm net" "fmlookup (n_handlers (faults net)) to = Some h"
  shows "fst (dispatch net a to) = Inr (h, 0)" "calm (snd (dispatch net a to))"
    "n_handlers (faults (snd (dispatch net a to))) = n_handlers (faults net)"
proof -
  let ?f = "(faults net)\<lparr>n_seq := n_seq (faults net) + 1\<rparr>"
  have "allowLocked ?f a to = ((True, 0), ?f)"
    using assms(1) by (subst allow_plain) (simp_all add: calm_def linked_def)
  then show "fst (dispatch net a to) = Inr (h, 0)" "calm (snd (dispatch net a to))"
    "n_handlers (faults (snd (dispatch net a to))) = n_handlers (faults net)"
    using assms by (simp_all add: dispatch_def Let_def calm_def)
qed

text \<open>On a healthy cluster a call runs its method at the target.\<close>

lemma rpc_calm:
  fixes meth :: "string \<Rightarrow> Cluster \<Rightarrow> ('e + 'r) \<times> Cluster"
  assumes "healthy cl" "node_of cl to = Some m"
  obtains net ex where "calm net" "n_handlers (faults net) = n_handlers (faults (cl_net cl))"
    "rpc (\<lambda>expired. call expired i to meth) cl =
       (case meth to (cl\<lparr>cl_expired := ex\<rparr>) of
          (r, cl1) \<Rightarrow> (case r of Inl e \<Rightarrow> Inl (ErrHandler e) | Inr x \<Rightarrow> Inr x, cl1\<lparr>cl_net := net\<rparr>))"
proof -
  have h: "calm (cl_net cl)" "fmlookup (n_handlers (faults (cl_net cl))) to = Some to"
    using assms by (simp_all add: healthy_def)
  obtain net where d: "dispatch (cl_net cl) i to = (Inr (to, 0) :: 'e rpc_error + string \<times> int, net)"
    using dispatch_calm(1) [OF h] by (metis prod.collapse)
  let ?net = "snd (dispatch (cl_net cl) i to :: ('e rpc_error + string \<times> int) \<times> Network)"
  show thesis
  proof (rule that [of ?net "\<lambda>i. cl_expired cl (Suc i)"])
    show "calm ?net" "n_handlers (faults ?net) = n_handlers (faults (cl_net cl))" using dispatch_calm(2,3) [OF h] by blast+

    show "rpc (\<lambda>expired. call expired i to meth) cl =
       (case meth to (cl\<lparr>cl_expired := \<lambda>i. cl_expired cl (Suc i)\<rparr>) of
          (r, cl1) \<Rightarrow> (case r of Inl e \<Rightarrow> Inl (ErrHandler e) | Inr x \<Rightarrow> Inr x, cl1\<lparr>cl_net := ?net\<rparr>))"
      by (simp add: rpc_def next_expired_def call_def d sleep_def split: sum.splits prod.splits)
  qed
qed

section \<open>Deliveries\<close>

text \<open>A list of values has been applied to the replica of one node, in order and without an error.\<close>

definition delivers :: "Cluster \<Rightarrow> string \<Rightarrow> (string \<times> Value) list \<Rightarrow> Cluster \<Rightarrow> bool" where
  "delivers cl i es cl' \<longleftrightarrow> healthy cl' \<and>
     (\<exists>n. node_of cl i = Some n \<and> node_of cl' = (node_of cl)(i \<mapsto> with_replica n (applies (nodeReplica n) es)))"

lemma deliversD:
  assumes "delivers cl i es cl'" "node_of cl i = Some n"
  shows "healthy cl'" "node_of cl' = (node_of cl)(i \<mapsto> with_replica n (applies (nodeReplica n) es))"
  using assms by (auto simp: delivers_def)

lemma delivers_Nil: "healthy cl \<Longrightarrow> node_of cl i = Some n \<Longrightarrow> delivers cl i [] cl"
  by (simp add: delivers_def fun_upd_idem)

lemma delivers_append: "delivers cl i es cl1 \<Longrightarrow> delivers cl1 i fs cl2 \<Longrightarrow> delivers cl i (es @ fs) cl2"
  by (auto simp: delivers_def)

lemma delivers_some: "delivers cl i es cl' \<Longrightarrow> node_of cl j \<noteq> None \<Longrightarrow> node_of cl' j \<noteq> None"
  by (auto simp: delivers_def)

lemma local_apply_delivers:
  assumes "healthy cl" "node_of cl i = Some n"
  shows "delivers cl i [(k, v)] (snd (local_apply i k v cl))" "snd (fst (local_apply i k v cl)) = None"
proof -
  have ok: "rep_ok (nodeReplica n)" and io: "cl_io cl = (\<lambda>_. IO_ok)" using assms by (auto simp: healthy_def)
  have eq: "local_apply i k v cl = (fst (Replica_Apply (nodeReplica n) IO_ok k v),
      upd_node i (with_replica n (snd (Replica_Apply (nodeReplica n) IO_ok k v))) (cl\<lparr>cl_io := \<lambda>_. IO_ok\<rparr>))"
    using node_at_of [of "cl\<lparr>cl_io := \<lambda>_. IO_ok\<rparr>" i n] assms(2) io
    by (simp add: local_apply_def next_io_def Let_def case_prod_unfold)
  then have no: "node_of (snd (local_apply i k v cl)) =
      (node_of cl)(i \<mapsto> with_replica n (snd (Replica_Apply (nodeReplica n) IO_ok k v)))" by auto
  have env: "cl_net (snd (local_apply i k v cl)) = cl_net cl" "cl_io (snd (local_apply i k v cl)) = (\<lambda>_. IO_ok)"
    by (simp_all add: eq upd_node_def)
  have "healthy (snd (local_apply i k v cl))"
    using assms Apply_held(2) [OF ok] unfolding healthy_def env no by auto
  then show "delivers cl i [(k, v)] (snd (local_apply i k v cl))" using assms(2) no by (simp add: delivers_def)
  show "snd (fst (local_apply i k v cl)) = None" using Apply_held(3) [OF ok] by (simp add: eq)
qed

lemma delivers_env:
  assumes "delivers (cl\<lparr>cl_expired := ex\<rparr>) i es cl1" "calm net"
    and "n_handlers (faults net) = n_handlers (faults (cl_net cl))" "healthy cl"
  shows "delivers cl i es (cl1\<lparr>cl_net := net\<rparr>)"
proof -
  have no: "node_of (cl\<lparr>cl_expired := ex\<rparr>) = node_of cl" "node_of (cl1\<lparr>cl_net := net\<rparr>) = node_of cl1" by auto
  have "fmlookup (n_handlers (faults net)) j = Some j" if "node_of cl1 j = Some m" for j m
    using that assms(1,3,4) by (auto simp: delivers_def healthy_def split: if_splits)
  then have "healthy (cl1\<lparr>cl_net := net\<rparr>)" using assms(1,2) by (simp add: delivers_def healthy_def)
  then show ?thesis using assms(1) by (simp add: delivers_def no)
qed

lemma healthy_env: "healthy cl \<Longrightarrow> healthy (cl\<lparr>cl_expired := ex\<rparr>)"
  by (simp add: healthy_def)

lemma ReplicateWrite_delivers:
  assumes "healthy cl" "node_of cl to = Some m"
  shows "delivers cl to [(k, v)] (snd (Net_ReplicateWrite s to k v cl))" "fst (Net_ReplicateWrite s to k v cl) = Inr ()"
proof -
  obtain net ex where net: "calm net" "n_handlers (faults net) = n_handlers (faults (cl_net cl))"
    and r: "rpc (\<lambda>expired. call expired (nodeNet s) to (\<lambda>h. ApplyReplicate h (nodeNet s) k v)) cl =
       (case ApplyReplicate to (nodeNet s) k v (cl\<lparr>cl_expired := ex\<rparr>) of
          (r, cl1) \<Rightarrow> (case r of Inl e \<Rightarrow> Inl (ErrHandler e) | Inr x \<Rightarrow> Inr x, cl1\<lparr>cl_net := net\<rparr>))"
    by (rule rpc_calm [OF assms])
  let ?cl = "cl\<lparr>cl_expired := ex\<rparr>"
  have m: "node_of ?cl to = Some m" using assms(2) by simp
  note A = local_apply_delivers [OF healthy_env [OF assms(1)] m, of k v]
  have "Net_ReplicateWrite s to k v cl = (Inr (), (snd (local_apply to k v ?cl))\<lparr>cl_net := net\<rparr>)"
    using A(2) by (simp add: Net_ReplicateWrite_def Endpoint_ReplicateWrite_def r ApplyReplicate_def case_prod_unfold Let_def)
  then show "delivers cl to [(k, v)] (snd (Net_ReplicateWrite s to k v cl))" "fst (Net_ReplicateWrite s to k v cl) = Inr ()"
    using delivers_env [OF A(1) net assms(1)] by simp_all
qed

lemma GetDigest_healthy:
  assumes "healthy cl" "node_of cl to = Some m"
  shows "fst (Net_GetDigest s to cl) = Inr (Replica_Snapshot (nodeReplica m))" "delivers cl to [] (snd (Net_GetDigest s to cl))"
proof -
  obtain net ex where net: "calm net" "n_handlers (faults net) = n_handlers (faults (cl_net cl))"
    and r: "rpc (\<lambda>expired. call expired (nodeNet s) to (\<lambda>h. ServeDigest h (nodeNet s))) cl =
       (case ServeDigest to (nodeNet s) (cl\<lparr>cl_expired := ex\<rparr>) of
          (r, cl1) \<Rightarrow> (case r of Inl e \<Rightarrow> Inl (ErrHandler e) | Inr x \<Rightarrow> Inr x, cl1\<lparr>cl_net := net\<rparr>))"
    by (rule rpc_calm [OF assms])
  let ?cl = "cl\<lparr>cl_expired := ex\<rparr>"
  have m: "node_of ?cl to = Some m" using assms(2) by simp
  have "Net_GetDigest s to cl = (Inr (Replica_Snapshot (nodeReplica m)), ?cl\<lparr>cl_net := net\<rparr>)"
    using node_at_of [OF m] by (simp add: Net_GetDigest_def Endpoint_GetDigest_def r ServeDigest_def)
  then show "fst (Net_GetDigest s to cl) = Inr (Replica_Snapshot (nodeReplica m))"
    "delivers cl to [] (snd (Net_GetDigest s to cl))"
    using delivers_env [OF delivers_Nil [OF healthy_env [OF assms(1)] m] net assms(1)] by simp_all
qed

lemma foldl_delivers:
  assumes "\<And>b cl e. healthy cl \<Longrightarrow> node_of cl i \<noteq> None \<Longrightarrow>
      \<exists>cl'. f (b, cl) e = (b + 1, cl') \<and> delivers cl i [e] cl'"
    and "healthy cl" "node_of cl i \<noteq> None"
  shows "fst (foldl f (b :: nat, cl) es) = b + length es \<and> delivers cl i es (snd (foldl f (b, cl) es))"
  using assms(2,3)
proof (induction es arbitrary: b cl)
  case Nil
  then show ?case using delivers_Nil by auto
next
  case (Cons e es)
  obtain cl' where f: "f (b, cl) e = (b + 1, cl')" and d: "delivers cl i [e] cl'" using assms(1) [OF Cons.prems] by blast
  have "healthy cl'" "node_of cl' i \<noteq> None" using d delivers_some [OF d Cons.prems(2)] by (auto simp: delivers_def)
  from Cons.IH [OF this, of "b + 1"] show ?case using f delivers_append [OF d] by auto
qed

lemma pulls_deliver:
  assumes "healthy cl" "node_of cl c \<noteq> None"
  shows "fst (foldl (pull_one c) (b, cl) es) = b + length es \<and> delivers cl c es (snd (foldl (pull_one c) (b, cl) es))"
proof (rule foldl_delivers [OF _ assms])
  fix b cl e assume h: "healthy cl" "node_of cl c \<noteq> None"
  then show "\<exists>cl'. pull_one c (b, cl) e = (b + 1, cl') \<and> delivers cl c [e] cl'"
    using local_apply_delivers(1) [OF h(1), of c _ "fst e" "snd e"] by (auto simp: pull_one_def case_prod_unfold)
qed

lemma pushes_deliver:
  assumes "healthy cl" "node_of cl p \<noteq> None"
  shows "fst (foldl (push_one c p) (b, cl) es) = b + length es \<and> delivers cl p es (snd (foldl (push_one c p) (b, cl) es))"
proof (rule foldl_delivers [OF _ assms])
  fix b cl e assume h: "healthy cl" "node_of cl p \<noteq> None"
  then obtain m where "node_of cl p = Some m" by blast
  from ReplicateWrite_delivers [OF h(1) this, where k = "fst e" and v = "snd e" and s = "node_at cl c"]
  show "\<exists>cl'. push_one c p (b, cl) e = (b + 1, cl') \<and> delivers cl p [e] cl'"
    by (auto simp: push_one_def case_prod_unfold Let_def split: sum.splits)
qed

section \<open>One exchange\<close>

definition wf_opt :: "Policy \<Rightarrow> Value option \<Rightarrow> bool" where
  "wf_opt p a \<longleftrightarrow> (\<forall>x. a = Some x \<longrightarrow> wf_pol p x)"

interpretation opt: merge_semilattice "wf_opt p" opt_merge for p
proof unfold_locales
  show "wf_opt p (opt_merge a b)" if "wf_opt p a" "wf_opt p b" for a b
    using that resolve.closed [of p] by (cases a; cases b) (auto simp: wf_opt_def)
  show "opt_merge (opt_merge a b) c = opt_merge a (opt_merge b c)" if "wf_opt p a" "wf_opt p b" "wf_opt p c" for a b c
    using that resolve.assoc [of p] by (cases a; cases b; cases c) (auto simp: wf_opt_def)
  show "opt_merge a b = opt_merge b a" if "wf_opt p a" "wf_opt p b" for a b
    using that opt_merge_comm [of a p b] by (simp add: wf_opt_def)
  show "opt_merge a a = a" if "wf_opt p a" for a
    using that resolve.idem [of p] by (cases a) (auto simp: wf_opt_def)
qed

abbreviation held_at :: "Cluster \<Rightarrow> string \<Rightarrow> string \<Rightarrow> Value option" where
  "held_at cl i k \<equiv> held (nodeReplica (node_at cl i)) k"

lemma held_wf: "cluster_ok pol cl \<Longrightarrow> node_of cl i \<noteq> None \<Longrightarrow> wf_opt (pol k) (held_at cl i k)"
  using node_ok_of [of pol cl i] by (auto simp: wf_opt_def node_at_of node_ok_def sound_def typed_def)

lemma node_at_the: "node_at cl i = the (node_of cl i)"
  by (simp add: node_at_def node_of_def)

lemma delivers_held:
  assumes "cluster_ok pol cl" "delivers cl i es cl'" "typed_writes pol es" "set es = {(k, v). fmlookup m k = Some v}"
  shows "held_at cl' j k = (if j = i then opt_merge (held_at cl i k) (fmlookup m k) else held_at cl j k)"
proof -
  obtain n where n: "node_of cl i = Some n" "node_of cl' = (node_of cl)(i \<mapsto> with_replica n (applies (nodeReplica n) es))"
    using assms(2) by (auto simp: delivers_def)
  have "typed pol (nodeReplica n)" using node_ok_of [OF assms(1) n(1)] by (simp add: node_ok_def sound_typed)
  from applies_entries [OF this assms(3,4), of k] show ?thesis
    using n by (simp add: node_at_the)
qed

text \<open>After an exchange with a peer both hold the merge of what they held; nothing else changed.\<close>

lemma exchange_healthy:
  assumes "cluster_ok pol cl" "healthy cl" "node_of cl c \<noteq> None" "node_of cl p \<noteq> None" "p \<noteq> c"
  shows "moves pol cl (snd (exchange c (b, cl) p))" "healthy (snd (exchange c (b, cl) p))"
    "held_at (snd (exchange c (b, cl) p)) j k =
      (if j = c \<or> j = p then opt_merge (held_at cl c k) (held_at cl p k) else held_at cl j k)"
    "fst (exchange c (b, cl) p) =
      (let plan = Scan (Replica_Snapshot (nodeReplica (node_at cl c))) (Replica_Snapshot (nodeReplica (node_at cl p)))
       in (fst b + length (sorted_list_of_fmap (Push plan)), snd b + length (sorted_list_of_fmap (Pull plan))))"
proof -
  obtain n m where n: "node_of cl c = Some n" and m: "node_of cl p = Some m" using assms(3,4) by blast
  have t: "typed pol (nodeReplica n)" "typed pol (nodeReplica m)"
    using node_ok_of [OF assms(1) n] node_ok_of [OF assms(1) m] by (simp_all add: node_ok_def sound_typed)
  let ?l = "Replica_Snapshot (nodeReplica n)" and ?r = "Replica_Snapshot (nodeReplica m)"
  let ?pull = "sorted_list_of_fmap (Pull (Scan ?l ?r))" and ?push = "sorted_list_of_fmap (Push (Scan ?l ?r))"
  have wf: "\<And>k v. fmlookup ?l k = Some v \<Longrightarrow> wf_pol (pol k) v" "\<And>k v. fmlookup ?r k = Some v \<Longrightarrow> wf_pol (pol k) v"
    using t by (auto simp: Snapshot_held typed_def)
  have "wf_pol (pol k) v" if "(k, v) \<in> set ?pull \<or> (k, v) \<in> set ?push" for k v
    using that plan_wf [of ?l k "pol k" ?r v, OF wf(1) wf(2)] by (auto simp: in_sorted_list_of_fmap)
  then have tw: "typed_writes pol ?pull" "typed_writes pol ?push" by (auto simp: typed_writes_def)
  obtain cl1 where g: "Net_GetDigest n p cl = (Inr ?r, cl1)" and d1: "delivers cl p [] cl1"
    using GetDigest_healthy [OF assms(2) m, of n] by (metis prod.collapse)
  have no1: "node_of cl1 = node_of cl" using deliversD(2) [OF d1 m] m by (simp add: fun_upd_idem)
  have ok1: "cluster_ok pol cl1" using Read_rpc_moves(2) [OF assms(1), of n p] g movesD(1) by (metis snd_conv)
  have h1: "healthy cl1" using d1 by (simp add: delivers_def)
  have s1: "node_of cl1 c \<noteq> None" "node_of cl1 p \<noteq> None" using assms(3,4) no1 by simp_all
  have n1: "node_of cl1 c = Some n" using n no1 by simp
  obtain cl2 where f2: "foldl (pull_one c) (snd b, cl1) ?pull = (snd b + length ?pull, cl2)" and d2: "delivers cl1 c ?pull cl2"
    using pulls_deliver [OF h1 s1(1), of "snd b" ?pull] by (metis prod.collapse)
  have "moves pol cl1 (snd (foldl (pull_one c) (snd b, cl1) ?pull))"
    by (rule pull_moves(1) [OF ok1 n1]) (use tw(1) in \<open>auto simp: typed_writes_def\<close>)
  then have ok2: "cluster_ok pol cl2" using f2 by (simp add: moves_def)
  have s2: "healthy cl2" "node_of cl2 p \<noteq> None" using d2 delivers_some [OF d2 s1(2)] by (simp_all add: delivers_def)
  obtain cl3 where f3: "foldl (push_one c p) (fst b, cl2) ?push = (fst b + length ?push, cl3)" and d3: "delivers cl2 p ?push cl3"
    using pushes_deliver [OF s2, of c "fst b" ?push] by (metis prod.collapse)
  have E: "exchange c (b, cl) p = ((fst b + length ?push, snd b + length ?pull), cl3)"
    using g f2 f3 by (cases b) (simp add: exchange_def node_at_of [OF n] node_at_of [OF n1] Let_def)
  show "moves pol cl (snd (exchange c (b, cl) p))" by (rule exchange_moves [OF assms(1) n])
  show "healthy (snd (exchange c (b, cl) p))" using d3 by (simp add: E delivers_def)
  have h2: "held_at cl2 j k = (if j = c then opt_merge (held_at cl c k) (fmlookup (Pull (Scan ?l ?r)) k) else held_at cl j k)" for j k
    using delivers_held [OF ok1 d2 tw(1), of "Pull (Scan ?l ?r)" j k] no1
    by (simp add: in_sorted_list_of_fmap node_at_the set_eq_iff split_paired_all)
  have h3: "held_at cl3 j k = (if j = p then opt_merge (held_at cl2 p k) (fmlookup (Push (Scan ?l ?r)) k) else held_at cl2 j k)" for j k
    using delivers_held [OF ok2 d3 tw(2), of "Push (Scan ?l ?r)" j k]
    by (simp add: in_sorted_list_of_fmap set_eq_iff split_paired_all)
  show "held_at (snd (exchange c (b, cl) p)) j k =
      (if j = c \<or> j = p then opt_merge (held_at cl c k) (held_at cl p k) else held_at cl j k)"
    using plan_merge [of ?l k "pol k" ?r, OF wf(1) wf(2)] assms(5)
    by (simp add: E h3 h2 node_at_of [OF n] node_at_of [OF m] Snapshot_held [OF t(1)] Snapshot_held [OF t(2)])
  show "fst (exchange c (b, cl) p) =
      (let plan = Scan (Replica_Snapshot (nodeReplica (node_at cl c))) (Replica_Snapshot (nodeReplica (node_at cl p)))
       in (fst b + length (sorted_list_of_fmap (Push plan)), snd b + length (sorted_list_of_fmap (Pull plan))))"
    by (simp add: E node_at_of [OF n] node_at_of [OF m] Let_def)
qed

section \<open>Rounds\<close>

lemma round_healthy:
  fixes b :: "nat \<times> nat"
  assumes "cluster_ok pol cl" "healthy cl" "node_of cl c \<noteq> None" "\<forall>p \<in> set ps. node_of cl p \<noteq> None" "distinct (c # ps)"
  defines "cl' \<equiv> snd (foldl (exchange c) (b, cl) ps)"
  shows "moves pol cl cl' \<and> healthy cl' \<and>
    (\<forall>k. held_at cl' c k = foldl opt_merge (held_at cl c k) (map (\<lambda>p. held_at cl p k) ps) \<and>
      (\<forall>p \<in> set ps. opt_merge (held_at cl' p k) (held_at cl' c k) = held_at cl' c k \<and>
        opt_merge (held_at cl c k) (held_at cl' p k) = held_at cl' p k) \<and>
      (\<forall>j. j \<notin> set (c # ps) \<longrightarrow> held_at cl' j k = held_at cl j k))"
  using assms(1-5) unfolding cl'_def
proof (induction ps arbitrary: b cl)
  case Nil
  then show ?case by (simp add: moves_refl)
next
  case (Cons p ps)
  have p: "node_of cl p \<noteq> None" "p \<noteq> c" using Cons.prems(4,5) by auto
  obtain b1 cl1 where e: "exchange c (b, cl) p = (b1, cl1)" by (metis surj_pair)
  note x = exchange_healthy [OF Cons.prems(1-3) p, of b, unfolded e snd_conv]
  have some: "node_of cl1 j \<noteq> None" if "node_of cl j \<noteq> None" for j
    using that node_of_some [OF x(1)] by (metis not_None_eq)
  let ?cl = "snd (foldl (exchange c) (b1, cl1) ps)"
  have m1: "moves pol cl1 ?cl" and h: "healthy ?cl"
    and c: "\<And>k. held_at ?cl c k = foldl opt_merge (held_at cl1 c k) (map (\<lambda>p. held_at cl1 p k) ps)"
    and ps: "\<And>k q. q \<in> set ps \<Longrightarrow> opt_merge (held_at ?cl q k) (held_at ?cl c k) = held_at ?cl c k"
      "\<And>k q. q \<in> set ps \<Longrightarrow> opt_merge (held_at cl1 c k) (held_at ?cl q k) = held_at ?cl q k"
    and others: "\<And>k j. j \<notin> set (c # ps) \<Longrightarrow> held_at ?cl j k = held_at cl1 j k"
  proof -
    have "\<forall>q \<in> set ps. node_of cl1 q \<noteq> None" "distinct (c # ps)" using Cons.prems(4,5) some by auto
    note IH = Cons.IH [OF movesD(1) [OF x(1)] x(2) some [OF Cons.prems(3)] this, of b1]
    show "moves pol cl1 ?cl" "healthy ?cl" using IH by blast+
    show "held_at ?cl c k = foldl opt_merge (held_at cl1 c k) (map (\<lambda>p. held_at cl1 p k) ps)" for k using IH by blast
    show "opt_merge (held_at ?cl q k) (held_at ?cl c k) = held_at ?cl c k"
      "opt_merge (held_at cl1 c k) (held_at ?cl q k) = held_at ?cl q k" if "q \<in> set ps" for q k using IH that by blast+
    show "held_at ?cl j k = held_at cl1 j k" if "j \<notin> set (c # ps)" for j k using IH that by blast
  qed
  have wf: "wf_opt (pol k) (held_at cl j k)" "wf_opt (pol k) (held_at cl1 j k)" "wf_opt (pol k) (held_at ?cl j k)"
    if "j \<in> set (c # p # ps)" for j k
    using that held_wf [OF Cons.prems(1), of j] held_wf [OF movesD(1) [OF x(1)], of j] held_wf [OF movesD(1) [OF m1], of j]
      Cons.prems(3,4) some node_of_some [OF m1] by (auto, (metis not_None_eq)+)
  have c1: "held_at cl1 c k = opt_merge (held_at cl c k) (held_at cl p k)" "held_at cl1 p k = held_at cl1 c k" for k
    by (simp_all add: x(3))
  have rest: "map (\<lambda>q. held_at cl1 q k) ps = map (\<lambda>q. held_at cl q k) ps" for k
    using Cons.prems(5) by (auto simp: x(3))
  have up: "opt_merge (held_at cl c k) (held_at cl1 c k) = held_at cl1 c k" for k
    unfolding c1(1) using opt.absorb [of "pol k"] wf(1) by simp
  have top: "opt_merge (held_at cl1 c k) (held_at ?cl c k) = held_at ?cl c k" for k
    unfolding c using wf(2) by (intro opt.foldl_start [of "pol k"]) auto
  have pp: "held_at ?cl p k = held_at cl1 c k" for k using others [of p k] Cons.prems(5) c1(2) by auto
  have "opt_merge (held_at ?cl q k) (held_at ?cl c k) = held_at ?cl c k \<and>
      opt_merge (held_at cl c k) (held_at ?cl q k) = held_at ?cl q k" if "q \<in> set (p # ps)" for q k
  proof (cases "q = p")
    case True
    then show ?thesis using top up pp by simp
  next
    case False
    then have q: "q \<in> set ps" using that by simp
    show ?thesis
      using ps(1) [OF q, of k] opt.below_trans [OF _ _ _ up ps(2) [OF q], of "pol k" k] wf [of c k] wf(3) [of q k] q by simp
  qed
  moreover have "held_at ?cl j k = held_at cl j k" if "j \<notin> set (c # p # ps)" for j k using that others [of j k] x(3) [of j k] by simp
  moreover have "held_at ?cl c k = foldl opt_merge (held_at cl c k) (map (\<lambda>q. held_at cl q k) (p # ps))" for k
    unfolding c rest by (simp add: c1(1))
  ultimately show ?case
    using moves_trans [OF Cons.prems(1) x(1) m1] h unfolding foldl_Cons e by blast
qed

lemma Scan_same: "typed pol r \<Longrightarrow> Scan (Replica_Snapshot r) (Replica_Snapshot r) = \<lparr>Push = fmempty, Pull = fmempty\<rparr>"
proof -
  assume t: "typed pol r"
  have "Value_Equal (Resolve v v) v" if "fmlookup (Replica_Snapshot r) k = Some v" for k v
  proof -
    have "wf_pol (pol k) v" using t that unfolding Snapshot_held [OF t] by (simp add: typed_def)
    then show ?thesis using resolve.idem [of "pol k" v] wf_pol_Equal [of "pol k" v "pol k" v] by simp
  qed
  then have "Push (Scan (Replica_Snapshot r) (Replica_Snapshot r)) = fmempty"
    "Pull (Scan (Replica_Snapshot r) (Replica_Snapshot r)) = fmempty"
    by (auto intro!: fmap_ext simp: Scan_lookup push_of_def pull_of_def split: option.splits)
  then show ?thesis by simp
qed

text \<open>When all members hold the same, a round sends nothing.\<close>

lemma quiet_round:
  fixes b :: "nat \<times> nat"
  assumes "cluster_ok pol cl" "healthy cl" "node_of cl c \<noteq> None" "\<forall>p \<in> set ps. node_of cl p \<noteq> None" "distinct (c # ps)"
    and "\<And>p k. p \<in> set ps \<Longrightarrow> held_at cl p k = held_at cl c k"
  shows "fst (foldl (exchange c) (b, cl) ps) = b"
  using assms
proof (induction ps arbitrary: cl)
  case (Cons p ps)
  have p: "node_of cl p \<noteq> None" "p \<noteq> c" using Cons.prems(4,5) by auto
  obtain b1 cl1 where e: "exchange c (b, cl) p = (b1, cl1)" by (metis surj_pair)
  note x = exchange_healthy [OF Cons.prems(1-3) p, of b, unfolded e fst_conv snd_conv]
  have t: "typed pol (nodeReplica (node_at cl j))" if "node_of cl j \<noteq> None" for j
    using that node_ok_of [OF Cons.prems(1), of j] by (auto simp: node_at_of node_ok_def sound_typed)
  have "Replica_Snapshot (nodeReplica (node_at cl p)) = Replica_Snapshot (nodeReplica (node_at cl c))"
    using Cons.prems(6) [of p] t [OF p(1)] t [OF Cons.prems(3)] by (intro fmap_ext) (simp add: Snapshot_held)
  then have b1: "b1 = b" using x(4) Scan_same [OF t [OF Cons.prems(3)]] by (simp add: sorted_list_of_fmap_def sorted_list_of_fset.rep_eq)
  have same: "held_at cl1 j k = held_at cl j k" for j k
    using x(3) [of j k] Cons.prems(6) [of p k] opt.idem [OF held_wf [OF Cons.prems(1,3)], of k] by auto
  have "node_of cl1 j \<noteq> None" if "node_of cl j \<noteq> None" for j
    using that node_of_some [OF x(1)] by (metis not_None_eq)
  then have "fst (foldl (exchange c) (b, cl1) ps) = b"
    using Cons.IH [OF movesD(1) [OF x(1)] x(2)] Cons.prems(3-6) by (simp add: same)
  then show ?case by (simp add: e b1)
qed simp

text \<open>A second sweep over members that the coordinator has already absorbed leaves the coordinator as it is and gives its value
  to every member.\<close>

lemma second_sweep:
  fixes h1 h2 :: "'i \<Rightarrow> Value option"
  assumes wf: "\<And>j. j \<in> set (c # ps) \<Longrightarrow> wf_opt p (h1 j)" "\<And>j. j \<in> set (c # ps) \<Longrightarrow> wf_opt p (h2 j)"
    and up1: "\<And>q. q \<in> set ps \<Longrightarrow> opt_merge (h1 q) (h1 c) = h1 c"
    and r: "h2 c = foldl opt_merge (h1 c) (map h1 ps)"
    and up2: "\<And>q. q \<in> set ps \<Longrightarrow> opt_merge (h2 q) (h2 c) = h2 c" "\<And>q. q \<in> set ps \<Longrightarrow> opt_merge (h1 c) (h2 q) = h2 q"
  shows "h2 c = h1 c" "q \<in> set ps \<Longrightarrow> h2 q = h2 c"
proof -
  have "opt_merge (h2 c) (h1 c) = h1 c"
    unfolding r using wf(1) up1 opt.idem [of p] by (intro opt.foldl_below [of p]) auto
  moreover have "opt_merge (h1 c) (h2 c) = h2 c"
    unfolding r using wf(1) by (intro opt.foldl_start [of p]) auto
  ultimately show c: "h2 c = h1 c" using opt.below_antisym [of p] wf by simp
  show "h2 q = h2 c" if "q \<in> set ps" for q
    using opt.below_antisym [of p "h2 q" "h2 c"] wf(2) [of q] wf(2) [of c] up2 [OF that] that by (simp add: c)
qed

lemma snapshot_held_at:
  assumes "cluster_ok pol cl" "node_of cl j \<noteq> None"
  shows "fmlookup (Replica_Snapshot (nodeReplica (node_at cl j))) = held_at cl j"
  using assms node_ok_of [OF assms(1), of j] Snapshot_held [OF sound_typed, of pol] by (auto simp: node_at_of node_ok_def)

text \<open>C3. Convergence. On a cluster whose faults have been reset and whose disks work, two anti-entropy rounds of any
  one node leave all members with the same snapshot, which holds for every key the merge of what the members
  held before; a further round exchanges nothing.\<close>

theorem anti_entropy_converges:
  assumes "cluster_ok pol cl" "healthy cl" "node_of cl c = Some n"
    and members: "map peerID (Others (nodeMembers n)) = ps" "distinct (c # ps)" "\<forall>p \<in> set ps. node_of cl p \<noteq> None"
  defines "cl2 \<equiv> snd (AntiEntropyRound c (snd (AntiEntropyRound c cl)))"
  shows "(\<forall>p \<in> set ps. Replica_Snapshot (nodeReplica (node_at cl2 p)) = Replica_Snapshot (nodeReplica (node_at cl2 c))) \<and>
    (\<forall>k. fmlookup (Replica_Snapshot (nodeReplica (node_at cl2 c))) k =
      foldl opt_merge None (map (\<lambda>p. fmlookup (Replica_Snapshot (nodeReplica (node_at cl p))) k) (c # ps))) \<and>
    fst (AntiEntropyRound c cl2) = (0, 0)"
proof -
  have R: "AntiEntropyRound c cl' = foldl (exchange c) ((0, 0), cl') ps"
    if "node_of cl' c = Some n'" "nodeMembers n' = nodeMembers n" for cl' n'
    using that members(1) by (simp add: AntiEntropyRound_def node_at_of)
  let ?cl1 = "snd (AntiEntropyRound c cl)"
  note r1 = round_healthy [OF assms(1,2) _ members(3,2), of "(0, 0)", folded R [OF assms(3) refl]]
  have m1: "moves pol cl ?cl1" and h1: "healthy ?cl1" using r1 assms(3) by auto
  obtain n1 where n1: "node_of ?cl1 c = Some n1" "nodeMembers n1 = nodeMembers n" using node_of_some [OF m1 assms(3)] by blast
  have s1: "\<forall>p \<in> set ps. node_of ?cl1 p \<noteq> None" using members(3) node_of_some [OF m1] by (metis not_None_eq)
  note r2 = round_healthy [OF movesD(1) [OF m1] h1 _ s1 members(2), of "(0, 0)", folded R [OF n1] cl2_def]
  have m2: "moves pol ?cl1 cl2" and h2: "healthy cl2" using r2 n1 by auto
  obtain n2 where n2: "node_of cl2 c = Some n2" "nodeMembers n2 = nodeMembers n" using node_of_some [OF m2 n1(1)] n1(2) by metis
  have s2: "\<forall>p \<in> set ps. node_of cl2 p \<noteq> None" using s1 node_of_some [OF m2] by (metis not_None_eq)
  have wf: "wf_opt (pol k) (held_at cl j k)" "wf_opt (pol k) (held_at ?cl1 j k)" "wf_opt (pol k) (held_at cl2 j k)"
    if "j \<in> set (c # ps)" for j k
    using that held_wf [OF assms(1), of j] held_wf [OF movesD(1) [OF m1], of j] held_wf [OF movesD(1) [OF m2], of j]
      assms(3) members(3) n1(1) n2(1) s1 s2 by auto
  have r2c: "held_at cl2 c k = foldl opt_merge (held_at ?cl1 c k) (map (\<lambda>p. held_at ?cl1 p k) ps)" for k using r2 n1(1) by blast
  have up1: "opt_merge (held_at ?cl1 p k) (held_at ?cl1 c k) = held_at ?cl1 c k" if "p \<in> set ps" for p k using that r1 assms(3) by blast
  have up2: "opt_merge (held_at cl2 p k) (held_at cl2 c k) = held_at cl2 c k"
    "opt_merge (held_at ?cl1 c k) (held_at cl2 p k) = held_at cl2 p k" if "p \<in> set ps" for p k using that r2 n1(1) by blast+
  have c2: "held_at cl2 c k = held_at ?cl1 c k" for k
    using second_sweep(1) [of c ps "pol k" "\<lambda>j. held_at ?cl1 j k" "\<lambda>j. held_at cl2 j k", OF wf(2) wf(3) up1 r2c up2] by simp
  have p2: "held_at cl2 p k = held_at cl2 c k" if "p \<in> set ps" for p k
    using second_sweep(2) [of c ps "pol k" "\<lambda>j. held_at ?cl1 j k" "\<lambda>j. held_at cl2 j k" p, OF wf(2) wf(3) up1 r2c up2 that] by simp
  note snap = snapshot_held_at
  have same: "Replica_Snapshot (nodeReplica (node_at cl2 p)) = Replica_Snapshot (nodeReplica (node_at cl2 c))" if "p \<in> set ps" for p
    using that s2 n2(1) snap [OF movesD(1) [OF m2]] p2 by (intro fmap_ext) auto
  have "held_at cl2 c k = foldl opt_merge None (map (\<lambda>p. held_at cl p k) (c # ps))" for k
    using c2 r1 assms(3) by simp
  moreover have "fmlookup (Replica_Snapshot (nodeReplica (node_at cl p))) = held_at cl p" if "p \<in> set (c # ps)" for p
    using that snap [OF assms(1)] assms(3) members(3) by auto
  ultimately have all: "fmlookup (Replica_Snapshot (nodeReplica (node_at cl2 c))) k =
      foldl opt_merge None (map (\<lambda>p. fmlookup (Replica_Snapshot (nodeReplica (node_at cl p))) k) (c # ps))" for k
    using snap [OF movesD(1) [OF m2]] n2(1) by (simp cong: map_cong)
  show ?thesis using same all quiet_round [OF movesD(1) [OF m2] h2 _ s2 members(2) p2] R [OF n2] n2(1) by simp
qed

lemma Register_frame:
  "foldl (\<lambda>f i. Register f i i) f ids =
    f\<lparr>n_handlers := n_handlers (foldl (\<lambda>f i. Register f i i) f ids)\<rparr>"
proof (induction ids arbitrary: f)
  case (Cons i ids)
  show ?case using Cons.IH [of "Register f i i"] by (simp add: Register_def)
qed simp

lemma fresh_healthy: "healthy (fresh_cluster m)"
proof -
  have "calm \<lparr>faults = foldl (\<lambda>f i. Register f i i) (faults (NewFaultNet s 1)) (IDs m), n_hook = None\<rparr>" for s
    by (subst Register_frame) (simp add: calm_def NewFaultNet_def)
  then have "calm (cl_net (fresh_cluster m))" by (simp add: fresh_cluster_def NewFaultNet_def)
  moreover have "fmlookup (n_handlers (faults (cl_net (fresh_cluster m)))) i = Some i" if "i \<in> set (IDs m)" for i
    using that by (simp add: fresh_cluster_def handlers_register)
  ultimately show ?thesis
    by (auto simp: healthy_def fresh_node_of fresh_node_def New_def Let_def split: if_splits) (simp add: fresh_cluster_def)
qed

theorem anti_entropy_converges_witness:
  "Replica_Snapshot (nodeReplica (node_at (snd (AntiEntropyRound ''A'' (snd (AntiEntropyRound ''A''
     (snd (local_apply ''B'' ''k'' (lww_write ''B'' 1 ''x'') (fresh_cluster three))))))) ''C'')) =
   Replica_Snapshot (nodeReplica (node_at (snd (AntiEntropyRound ''A'' (snd (AntiEntropyRound ''A''
     (snd (local_apply ''B'' ''k'' (lww_write ''B'' 1 ''x'') (fresh_cluster three))))))) ''A''))"
proof -
  let ?cl = "snd (local_apply ''B'' ''k'' (lww_write ''B'' 1 ''x'') (fresh_cluster three))"
  have n: "node_of (fresh_cluster three) i = Some (fresh_node three i)" if "i \<in> {''A'', ''B'', ''C''}" for i
    using that by (auto simp: fresh_node_of three_ok(3))
  have wf: "wf_pol ((\<lambda>_. 0) ''k'') (lww_write ''B'' 1 ''x'')" by (simp add: wf_lww_write)
  have d: "delivers (fresh_cluster three) ''B'' [(''k'', lww_write ''B'' 1 ''x'')] ?cl"
    by (rule local_apply_delivers(1) [OF fresh_healthy n]) simp
  have ok: "cluster_ok (\<lambda>_. 0) ?cl" "healthy ?cl"
    using movesD(1) [OF local_apply_moves(1) [OF three_ok(1) n wf]] d by (simp_all add: delivers_def)
  have no: "node_of ?cl ''A'' = Some (fresh_node three ''A'')" "node_of ?cl ''B'' \<noteq> None" "node_of ?cl ''C'' \<noteq> None"
    using deliversD(2) [OF d n] n by simp_all
  have m: "map peerID (Others (nodeMembers (fresh_node three ''A''))) = [''B'', ''C'']" by code_simp
  from anti_entropy_converges [OF ok no(1) m] show ?thesis using no(2,3) by simp
qed

end
