(* ===== verification/Handoff_Delivery.thy ===== *)
theory Handoff_Delivery
  imports Convergence
begin

text \<open>
  Hinted handoff end to end: which hints a write leaves behind, that replaying them on a healthy cluster delivers all
  of them in order, and what happens to hints stored while the replay runs.
\<close>

section \<open>Hinted handoff\<close>

abbreviation hint_writes :: "Hint list \<Rightarrow> (string \<times> Value) list" where
  "hint_writes hs \<equiv> map (\<lambda>h. (hintKey h, hintValue h)) hs"

lemma deliver_hints_healthy:
  "healthy cl \<Longrightarrow> node_of cl t \<noteq> None \<Longrightarrow>
    fst (deliver_hints c t hs d cl) = (True, d + length hs) \<and> delivers cl t (hint_writes hs) (snd (deliver_hints c t hs d cl))"
proof (induction hs arbitrary: d cl)
  case Nil
  then show ?case using delivers_Nil by auto
next
  case (Cons h hs)
  obtain m where m: "node_of cl t = Some m" using Cons.prems(2) by blast
  obtain cl1 where r: "Net_ReplicateWrite (node_at cl c) t (hintKey h) (hintValue h) cl = (Inr (), cl1)"
    and d1: "delivers cl t [(hintKey h, hintValue h)] cl1"
    using ReplicateWrite_delivers [OF Cons.prems(1) m] by (metis prod.collapse)
  have "healthy cl1" "node_of cl1 t \<noteq> None" using d1 delivers_some [OF d1 Cons.prems(2)] by (auto simp: delivers_def)
  from Cons.IH [OF this, of "d + 1"] show ?case using r delivers_append [OF d1] by (simp add: ReplayHint_ReplicateWrite)
qed

lemma healthy_upd: "healthy cl \<Longrightarrow> node_of cl c = Some n \<Longrightarrow> healthy (upd_node c (n\<lparr>nodeHints := h\<rparr>) cl)"
  unfolding healthy_def node_of_simps by (auto simp: upd_node_def split: if_splits)

lemma replay_target_healthy:
  fixes d :: nat and meanwhile :: "string \<Rightarrow> (string \<times> Value) list"
  assumes "healthy cl" "node_of cl c \<noteq> None" "node_of cl t \<noteq> None"
  defines "h \<equiv> nodeHints (node_at cl c)" and "cl' \<equiv> snd (replay_target c meanwhile (d, cl) t)"
  shows "fst (replay_target c meanwhile (d, cl) t) = d + length (Peek h t)" "healthy cl'"
    "node_of cl j \<noteq> None \<Longrightarrow> node_of cl' j \<noteq> None"
    "nodeReplica (node_at cl' j) = (if j = t then applies (nodeReplica (node_at cl t)) (hint_writes (Peek h t)) else nodeReplica (node_at cl j))"
    "Peek (nodeHints (node_at cl' c)) j =
      (if j \<noteq> t then Peek h j else if Peek h t = [] then Peek (hints.store_all h t (meanwhile t)) t else [])"
proof -
  obtain n m where n: "node_of cl c = Some n" and m: "node_of cl t = Some m" using assms(2,3) by blast
  let ?cl = "snd (deliver_hints c t (Peek h t) d cl)"
  have f: "fst (deliver_hints c t (Peek h t) d cl) = (True, d + length (Peek h t))"
    and dl: "delivers cl t (hint_writes (Peek h t)) ?cl"
    using deliver_hints_healthy [OF assms(1,3)] by blast+
  have no: "node_of ?cl = (node_of cl)(t \<mapsto> with_replica m (applies (nodeReplica m) (hint_writes (Peek h t))))" "healthy ?cl"
    using deliversD [OF dl m] by auto
  obtain n' where n': "node_of ?cl c = Some n'" "nodeHints n' = h" "nodeReplica n' =
      (if c = t then applies (nodeReplica m) (hint_writes (Peek h t)) else nodeReplica n)"
    using n m no(1) node_at_of [OF n] h_def by (cases "c = t") simp_all
  let ?h = "hints.store_all h t (meanwhile t)"
  have E: "replay_target c meanwhile (d, cl) t = (d + length (Peek h t),
      upd_node c (n'\<lparr>nodeHints := if Peek h t = [] then ?h else snd (Hints_Take ?h t)\<rparr>) ?cl)"
    using f node_at_of [OF n'(1)] n'(2)
    by (cases "Peek h t = []") (auto simp: replay_target_def h_def [symmetric] case_prod_unfold Let_def hints.store_all_def)
  show "fst (replay_target c meanwhile (d, cl) t) = d + length (Peek h t)" by (simp add: E)
  show "healthy cl'" unfolding cl'_def E snd_conv by (rule healthy_upd [OF no(2) n'(1)])
  show "node_of cl' j \<noteq> None" if "node_of cl j \<noteq> None" using that no(1) by (simp add: cl'_def E)
  show "nodeReplica (node_at cl' j) = (if j = t then applies (nodeReplica (node_at cl t)) (hint_writes (Peek h t)) else nodeReplica (node_at cl j))"
    using n m n'(3) no(1) by (simp add: cl'_def E node_at_the)
  show "Peek (nodeHints (node_at cl' c)) j =
      (if j \<noteq> t then Peek h j else if Peek h t = [] then Peek (hints.store_all h t (meanwhile t)) t else [])"
    by (simp add: cl'_def E node_at_the hints.peek_take hints.peek_store_all)
qed

lemma replay_targets_healthy:
  fixes d :: nat and meanwhile :: "string \<Rightarrow> (string \<times> Value) list"
  assumes "healthy cl" "node_of cl c \<noteq> None" "\<forall>t \<in> set ts. node_of cl t \<noteq> None" "distinct ts"
  defines "h \<equiv> nodeHints (node_at cl c)" and "cl' \<equiv> snd (foldl (replay_target c meanwhile) (d, cl) ts)"
  shows "fst (foldl (replay_target c meanwhile) (d, cl) ts) = d + (\<Sum>t \<leftarrow> ts. length (Peek h t)) \<and>
    (\<forall>j. nodeReplica (node_at cl' j) =
      (if j \<in> set ts then applies (nodeReplica (node_at cl j)) (hint_writes (Peek h j)) else nodeReplica (node_at cl j)) \<and>
    Peek (nodeHints (node_at cl' c)) j =
      (if j \<notin> set ts then Peek h j else if Peek h j = [] then Peek (hints.store_all h j (meanwhile j)) j else []))"
  using assms(1-4) unfolding cl'_def h_def
proof (induction ts arbitrary: d cl)
  case (Cons t ts)
  obtain cl1 where e: "replay_target c meanwhile (d, cl) t = (d + length (Peek (nodeHints (node_at cl c)) t), cl1)"
    using replay_target_healthy(1) [OF Cons.prems(1,2), where t = t and meanwhile = meanwhile and d = d] Cons.prems(3) by (metis list.set_intros(1) prod.collapse)
  have t: "node_of cl t \<noteq> None" using Cons.prems(3) by simp
  note x = replay_target_healthy [OF Cons.prems(1,2) t, where meanwhile = meanwhile and d = d, unfolded e snd_conv]
  have "\<forall>t \<in> set ts. node_of cl1 t \<noteq> None" "distinct ts" using x(3) Cons.prems(3,4) by auto
  note IH = Cons.IH [OF x(2) x(3) [OF Cons.prems(2)] this, of "d + length (Peek (nodeHints (node_at cl c)) t)"]
  have p: "Peek (nodeHints (node_at cl1 c)) j = Peek (nodeHints (node_at cl c)) j" if "j \<in> set ts" for j
    using that Cons.prems(4) by (auto simp: x(5))
  then have s: "(\<Sum>t \<leftarrow> ts. length (Peek (nodeHints (node_at cl1 c)) t)) = (\<Sum>t \<leftarrow> ts. length (Peek (nodeHints (node_at cl c)) t))"
    by (metis (no_types, lifting) map_eq_conv)
  show ?case
    using IH Cons.prems(4) s p by (simp add: e x(4)) (simp add: x(5) hints.peek_store_all)
qed simp

lemma Targets_distinct: "distinct (Targets h)"
  by (simp add: Targets_def)

lemma Peek_no_target: "t \<notin> set (Targets h) \<Longrightarrow> Peek h t = []"
  by (simp add: Targets_set Peek_def fmdom_notD)

lemma ReplayHints_healthy:
  fixes meanwhile :: "string \<Rightarrow> (string \<times> Value) list"
  assumes "healthy cl" "node_of cl c = Some n" "\<forall>t \<in> set (Targets (nodeHints n)). node_of cl t \<noteq> None"
  defines "cl' \<equiv> snd (ReplayHints c meanwhile cl)"
  shows "fst (ReplayHints c meanwhile cl) = Count (nodeHints n)"
    "nodeReplica (node_at cl' j) = applies (nodeReplica (node_at cl j)) (hint_writes (Peek (nodeHints n) j))"
    "Peek (nodeHints n) j \<noteq> [] \<Longrightarrow> Peek (nodeHints (node_at cl' c)) j = []"
    "(\<And>t. meanwhile t = []) \<Longrightarrow> Peek (nodeHints (node_at cl' c)) j = []"
proof -
  have c: "node_of cl c \<noteq> None" using assms(2) by simp
  note r = replay_targets_healthy [OF assms(1) c assms(3) Targets_distinct, where d = 0 and meanwhile = meanwhile, unfolded node_at_of [OF assms(2)]]
  have R: "ReplayHints c meanwhile cl = foldl (replay_target c meanwhile) (0, cl) (Targets (nodeHints n))"
    by (simp add: ReplayHints_def node_at_of [OF assms(2)])
  have "Count (nodeHints n) = (\<Sum>t \<leftarrow> Targets (nodeHints n). length (Peek (nodeHints n) t))"
    by (simp add: Count_sum sum_list_distinct_conv_sum_set [OF Targets_distinct] Targets_set)
  then show "fst (ReplayHints c meanwhile cl) = Count (nodeHints n)" using r by (simp add: R)
  show "nodeReplica (node_at cl' j) = applies (nodeReplica (node_at cl j)) (hint_writes (Peek (nodeHints n) j))"
    using r Peek_no_target [of j "nodeHints n"] by (simp add: cl'_def R)
  show "Peek (nodeHints (node_at cl' c)) j = []" if "Peek (nodeHints n) j \<noteq> []"
    using r Peek_no_target [of j "nodeHints n"] that by (auto simp: cl'_def R)
  show "Peek (nodeHints (node_at cl' c)) j = []" if "\<And>t. meanwhile t = []"
    using r Peek_no_target [of j "nodeHints n"] that by (simp add: cl'_def R hints.peek_store_all)
qed

text \<open>C9. Hints arrive. On a cluster whose faults have been reset and whose disks work, replaying the hints of a node
  delivers every stored hint: the number reported is the number stored, each target has applied exactly the
  values kept for it, in the order they were stored, and no hint is left.\<close>

theorem handoff_delivers:
  assumes "healthy cl" "node_of cl c = Some n" "\<forall>t \<in> set (Targets (nodeHints n)). node_of cl t \<noteq> None"
  shows "fst (ReplayHints c (\<lambda>_. []) cl) = Count (nodeHints n) \<and>
    Count (nodeHints (node_at (snd (ReplayHints c (\<lambda>_. []) cl)) c)) = 0 \<and>
    (\<forall>t. nodeReplica (node_at (snd (ReplayHints c (\<lambda>_. []) cl)) t) =
      applies (nodeReplica (node_at cl t)) (map (\<lambda>h. (hintKey h, hintValue h)) (Peek (nodeHints n) t)))"
  using ReplayHints_healthy [OF assms, where meanwhile = "\<lambda>_. []"] by (simp add: Count_sum)

text \<open>C37. The race in handoff. The hints of a target are read, delivered and then dropped in separate critical
  sections; a write that fails in between stores a new hint for the target. That hint is dropped with the
  others: whatever was stored meanwhile, the target ends with the old hints only and its list is empty.\<close>

theorem handoff_drops_concurrent_hint:
  assumes "healthy cl" "node_of cl c = Some n" "\<forall>t \<in> set (Targets (nodeHints n)). node_of cl t \<noteq> None"
    and "Peek (nodeHints n) t \<noteq> []"
  shows "Peek (nodeHints (node_at (snd (ReplayHints c meanwhile cl)) c)) t = [] \<and>
    nodeReplica (node_at (snd (ReplayHints c meanwhile cl)) t) =
      applies (nodeReplica (node_at cl t)) (map (\<lambda>h. (hintKey h, hintValue h)) (Peek (nodeHints n) t))"
  using ReplayHints_healthy [OF assms(1-3), where meanwhile = meanwhile] assms(4) by simp

definition hinted :: Cluster where
  "hinted = upd_node ''A'' ((fresh_node three ''A'')\<lparr>nodeHints := Hints_Store NewHints ''B'' ''k'' (lww_write ''A'' 1 ''x'')\<rparr>)
     (fresh_cluster three)"

lemma hinted_facts:
  "healthy hinted"
  "node_of hinted ''A'' = Some ((fresh_node three ''A'')\<lparr>nodeHints := Hints_Store NewHints ''B'' ''k'' (lww_write ''A'' 1 ''x'')\<rparr>)"
  "node_of hinted ''B'' \<noteq> None" "set (Targets (Hints_Store NewHints ''B'' ''k'' (lww_write ''A'' 1 ''x''))) = {''B''}"
proof -
  show "healthy hinted" unfolding hinted_def by (rule healthy_upd [OF fresh_healthy]) (simp add: fresh_node_of three_ok(3))
  show "set (Targets (Hints_Store NewHints ''B'' ''k'' (lww_write ''A'' 1 ''x''))) = {''B''}"
    by (simp add: Targets_set Hints_Store_def NewHints_def)
qed (simp_all add: hinted_def fresh_node_of three_ok(3))

theorem handoff_delivers_witness:
  "fst (ReplayHints ''A'' (\<lambda>_. []) hinted) = 1 \<and>
   Replica_Get (nodeReplica (node_at (snd (ReplayHints ''A'' (\<lambda>_. []) hinted)) ''B'')) ''k'' = (lww_write ''A'' 1 ''x'', True)"
proof -
  have "Count (Hints_Store NewHints ''B'' ''k'' (lww_write ''A'' 1 ''x'')) = 1" by code_simp
  moreover have "Replica_Get (applies (nodeReplica (node_at hinted ''B'')) [(''k'', lww_write ''A'' 1 ''x'')]) ''k'' =
    (lww_write ''A'' 1 ''x'', True)" by code_simp
  moreover have "map (\<lambda>h. (hintKey h, hintValue h)) (Peek (Hints_Store NewHints ''B'' ''k'' (lww_write ''A'' 1 ''x'')) ''B'') =
    [(''k'', lww_write ''A'' 1 ''x'')]" by code_simp
  ultimately show ?thesis using handoff_delivers [OF hinted_facts(1,2)] hinted_facts(3,4) by simp
qed

theorem handoff_drops_concurrent_hint_witness:
  "Peek (nodeHints (node_at (snd (ReplayHints ''A'' (\<lambda>_. [(''j'', lww_write ''A'' 2 ''y'')]) hinted)) ''A'')) ''B'' = []"
  using handoff_drops_concurrent_hint [OF hinted_facts(1,2), of "''B''"] hinted_facts(3,4) by (simp add: hints.peek_store)

section \<open>The hints of a write\<close>

lemma local_apply_hints:
  assumes "node_of cl i = Some m" "node_of cl c = Some n"
  shows "\<exists>n'. node_of (snd (local_apply i k v cl)) c = Some n' \<and> nodeHints n' = nodeHints n \<and> nodeID n' = nodeID n"
  using assms node_at_of [of "cl\<lparr>cl_io := \<lambda>i. cl_io cl (Suc i)\<rparr>" i m]
  by (auto simp: local_apply_def next_io_def Let_def case_prod_unfold)

lemma ReplicateWrite_hints:
  assumes "cluster_ok pol cl" "node_of cl c = Some n"
  shows "\<exists>n'. node_of (snd (Net_ReplicateWrite s to k v cl)) c = Some n' \<and> nodeHints n' = nodeHints n \<and> nodeID n' = nodeID n"
proof -
  let ?m = "\<lambda>h. ApplyReplicate h (nodeNet s) k v"
  have eq: "Net_ReplicateWrite s to k v cl = rpc (\<lambda>expired. call expired (nodeNet s) to ?m) cl"
    by (simp add: Net_ReplicateWrite_def Endpoint_ReplicateWrite_def)
  have net: "net_ok (cl_net cl) (cl_nodes cl)" using assms(1) by (simp add: cluster_ok_def)
  show ?thesis
  proof (cases rule: rpc_cases [OF net, of "nodeNet s" to ?m])
    case (1 net ex e)
    then show ?thesis using assms(2) by (simp add: eq)
  next
    case (2 net ex r cl1)
    obtain m where "node_of (cl\<lparr>cl_expired := ex\<rparr>) to = Some m" using 2(2) by auto
    moreover have "node_of (cl\<lparr>cl_expired := ex\<rparr>) c = Some n" using assms(2) by simp
    ultimately have "\<exists>n'. node_of (snd (local_apply to k v (cl\<lparr>cl_expired := ex\<rparr>))) c = Some n' \<and> nodeHints n' = nodeHints n \<and> nodeID n' = nodeID n"
      by (rule local_apply_hints)
    moreover have "cl1 = snd (local_apply to k v (cl\<lparr>cl_expired := ex\<rparr>))"
      using 2(3) by (simp add: ApplyReplicate_def case_prod_unfold Let_def)
    ultimately show ?thesis using 2(4) by (simp add: eq)
  qed
qed

lemma write_task_hints:
  assumes "cluster_ok pol cl" "node_of cl c = Some n" "wf_pol (pol k) v"
  shows "\<exists>n'. node_of (snd (write_task c k v p cl)) c = Some n' \<and> (\<forall>t. Peek (nodeHints n') t =
    Peek (nodeHints n) t @ (if t = p \<and> p \<noteq> c \<and> fst (write_task c k v p cl) \<noteq> None
      then [\<lparr>hintTarget = t, hintKey = k, hintValue = Clone v\<rparr>] else []))"
proof (cases "p = c")
  case True
  have "nodeID n = c" using node_ok_of [OF assms(1,2)] by (simp add: node_ok_def)
  then show ?thesis
    using local_apply_hints [OF assms(2,2), of k v] True
    by (auto simp: write_task_def node_at_of [OF assms(2)] Let_def case_prod_unfold)
next
  case False
  have "nodeID n = c" using node_ok_of [OF assms(1,2)] by (simp add: node_ok_def)
  obtain r cl1 where r: "Net_ReplicateWrite n p k v cl = (r, cl1)" by force
  obtain n1 where n1: "node_of cl1 c = Some n1" "nodeHints n1 = nodeHints n"
    using ReplicateWrite_hints [OF assms(1,2), of n p k v] r by auto
  show ?thesis
    using False \<open>nodeID n = c\<close> r n1 node_at_of [OF n1(1)]
    by (cases r) (auto simp: write_task_def node_at_of [OF assms(2)] hints.peek_store)
qed

lemma write_tasks_hints:
  assumes "cluster_ok pol cl" "node_of cl c = Some n" "wf_pol (pol k) v" "distinct ps"
  shows "Peek (nodeHints (node_at (snd (run_tasks (write_task c k v) ps cl)) c)) t =
    Peek (nodeHints n) t @ (if t \<noteq> c \<and> (\<exists>e. (t, Some e) \<in> set (zip ps (fst (run_tasks (write_task c k v) ps cl))))
      then [\<lparr>hintTarget = t, hintKey = k, hintValue = Clone v\<rparr>] else [])"
  using assms(1,2,4)
proof (induction ps arbitrary: cl n)
  case Nil
  then show ?case by (simp add: node_at_of)
next
  case (Cons p ps)
  obtain e cl1 where w: "write_task c k v p cl = (e, cl1)" by force
  have m: "moves pol cl cl1" using write_task_moves(1) [OF Cons.prems(1,2) assms(3), of p] w by simp
  obtain n1 where n1: "node_of cl1 c = Some n1" "\<And>t. Peek (nodeHints n1) t =
    Peek (nodeHints n) t @ (if t = p \<and> p \<noteq> c \<and> e \<noteq> None then [\<lparr>hintTarget = t, hintKey = k, hintValue = Clone v\<rparr>] else [])"
    using write_task_hints [OF Cons.prems(1,2) assms(3), of p] w by auto
  have "(p, x) \<notin> set (zip ps (fst (run_tasks (write_task c k v) ps cl1)))" for x
    using Cons.prems(3) by (auto dest: set_zip_leftD)
  then show ?case
    using Cons.IH [OF movesD(1) [OF m] n1(1)] Cons.prems(3) n1(2) [of t]
    by (cases "t = p") (auto simp: w Let_def case_prod_unfold)
qed

lemma write_begin_hints:
  assumes "node_of cl c = Some n" "write_begin c req cl = ((ver, v), cl0)"
  shows "nodeHints (node_at cl0 c) = nodeHints n"
  using assms localPrepare_frame(5) by (auto simp: write_begin_def Let_def case_prod_unfold node_at_the)

text \<open>C10. The coordinator keeps a hint, at the end of its list for that member, for exactly the other members whose
  replication did not succeed, whether or not the write reached its quorum and whether or not it timed out;
  no other hint is added and none is lost.\<close>

theorem write_leaves_hints:
  assumes "cluster_ok pol cl" "node_of cl c = Some n" "req_ok pol req" "clock_t (repClock (nodeReplica n)) + 1 \<noteq> 0"
    and "1 \<le> wqW req" "wqW req \<le> N (nodeMembers n)" "distinct sched" "write_begin c req cl = ((ver, v), cl0)"
    and "fst (run_tasks (write_task c (wqKey req) v) sched cl0) = errs"
  shows "Peek (nodeHints (node_at (snd (Write c req sched timeout cl)) c)) t =
    Peek (nodeHints n) t @ (if t \<noteq> c \<and> (\<exists>e. (t, Some e) \<in> set (zip sched errs))
      then [\<lparr>hintTarget = t, hintKey = wqKey req, hintValue = Clone v\<rparr>] else [])"
proof -
  note b = write_begin_facts [OF assms(1-4)]
  have m0: "moves pol cl cl0" and wf: "wf_pol (pol (wqKey req)) v" using b(1,3) assms(8) by simp_all
  obtain n0 where n0: "node_of cl0 c = Some n0" using node_of_some [OF m0 assms(2)] by blast
  have "nodeHints n0 = nodeHints n" using write_begin_hints [OF assms(2,8)] node_at_of [OF n0] by simp
  moreover have "snd (Write c req sched timeout cl) = snd (run_tasks (write_task c (wqKey req) v) sched cl0)"
    using assms(5,6) by (simp add: Write_def validateQuorum_def Node_N_def node_at_of [OF assms(2)] assms(8) case_prod_unfold Let_def)
  ultimately show ?thesis using write_tasks_hints [OF movesD(1) [OF m0] n0 wf assms(7), of t] assms(9) by simp
qed

definition cut_off :: Cluster where
  "cut_off = (fresh_cluster three)\<lparr>cl_net := (cl_net (fresh_cluster three))\<lparr>faults := Isolate (faults (cl_net (fresh_cluster three))) ''C''\<rparr>\<rparr>"

lemma cut_off_facts:
  "cluster_ok pol cut_off" "node_of cut_off ''A'' = Some (fresh_node three ''A'')"
proof -
  have "net_ok (cl_net (fresh_cluster three)) (cl_nodes (fresh_cluster three))" using three_ok(1) by (simp add: cluster_ok_def)
  then show "cluster_ok pol cut_off"
    unfolding cut_off_def by (intro movesD(1) [OF moves_net [OF three_ok(1)]]) (simp add: net_ok_def handlers_ok_def Isolate_def)
qed (simp add: cut_off_def fresh_node_of three_ok(3))

theorem write_leaves_hints_witness:
  "Peek (nodeHints (node_at (snd (Write ''A'' put_k [''A'', ''B'', ''C''] None cut_off)) ''A'')) ''C'' =
   [\<lparr>hintTarget = ''C'', hintKey = ''k'', hintValue = lww_write ''A'' 1 ''v''\<rparr>]"
proof -
  let ?b = "write_begin ''A'' put_k cut_off"
  have v: "snd (fst ?b) = lww_write ''A'' 1 ''v''" "Clone (lww_write ''A'' 1 ''v'') = lww_write ''A'' 1 ''v''" by code_simp+
  have key: "wqKey put_k = ''k''" by (simp add: put_k_def)
  have b: "?b = ((fst (fst ?b), snd (fst ?b)), snd ?b)" by simp
  have e: "fst (run_tasks (write_task ''A'' (wqKey put_k) (snd (fst ?b))) [''A'', ''B'', ''C''] (snd ?b)) = [None, None, Some ErrUnreachable]"
    by code_simp
  have "1 \<le> wqW put_k" "wqW put_k \<le> N (nodeMembers (fresh_node three ''A''))" "distinct [''A'', ''B'', ''C'']" by code_simp+
  from write_leaves_hints [OF cut_off_facts put_k_ok put_start(2) this b e, of None "''C''"] show ?thesis
    by (simp add: v key) (simp add: fresh_node_def New_def Let_def NewHints_def Peek_def)
qed

end
