(* ===== verification/HTTP.thy ===== *)
theory HTTP
  imports Store_WAL
begin

text \<open>
  What the program uses of Go's \<^verbatim>\<open>net/http\<close>: requests and responses as records, a JSON body written by
  \<^verbatim>\<open>writeJSON\<close> and read by \<^verbatim>\<open>readJSON\<close> (\<^verbatim>\<open>internal/node/server.go\<close>), and the bodies that
  travel between nodes and clients with their struct tags. A request carries the query as the decoded list of its
  parameters; decoding a URL is \<^verbatim>\<open>net/url\<close>'s business. \<^verbatim>\<open>json.NewDecoder(r).Decode\<close> reads one value
  from the front of the body and does not look at what follows it.
\<close>

section \<open>Messages\<close>

record Request =
  reqMethod :: string
  reqPath :: string
  reqQuery :: "(string \<times> string) list"
  reqBody :: string

record Response =
  respStatus :: nat
  respType :: string
  respBody :: string

text \<open>\<^verbatim>\<open>r.URL.Query().Get(k)\<close>: the first value of the parameter, or the empty string.\<close>

definition query_get :: "Request \<Rightarrow> string \<Rightarrow> string" where
  "query_get r k = (case map_of (reqQuery r) k of None \<Rightarrow> '''' | Some v \<Rightarrow> v)"

definition writeJSON :: "nat \<Rightarrow> json \<Rightarrow> Response" where
  "writeJSON status v = \<lparr>respStatus = status, respType = ''application/json'', respBody = json_print v @ [nl]\<rparr>"

section \<open>Reading a body\<close>

datatype decode_error = EOF | SyntaxError | TypeError

definition Decode :: "(json \<Rightarrow> 'a \<Rightarrow> 'a stored) \<Rightarrow> string \<Rightarrow> 'a \<Rightarrow> 'a \<times> decode_error option" where
  "Decode into body dst =
     (if skip_ws body = [] then (dst, Some EOF)
      else
        (case parse_value (Suc (length body)) body of
           None \<Rightarrow> (dst, Some SyntaxError)
         | Some (j, _) \<Rightarrow>
             (if \<not> nests max_nesting j then (dst, Some SyntaxError)
              else (let (v, e) = into j dst in (v, if e then Some TypeError else None)))))"

definition readJSON :: "(json \<Rightarrow> 'a \<Rightarrow> 'a stored) \<Rightarrow> Request \<Rightarrow> 'a \<Rightarrow> 'a \<times> decode_error option" where
  "readJSON into r dst = Decode into (reqBody r) dst"

text \<open>A struct takes the members it has a field for; other documents than an object or null do not fit.\<close>

definition into_struct :: "('a stored \<Rightarrow> string \<times> json \<Rightarrow> 'a stored) \<Rightarrow> json \<Rightarrow> 'a \<Rightarrow> 'a stored" where
  "into_struct member j old =
     (case j of JObj ms \<Rightarrow> foldl member (old, False) ms | JNull \<Rightarrow> (old, False) | _ \<Rightarrow> (old, True))"

definition field :: "'b stored \<Rightarrow> ('b \<Rightarrow> 'a) \<Rightarrow> bool \<Rightarrow> 'a stored" where
  "field s upd e = (upd (fst s), e \<or> snd s)"

text \<open>A \<^verbatim>\<open>[]string\<close>: elements of another type stay what they were, null makes the slice nil.\<close>

fun into_elems :: "json list \<Rightarrow> string list \<Rightarrow> string list stored" where
  "into_elems [] old = ([], False)"
| "into_elems (j # js) old =
     (let (s, e) = into_string j (case old of [] \<Rightarrow> '''' | x # _ \<Rightarrow> x); (ss, e') = into_elems js (tl old)
      in (s # ss, e \<or> e'))"

definition into_strings :: "json \<Rightarrow> string list option \<Rightarrow> string list option stored" where
  "into_strings j old =
     (case j of
        JArr js \<Rightarrow> (let (ss, e) = into_elems js (case old of None \<Rightarrow> [] | Some xs \<Rightarrow> xs) in (Some ss, e))
      | JNull \<Rightarrow> (None, False)
      | _ \<Rightarrow> (old, True))"

text \<open>A \<^verbatim>\<open>map[string]types.Value\<close>: each member sets its key, to what of its document fits a fresh value.\<close>

definition value_entry :: "(string, Value) fmap stored \<Rightarrow> string \<times> json \<Rightarrow> (string, Value) fmap stored" where
  "value_entry st m = (let (t, e) = st; (k, j) = m; (v, e') = into_Value j zero_Value in (fmupd k v t, e \<or> e'))"

definition into_values :: "json \<Rightarrow> (string, Value) fmap option \<Rightarrow> (string, Value) fmap option stored" where
  "into_values j old =
     (case j of
        JObj ms \<Rightarrow>
          (let (t, e) = foldl value_entry (case old of None \<Rightarrow> fmempty | Some t \<Rightarrow> t, False) ms in (Some t, e))
      | JNull \<Rightarrow> (None, False)
      | _ \<Rightarrow> (old, True))"

definition json_of_values :: "(string, Value) fmap \<Rightarrow> json" where
  "json_of_values t = JObj (map (\<lambda>(k, v). (k, json_of_Value v)) (sorted_list_of_fmap t))"

section \<open>The bodies that travel\<close>

record replicateBody =
  rbKey :: string
  rbValue :: Value
  rbFrom :: string

definition json_of_replicateBody :: "replicateBody \<Rightarrow> json" where
  "json_of_replicateBody b =
     JObj [(''key'', JStr (rbKey b)), (''value'', json_of_Value (rbValue b)), (''from'', JStr (rbFrom b))]"

definition replicateBody_member :: "replicateBody stored \<Rightarrow> string \<times> json \<Rightarrow> replicateBody stored" where
  "replicateBody_member st m =
     (let (b, e) = st; (k, j) = m in
      if names ''key'' k then field (into_string j (rbKey b)) (\<lambda>x. b\<lparr>rbKey := x\<rparr>) e
      else if names ''value'' k then field (into_Value j (rbValue b)) (\<lambda>x. b\<lparr>rbValue := x\<rparr>) e
      else if names ''from'' k then field (into_string j (rbFrom b)) (\<lambda>x. b\<lparr>rbFrom := x\<rparr>) e
      else (b, e))"

abbreviation zero_replicateBody :: replicateBody where
  "zero_replicateBody \<equiv> \<lparr>rbKey = '''', rbValue = zero_Value, rbFrom = ''''\<rparr>"

record readBody =
  rdKey :: string
  rdFrom :: string

definition json_of_readBody :: "readBody \<Rightarrow> json" where
  "json_of_readBody b = JObj [(''key'', JStr (rdKey b)), (''from'', JStr (rdFrom b))]"

definition readBody_member :: "readBody stored \<Rightarrow> string \<times> json \<Rightarrow> readBody stored" where
  "readBody_member st m =
     (let (b, e) = st; (k, j) = m in
      if names ''key'' k then field (into_string j (rdKey b)) (\<lambda>x. b\<lparr>rdKey := x\<rparr>) e
      else if names ''from'' k then field (into_string j (rdFrom b)) (\<lambda>x. b\<lparr>rdFrom := x\<rparr>) e
      else (b, e))"

abbreviation zero_readBody :: readBody where
  "zero_readBody \<equiv> \<lparr>rdKey = '''', rdFrom = ''''\<rparr>"

record readReply =
  rpValue :: Value
  rpFound :: bool

definition readReply_member :: "readReply stored \<Rightarrow> string \<times> json \<Rightarrow> readReply stored" where
  "readReply_member st m =
     (let (b, e) = st; (k, j) = m in
      if names ''value'' k then field (into_Value j (rpValue b)) (\<lambda>x. b\<lparr>rpValue := x\<rparr>) e
      else if names ''found'' k then field (into_bool j (rpFound b)) (\<lambda>x. b\<lparr>rpFound := x\<rparr>) e
      else (b, e))"

abbreviation zero_readReply :: readReply where
  "zero_readReply \<equiv> \<lparr>rpValue = zero_Value, rpFound = False\<rparr>"

record digestReply =
  dgValues :: "(string, Value) fmap option"

definition digestReply_member :: "digestReply stored \<Rightarrow> string \<times> json \<Rightarrow> digestReply stored" where
  "digestReply_member st m =
     (let (b, e) = st; (k, j) = m in
      if names ''values'' k then field (into_values j (dgValues b)) (\<lambda>x. b\<lparr>dgValues := x\<rparr>) e
      else (b, e))"

section \<open>Reading a body ends\<close>

text \<open>C28. Reading a request body always ends with an answer, and it is the grammar's: the recursion depth allowed to the
  model's parser never decides. A blank body is reported as the end of input, a body that starts with a JSON value is
  decoded into the target, whatever follows that value, if the value nests at most 10000 deep, and every other body is a
  syntax error that leaves the target as it was.\<close>

theorem readJSON_decides:
  "(skip_ws (reqBody r) = [] \<longrightarrow> readJSON into r dst = (dst, Some EOF)) \<and>
   (\<forall>n j u. parse_value n (reqBody r) = Some (j, u) \<longrightarrow>
      readJSON into r dst =
        (if nests max_nesting j then (fst (into j dst), if snd (into j dst) then Some TypeError else None)
         else (dst, Some SyntaxError)) \<and>
      length u < length (reqBody r)) \<and>
   (skip_ws (reqBody r) \<noteq> [] \<and> (\<forall>n. parse_value n (reqBody r) = None) \<longrightarrow> readJSON into r dst = (dst, Some SyntaxError))"
proof -
  have ws: "skip_ws s \<noteq> []" if "parse_value n s = Some x" for n s x
    using that by (cases n) (auto simp: parser_step_simps)
  have "readJSON into r dst = (if nests max_nesting j then (fst (into j dst), if snd (into j dst) then Some TypeError else None)
       else (dst, Some SyntaxError)) \<and> length u < length (reqBody r)"
    if "parse_value n (reqBody r) = Some (j, u)" for n j u
    using parse_fuel_enough [OF that] ws [OF that] by (simp add: readJSON_def Decode_def case_prod_unfold)
  then show ?thesis by (simp add: readJSON_def Decode_def)
qed

theorem readJSON_decides_witness:
  "readJSON into_strings \<lparr>reqMethod = ''POST'', reqPath = ''/debug/fault'', reqQuery = [],
     reqBody = ''['' @ quote_chr # ''B'' @ quote_chr # ''] tail''\<rparr> None = (Some [''B''], None)"
proof -
  let ?r = "\<lparr>reqMethod = ''POST'', reqPath = ''/debug/fault'', reqQuery = [], reqBody = ''['' @ quote_chr # ''B'' @ quote_chr # ''] tail''\<rparr>"
  have "parse_value 2 (''['' @ quote_chr # ''B'' @ quote_chr # ''] tail'') = None"
    "parse_value 3 (''['' @ quote_chr # ''B'' @ quote_chr # ''] tail'') = Some (JArr [JStr ''B''], '' tail'')"
    by code_simp+
  then show ?thesis using readJSON_decides [of ?r into_strings None] by (simp add: into_strings_def into_simps)
qed

end
