(* ===== verification/HTTP_Transport.thy ===== *)
theory HTTP_Transport
  imports HTTP
begin

text \<open>
  \<^verbatim>\<open>internal/net/transport.go\<close>: the HTTP client of a node. What lies between the processes is an argument, the record
  \<open>http_lib\<close>: \<open>lib_parse\<close> splits a URL into host, path and query as \<^verbatim>\<open>http.NewRequestWithContext\<close> does
  (or refuses it), and \<open>lib_do\<close> is \<^verbatim>\<open>Client.Do\<close>, which fails or returns a response and may change the state of
  the world. Every failure of the client is a value of \<open>http_error\<close>.
\<close>

section \<open>The client\<close>

record HTTPTransport =
  htID :: string
  htAddrs :: "(string, string) fmap"
  htTimeout :: int
  htDeny :: "(string, bool) fmap option"

record 's http_lib =
  lib_parse :: "string \<Rightarrow> (string \<times> string \<times> (string \<times> string) list) option"
  lib_do :: "string \<Rightarrow> Request \<Rightarrow> 's \<Rightarrow> (unit + Response) \<times> 's"

datatype http_error = HDenied | HNoAddr string | HBadURL | HDo | HStatus nat string | HHintStatus nat | HDecode decode_error

definition NewHTTPTransport :: "string \<Rightarrow> (string, string) fmap \<Rightarrow> HTTPTransport" where
  "NewHTTPTransport i addrs = \<lparr>htID = i, htAddrs = addrs, htTimeout = 2 * 1000000000, htDeny = Some fmempty\<rparr>"

definition LocalID :: "HTTPTransport \<Rightarrow> string" where
  "LocalID t = htID t"

definition setDeny :: "HTTPTransport \<Rightarrow> string list \<Rightarrow> bool \<Rightarrow> HTTPTransport" where
  "setDeny t ids deny =
     (let m = (case htDeny t of None \<Rightarrow> fmempty | Some m \<Rightarrow> m) in
      t\<lparr>htDeny := Some (foldl (\<lambda>m i. if deny then fmupd i True m else fmdrop i m) m ids)\<rparr>)"

definition Block :: "HTTPTransport \<Rightarrow> string list \<Rightarrow> HTTPTransport" where
  "Block t ids = setDeny t ids True"

definition Unblock :: "HTTPTransport \<Rightarrow> string list \<Rightarrow> HTTPTransport" where
  "Unblock t ids = (if length ids = 0 then t\<lparr>htDeny := Some fmempty\<rparr> else setDeny t ids False)"

definition blocked :: "HTTPTransport \<Rightarrow> string \<Rightarrow> bool" where
  "blocked t to = (case htDeny t of None \<Rightarrow> False | Some m \<Rightarrow> (case fmlookup m to of None \<Rightarrow> False | Some b \<Rightarrow> b))"

definition url :: "HTTPTransport \<Rightarrow> string \<Rightarrow> string \<Rightarrow> http_error + string" where
  "url t to path =
     (if blocked t to then Inl HDenied
      else
        (let addr = (case fmlookup (htAddrs t) to of None \<Rightarrow> '''' | Some a \<Rightarrow> a) in
         if addr = '''' then Inl (HNoAddr to)
         else if length addr \<ge> 4 \<and> take 4 addr = ''http'' then Inr (addr @ path)
         else Inr (''http://'' @ addr @ path)))"

text \<open>Building the request and sending it, the part the four methods share.\<close>

definition send :: "'s http_lib \<Rightarrow> string \<Rightarrow> string \<Rightarrow> string \<Rightarrow> 's \<Rightarrow> (http_error + Response) \<times> 's" where
  "send lib method u body s =
     (case lib_parse lib u of
        None \<Rightarrow> (Inl HBadURL, s)
      | Some (host, path, q) \<Rightarrow>
          (case lib_do lib host \<lparr>reqMethod = method, reqPath = path, reqQuery = q, reqBody = body\<rparr> s of
             (Inl _, s) \<Rightarrow> (Inl HDo, s)
           | (Inr resp, s) \<Rightarrow> (Inr resp, s)))"

definition HTTP_ReplicateWrite ::
  "'s http_lib \<Rightarrow> HTTPTransport \<Rightarrow> string \<Rightarrow> string \<Rightarrow> Value \<Rightarrow> 's \<Rightarrow> http_error option \<times> 's" where
  "HTTP_ReplicateWrite lib t to key val s =
     (case url t to ''/internal/replicate'' of
        Inl e \<Rightarrow> (Some e, s)
      | Inr u \<Rightarrow>
          (case send lib ''POST'' u (json_print (json_of_replicateBody \<lparr>rbKey = key, rbValue = val, rbFrom = htID t\<rparr>)) s of
             (Inl e, s) \<Rightarrow> (Some e, s)
           | (Inr resp, s) \<Rightarrow>
               (if respStatus resp \<ge> 300 then (Some (HStatus (respStatus resp) (respBody resp)), s) else (None, s))))"

definition HTTP_ReplicateRead ::
  "'s http_lib \<Rightarrow> HTTPTransport \<Rightarrow> string \<Rightarrow> string \<Rightarrow> 's \<Rightarrow> (http_error + Value \<times> bool) \<times> 's" where
  "HTTP_ReplicateRead lib t to key s =
     (case url t to ''/internal/read'' of
        Inl e \<Rightarrow> (Inl e, s)
      | Inr u \<Rightarrow>
          (case send lib ''POST'' u (json_print (json_of_readBody \<lparr>rdKey = key, rdFrom = htID t\<rparr>)) s of
             (Inl e, s) \<Rightarrow> (Inl e, s)
           | (Inr resp, s) \<Rightarrow>
               (case Decode (into_struct readReply_member) (respBody resp) zero_readReply of
                  (_, Some e) \<Rightarrow> (Inl (HDecode e), s)
                | (out, None) \<Rightarrow> (Inr (rpValue out, rpFound out), s))))"

definition HTTP_GetDigest ::
  "'s http_lib \<Rightarrow> HTTPTransport \<Rightarrow> string \<Rightarrow> 's \<Rightarrow> (http_error + (string, Value) fmap) \<times> 's" where
  "HTTP_GetDigest lib t to s =
     (case url t to ''/internal/digest'' of
        Inl e \<Rightarrow> (Inl e, s)
      | Inr u \<Rightarrow>
          (case send lib ''GET'' u '''' s of
             (Inl e, s) \<Rightarrow> (Inl e, s)
           | (Inr resp, s) \<Rightarrow>
               (case Decode (into_struct digestReply_member) (respBody resp) \<lparr>dgValues = None\<rparr> of
                  (_, Some e) \<Rightarrow> (Inl (HDecode e), s)
                | (out, None) \<Rightarrow> (Inr (case dgValues out of None \<Rightarrow> fmempty | Some m \<Rightarrow> m), s))))"

definition HTTP_ReplayHint ::
  "'s http_lib \<Rightarrow> HTTPTransport \<Rightarrow> string \<Rightarrow> string \<Rightarrow> Value \<Rightarrow> 's \<Rightarrow> http_error option \<times> 's" where
  "HTTP_ReplayHint lib t to key val s =
     (case url t to ''/internal/hint'' of
        Inl e \<Rightarrow> (Some e, s)
      | Inr u \<Rightarrow>
          (case send lib ''POST'' u (json_print (json_of_replicateBody \<lparr>rbKey = key, rbValue = val, rbFrom = htID t\<rparr>)) s of
             (Inl e, s) \<Rightarrow> (Some e, s)
           | (Inr resp, s) \<Rightarrow>
               (if respStatus resp \<ge> 300 then (Some (HHintStatus (respStatus resp)), s) else (None, s))))"

section \<open>The fault toggle\<close>

lemma blocked_setDeny: "blocked (setDeny t ids deny) to = (if to \<in> set ids then deny else blocked t to)"
proof -
  have "fmlookup (foldl (\<lambda>m i. if deny then fmupd i True m else fmdrop i m) m ids) to =
      (if to \<in> set ids then (if deny then Some True else None) else fmlookup m to)" for m
    by (induction ids arbitrary: m) auto
  then show ?thesis by (auto simp: blocked_def setDeny_def Let_def split: option.splits)
qed

text \<open>C35. The fault toggle is exact: after blocking some peers every call to them fails before anything is sent and
  leaves the world as it was, other peers are reached as before; unblocking named peers restores exactly those, and
  unblocking with no names restores all.\<close>

theorem block_exact:
  "(if to \<in> set ids then
      HTTP_ReplicateWrite lib (Block t ids) to key val s = (Some HDenied, s) \<and>
      HTTP_ReplicateRead lib (Block t ids) to key s = (Inl HDenied, s) \<and>
      HTTP_GetDigest lib (Block t ids) to s = (Inl HDenied, s) \<and>
      HTTP_ReplayHint lib (Block t ids) to key val s = (Some HDenied, s)
    else url (Block t ids) to path = url t to path) \<and>
   blocked (Unblock t ids) to = (if ids = [] \<or> to \<in> set ids then False else blocked t to)"
proof -
  have B: "url (Block t ids) to p = (if to \<in> set ids then Inl HDenied else url t to p)" for p
    by (auto simp: url_def Block_def blocked_setDeny) (simp add: setDeny_def Let_def)
  then show ?thesis
    by (auto simp: HTTP_ReplicateWrite_def HTTP_ReplicateRead_def HTTP_GetDigest_def HTTP_ReplayHint_def Unblock_def blocked_setDeny)
      (simp add: blocked_def)
qed

end
