(* ===== verification/HTTP_Server.thy ===== *)
theory HTTP_Server
  imports HTTP_Transport Coordinator
begin

text \<open>
  \<^verbatim>\<open>internal/node/server.go\<close>: the HTTP handlers of a node. A handler maps the request and the cluster to a
  response and the new cluster; a handler that runs \<^verbatim>\<open>Write\<close> or \<^verbatim>\<open>Read\<close> takes the schedule of their
  goroutines (\<open>Sched\<close>) and gives no response while the coordinator waits. The wording of errors that come
  from Go's library is an argument (\<open>Texts\<close>), as is the dynamic type of \<^verbatim>\<open>Node.Net\<close> in the fault toggle:
  the HTTP transport or none.
\<close>

record Sched =
  sc_order :: "string list"
  sc_timeout :: "nat option"
  sc_late :: "string list"
  sc_meanwhile :: "string \<Rightarrow> (string \<times> Value) list"

record Texts =
  txDecode :: "decode_error \<Rightarrow> string"
  txWal :: "wal_error \<Rightarrow> string"
  txQuote :: "string \<Rightarrow> string"

definition node_error_text :: "Texts \<Rightarrow> node_error \<Rightarrow> string" where
  "node_error_text tx e = (case e of WalError w \<Rightarrow> txWal tx w | ReadsDisabled \<Rightarrow> ''reads disabled'')"

definition policy_error_text :: "Texts \<Rightarrow> policy_error \<Rightarrow> string" where
  "policy_error_text tx e = (case e of UnknownPolicy s \<Rightarrow> ''unknown namespace policy '' @ txQuote tx s)"

definition error_json :: "string \<Rightarrow> json" where
  "error_json msg = JObj [(''error'', JStr msg)]"

section \<open>Answers\<close>

definition json_of_int :: "int \<Rightarrow> json" where
  "json_of_int i = JNum (itoa i)"

definition json_of_WriteResp :: "WriteResp \<Rightarrow> json" where
  "json_of_WriteResp r = JObj
     ([(''ok'', JBool (wrOK r)), (''version'', json_of_Version (wrVersion r)), (''acks_received'', json_of_int (wrAcksReceived r))]
      @ (if wrError r = '''' then [] else [(''error'', JStr (wrError r))]))"

definition json_of_ReadResp :: "ReadResp \<Rightarrow> json" where
  "json_of_ReadResp r = JObj
     ([(''value'', json_of_Value (rrValue r)), (''found'', JBool (rrFound r)),
       (''replicas_responded'', json_of_int (rrReplicasResponded r)), (''replicas_agreed'', JBool (rrReplicasAgreed r)),
       (''repaired'', JBool (rrRepaired r))]
      @ (if rrError r = '''' then [] else [(''error'', JStr (rrError r))]))"

text \<open>A slice: nil, which is what an empty history is, prints as null.\<close>

definition json_of_history :: "HistoryEntry list \<Rightarrow> json" where
  "json_of_history es = (if es = [] then JNull else JArr (map json_of_HistoryEntry es))"

definition json_of_slice :: "string list option \<Rightarrow> json" where
  "json_of_slice xs = (case xs of None \<Rightarrow> JNull | Some ss \<Rightarrow> JArr (map JStr ss))"

section \<open>Numbers in queries\<close>

text \<open>\<open>parseInt s dst\<close>: the two results and the new value of the target. The accumulator is a Go \<^verbatim>\<open>int\<close>.\<close>

fun parse_digits :: "string \<Rightarrow> 64 word \<Rightarrow> 64 word option" where
  "parse_digits [] n = Some n"
| "parse_digits (c # cs) n =
     (if byte c < 48 \<or> 57 < byte c then None else parse_digits cs (n * 10 + of_nat (byte c - 48)))"

definition parseInt :: "string \<Rightarrow> int \<Rightarrow> (int \<times> bool) \<times> int" where
  "parseInt s dst =
     (if s = '''' then ((0, False), dst)
      else (case parse_digits s 0 of None \<Rightarrow> ((0, False), dst) | Some n \<Rightarrow> ((sint n, True), sint n)))"

section \<open>Client requests\<close>

definition handleHealth :: "string \<Rightarrow> Cluster \<Rightarrow> Response" where
  "handleHealth c cl =
     (let n = node_at cl c in
      writeJSON 200 (JObj [(''id'', JStr (nodeID n)), (''n'', json_of_int (Node_N n)), (''ok'', JBool True)]))"

record writeJSONReq =
  wjKey :: string
  wjData :: string
  wjPolicy :: string
  wjW :: int
  wjClientTS :: int
  wjORSetOp :: string
  wjORSetElem :: string
  wjTombstone :: bool

definition writeJSONReq_member :: "writeJSONReq stored \<Rightarrow> string \<times> json \<Rightarrow> writeJSONReq stored" where
  "writeJSONReq_member st m =
     (let (b, e) = st; (k, j) = m in
      if names ''key'' k then field (into_string j (wjKey b)) (\<lambda>x. b\<lparr>wjKey := x\<rparr>) e
      else if names ''data'' k then field (into_string j (wjData b)) (\<lambda>x. b\<lparr>wjData := x\<rparr>) e
      else if names ''policy'' k then field (into_string j (wjPolicy b)) (\<lambda>x. b\<lparr>wjPolicy := x\<rparr>) e
      else if names ''w'' k then field (into_int j (wjW b)) (\<lambda>x. b\<lparr>wjW := x\<rparr>) e
      else if names ''client_ts'' k then field (into_int j (wjClientTS b)) (\<lambda>x. b\<lparr>wjClientTS := x\<rparr>) e
      else if names ''orset_op'' k then field (into_string j (wjORSetOp b)) (\<lambda>x. b\<lparr>wjORSetOp := x\<rparr>) e
      else if names ''orset_elem'' k then field (into_string j (wjORSetElem b)) (\<lambda>x. b\<lparr>wjORSetElem := x\<rparr>) e
      else if names ''tombstone'' k then field (into_bool j (wjTombstone b)) (\<lambda>x. b\<lparr>wjTombstone := x\<rparr>) e
      else (b, e))"

abbreviation zero_writeJSONReq :: writeJSONReq where
  "zero_writeJSONReq \<equiv>
     \<lparr>wjKey = '''', wjData = '''', wjPolicy = '''', wjW = 0, wjClientTS = 0, wjORSetOp = '''', wjORSetElem = '''',
      wjTombstone = False\<rparr>"

text \<open>A write of the coordinator and its answer with status 200 or 503.\<close>

definition answer_write :: "WriteResp option \<times> Cluster \<Rightarrow> Response option \<times> Cluster" where
  "answer_write res =
     (let (resp, cl) = res in
      (map_option (\<lambda>r. writeJSON (if \<not> wrOK r then 503 else 200) (json_of_WriteResp r)) resp, cl))"

definition handleWrite :: "Texts \<Rightarrow> Sched \<Rightarrow> string \<Rightarrow> Request \<Rightarrow> Cluster \<Rightarrow> Response option \<times> Cluster" where
  "handleWrite tx sc c r cl =
     (case readJSON (into_struct writeJSONReq_member) r zero_writeJSONReq of
        (_, Some e) \<Rightarrow> (Some (writeJSON 400 (error_json (txDecode tx e))), cl)
      | (req, None) \<Rightarrow>
          (case ParsePolicy (wjPolicy req) of
             (_, Some e) \<Rightarrow> (Some (writeJSON 400 (error_json (policy_error_text tx e))), cl)
           | (pol, None) \<Rightarrow>
               answer_write (Write c
                 \<lparr>wqKey = wjKey req, wqData = Some (wjData req), wqPolicy = pol, wqW = wjW req, wqClientTS = wjClientTS req,
                  wqORSetOp = wjORSetOp req, wqORSetElem = wjORSetElem req, wqTombstone = wjTombstone req\<rparr>
                 (sc_order sc) (sc_timeout sc) cl)))"

record readJSONReq =
  rjKey :: string
  rjR :: int

definition readJSONReq_member :: "readJSONReq stored \<Rightarrow> string \<times> json \<Rightarrow> readJSONReq stored" where
  "readJSONReq_member st m =
     (let (b, e) = st; (k, j) = m in
      if names ''key'' k then field (into_string j (rjKey b)) (\<lambda>x. b\<lparr>rjKey := x\<rparr>) e
      else if names ''r'' k then field (into_int j (rjR b)) (\<lambda>x. b\<lparr>rjR := x\<rparr>) e
      else (b, e))"

definition handleRead :: "Sched \<Rightarrow> string \<Rightarrow> Request \<Rightarrow> Cluster \<Rightarrow> Response option \<times> Cluster" where
  "handleRead sc c r cl =
     (let key = query_get r ''key''; q = query_get r ''r''; rr = 1;
          rr = (if q \<noteq> '''' then snd (parseInt q rr) else rr);
          (key, rr) =
            (if reqMethod r = ''POST'' then
               (case readJSON (into_struct readJSONReq_member) r \<lparr>rjKey = '''', rjR = 0\<rparr> of
                  (body, None) \<Rightarrow>
                    (if rjKey body \<noteq> '''' then rjKey body else key, if rjR body > 0 then rjR body else rr)
                | (_, Some _) \<Rightarrow> (key, rr))
             else (key, rr));
          (resp, cl) = Read c \<lparr>rqKey = key, rqR = rr\<rparr> (sc_order sc) (sc_timeout sc) (sc_late sc) cl
      in (map_option (\<lambda>x. writeJSON (if rrError x \<noteq> '''' then 503 else 200) (json_of_ReadResp x)) resp, cl))"

definition handleDelete :: "Texts \<Rightarrow> Sched \<Rightarrow> string \<Rightarrow> Request \<Rightarrow> Cluster \<Rightarrow> Response option \<times> Cluster" where
  "handleDelete tx sc c r cl =
     (case readJSON (into_struct writeJSONReq_member) r zero_writeJSONReq of
        (_, Some e) \<Rightarrow> (Some (writeJSON 400 (error_json (txDecode tx e))), cl)
      | (req, None) \<Rightarrow> answer_write (Delete c (wjKey req) (wjW req) (sc_order sc) (sc_timeout sc) cl))"

definition handleHistory :: "string \<Rightarrow> Request \<Rightarrow> Cluster \<Rightarrow> Response" where
  "handleHistory c r cl =
     (let key = query_get r ''key''; e = query_get r ''entity'';
          key = (if e \<noteq> '''' then e @ '':'' @ query_get r ''attribute'' else key)
      in writeJSON 200 (json_of_history (Replica_History (nodeReplica (node_at cl c)) key)))"

record factReq =
  fqEntity :: string
  fqAttribute :: string
  fqValue :: string
  fqPolicy :: string
  fqW :: int

definition factReq_member :: "factReq stored \<Rightarrow> string \<times> json \<Rightarrow> factReq stored" where
  "factReq_member st m =
     (let (b, e) = st; (k, j) = m in
      if names ''entity'' k then field (into_string j (fqEntity b)) (\<lambda>x. b\<lparr>fqEntity := x\<rparr>) e
      else if names ''attribute'' k then field (into_string j (fqAttribute b)) (\<lambda>x. b\<lparr>fqAttribute := x\<rparr>) e
      else if names ''value'' k then field (into_string j (fqValue b)) (\<lambda>x. b\<lparr>fqValue := x\<rparr>) e
      else if names ''policy'' k then field (into_string j (fqPolicy b)) (\<lambda>x. b\<lparr>fqPolicy := x\<rparr>) e
      else if names ''w'' k then field (into_int j (fqW b)) (\<lambda>x. b\<lparr>fqW := x\<rparr>) e
      else (b, e))"

definition handleFact :: "Texts \<Rightarrow> Sched \<Rightarrow> string \<Rightarrow> Request \<Rightarrow> Cluster \<Rightarrow> Response option \<times> Cluster" where
  "handleFact tx sc c r cl =
     (if reqMethod r = ''POST'' then
        (case readJSON (into_struct factReq_member) r
            \<lparr>fqEntity = '''', fqAttribute = '''', fqValue = '''', fqPolicy = '''', fqW = 0\<rparr> of
           (_, Some e) \<Rightarrow> (Some (writeJSON 400 (error_json (txDecode tx e))), cl)
         | (req, None) \<Rightarrow>
             (let (pol, _) = ParsePolicy (fqPolicy req) in
              answer_write (Write c
                \<lparr>wqKey = fqEntity req @ '':'' @ fqAttribute req, wqData = Some (fqValue req), wqPolicy = pol, wqW = fqW req,
                 wqClientTS = 0, wqORSetOp = '''', wqORSetElem = '''', wqTombstone = False\<rparr>
                (sc_order sc) (sc_timeout sc) cl)))
      else
        (let entity = query_get r ''entity''; attr = query_get r ''attribute'';
             rr = snd (parseInt (query_get r ''r'') 2);
             (resp, cl) = Read c \<lparr>rqKey = entity @ '':'' @ attr, rqR = rr\<rparr> (sc_order sc) (sc_timeout sc) (sc_late sc) cl
         in (map_option (\<lambda>x. writeJSON 200 (json_of_ReadResp x)) resp, cl)))"

definition handleFacts :: "string \<Rightarrow> Request \<Rightarrow> Cluster \<Rightarrow> Response" where
  "handleFacts c r cl =
     writeJSON 200 (json_of_values (KV_Prefix (repKV (nodeReplica (node_at cl c))) (query_get r ''entity'' @ '':'')))"

record tagReq =
  tqEntity :: string
  tqTag :: string
  tqW :: int

definition tagReq_member :: "tagReq stored \<Rightarrow> string \<times> json \<Rightarrow> tagReq stored" where
  "tagReq_member st m =
     (let (b, e) = st; (k, j) = m in
      if names ''entity'' k then field (into_string j (tqEntity b)) (\<lambda>x. b\<lparr>tqEntity := x\<rparr>) e
      else if names ''tag'' k then field (into_string j (tqTag b)) (\<lambda>x. b\<lparr>tqTag := x\<rparr>) e
      else if names ''w'' k then field (into_int j (tqW b)) (\<lambda>x. b\<lparr>tqW := x\<rparr>) e
      else (b, e))"

abbreviation zero_tagReq :: tagReq where
  "zero_tagReq \<equiv> \<lparr>tqEntity = '''', tqTag = '''', tqW = 0\<rparr>"

definition handleTag :: "Texts \<Rightarrow> Sched \<Rightarrow> string \<Rightarrow> Request \<Rightarrow> Cluster \<Rightarrow> Response option \<times> Cluster" where
  "handleTag tx sc c r cl =
     (case (if reqMethod r \<noteq> ''GET'' then readJSON (into_struct tagReq_member) r zero_tagReq
            else (zero_tagReq\<lparr>tqEntity := query_get r ''entity'', tqTag := query_get r ''tag''\<rparr>, None)) of
        (_, Some e) \<Rightarrow> (Some (writeJSON 400 (error_json (txDecode tx e))), cl)
      | (req, None) \<Rightarrow>
          (let req = (if tqW req = 0 then req\<lparr>tqW := 2\<rparr> else req);
               opn = (if reqMethod r = ''DELETE'' then ''remove'' else ''add'')
           in if reqMethod r = ''GET'' then
                (let (resp, cl) = Read c \<lparr>rqKey = tqEntity req @ '':tags'', rqR = 2\<rparr> (sc_order sc) (sc_timeout sc) (sc_late sc) cl
                 in (map_option (\<lambda>x. writeJSON 200 (json_of_ReadResp x)) resp, cl))
              else
                answer_write (Write c
                  \<lparr>wqKey = tqEntity req @ '':tags'', wqData = None, wqPolicy = PolicyCRDTORSet, wqW = tqW req, wqClientTS = 0,
                   wqORSetOp = opn, wqORSetElem = tqTag req, wqTombstone = False\<rparr>
                  (sc_order sc) (sc_timeout sc) cl)))"

section \<open>Requests between nodes\<close>

definition handleReplicate :: "Texts \<Rightarrow> string \<Rightarrow> Request \<Rightarrow> Cluster \<Rightarrow> Response \<times> Cluster" where
  "handleReplicate tx c r cl =
     (case readJSON (into_struct replicateBody_member) r zero_replicateBody of
        (_, Some e) \<Rightarrow> (writeJSON 400 (error_json (txDecode tx e)), cl)
      | (body, None) \<Rightarrow>
          (case ApplyReplicate c (rbFrom body) (rbKey body) (rbValue body) cl of
             (Inl e, cl) \<Rightarrow> (writeJSON 500 (error_json (node_error_text tx e)), cl)
           | (Inr _, cl) \<Rightarrow> (writeJSON 200 (JObj [(''ok'', JBool True)]), cl)))"

definition handleInternalRead :: "Texts \<Rightarrow> string \<Rightarrow> Request \<Rightarrow> Cluster \<Rightarrow> Response \<times> Cluster" where
  "handleInternalRead tx c r cl =
     (case readJSON (into_struct readBody_member) r zero_readBody of
        (_, Some e) \<Rightarrow> (writeJSON 400 (error_json (txDecode tx e)), cl)
      | (body, None) \<Rightarrow>
          (case ServeRead c (rdFrom body) (rdKey body) cl of
             (Inl e, cl) \<Rightarrow> (writeJSON 503 (error_json (node_error_text tx e)), cl)
           | (Inr (v, found), cl) \<Rightarrow>
               (writeJSON 200 (JObj [(''found'', JBool found), (''value'', json_of_Value v)]), cl)))"

definition handleDigest :: "Texts \<Rightarrow> string \<Rightarrow> Cluster \<Rightarrow> Response \<times> Cluster" where
  "handleDigest tx c cl =
     (case ServeDigest c '''' cl of
        (Inl e, cl) \<Rightarrow> (writeJSON 500 (error_json (node_error_text tx e)), cl)
      | (Inr m, cl) \<Rightarrow> (writeJSON 200 (JObj [(''values'', json_of_values m)]), cl))"

section \<open>Debugging and faults\<close>

definition handleDebugKV :: "string \<Rightarrow> Request \<Rightarrow> Cluster \<Rightarrow> Response" where
  "handleDebugKV c r cl =
     (let key = query_get r ''key''; rep = nodeReplica (node_at cl c) in
      if key = '''' then writeJSON 200 (json_of_values (Replica_Snapshot rep))
      else (let (v, ok) = Replica_Get rep key in
            writeJSON 200 (JObj [(''found'', JBool ok), (''value'', json_of_Value v)])))"

definition handleDebugHints :: "string \<Rightarrow> Cluster \<Rightarrow> Response" where
  "handleDebugHints c cl =
     (let h = nodeHints (node_at cl c) in
      writeJSON 200 (JObj [(''count'', json_of_int (int (Count h))), (''targets'', json_of_slice (if Targets h = [] then None else Some (Targets h)))]))"

text \<open>
  \<^verbatim>\<open>strings.ToLower\<close> as far as a comparison with an ASCII word can tell: besides the ASCII capitals only the
  Kelvin sign (U+212A) and the dotted capital I (U+0130) have an ASCII lower case.
\<close>

fun to_lower :: "string \<Rightarrow> string" where
  "to_lower [] = []"
| "to_lower (a # r) =
     (if 65 \<le> byte a \<and> byte a \<le> 90 then char_of (byte a + 32) # to_lower r
      else if byte a = 0xE2 \<and> take 2 r = [CHR 0x84, CHR 0xAA] then CHR ''k'' # to_lower (drop 2 r)
      else if byte a = 0xC4 \<and> take 1 r = [CHR 0xB0] then CHR ''i'' # to_lower (drop 1 r)
      else a # to_lower r)"

record faultReq =
  ftAction :: string
  ftPeers :: "string list option"

definition faultReq_member :: "faultReq stored \<Rightarrow> string \<times> json \<Rightarrow> faultReq stored" where
  "faultReq_member st m =
     (let (b, e) = st; (k, j) = m in
      if names ''action'' k then field (into_string j (ftAction b)) (\<lambda>x. b\<lparr>ftAction := x\<rparr>) e
      else if names ''peers'' k then field (into_strings j (ftPeers b)) (\<lambda>x. b\<lparr>ftPeers := x\<rparr>) e
      else (b, e))"

definition handleFault :: "Texts \<Rightarrow> Request \<Rightarrow> HTTPTransport option \<Rightarrow> Response \<times> HTTPTransport option" where
  "handleFault tx r net =
     (case net of
        None \<Rightarrow> (writeJSON 400 (error_json ''fault toggle only on HTTP transport''), None)
      | Some ht \<Rightarrow>
          (let (req, err) = readJSON (into_struct faultReq_member) r \<lparr>ftAction = '''', ftPeers = None\<rparr> in
           if err \<noteq> None \<and> err \<noteq> Some EOF then (writeJSON 400 (error_json (txDecode tx (the err))), Some ht)
           else
             (let ids = (case ftPeers req of None \<Rightarrow> [] | Some ps \<Rightarrow> ps); action = to_lower (ftAction req);
                  ok = JObj [(''action'', JStr (ftAction req)), (''ok'', JBool True), (''peers'', json_of_slice (ftPeers req))]
              in if action = ''block'' \<or> action = ''partition'' then (writeJSON 200 ok, Some (Block ht ids))
                 else if action = ''unblock'' \<or> action = ''recover'' then (writeJSON 200 ok, Some (Unblock ht ids))
                 else if action = ''heal'' then (writeJSON 200 ok, Some (Unblock ht []))
                 else (writeJSON 400 (error_json ''action must be block|unblock|heal''), Some ht))))"

definition handleAntiEntropy :: "string \<Rightarrow> Cluster \<Rightarrow> Response \<times> Cluster" where
  "handleAntiEntropy c cl =
     (let ((push, pull), cl) = AntiEntropyRound c cl in
      (writeJSON 200 (JObj [(''pulled'', json_of_int (int pull)), (''pushed'', json_of_int (int push))]), cl))"

definition handleHandoff :: "Sched \<Rightarrow> string \<Rightarrow> Cluster \<Rightarrow> Response \<times> Cluster" where
  "handleHandoff sc c cl =
     (let (n, cl) = ReplayHints c (sc_meanwhile sc) cl in
      (writeJSON 200 (JObj [(''delivered'', json_of_int (int n))]), cl))"

section \<open>Routing\<close>

datatype endpoint =
    Health | WriteEP | ReadEP | DeleteEP | HistoryEP | FactEP | FactsEP | TagEP | ReplicateEP | InternalReadEP | DigestEP
  | DebugKVEP | DebugHintsEP | FaultEP | AntiEntropyEP | HandoffEP

definition mux_routes :: "(string \<times> endpoint) list" where
  "mux_routes =
     [(''/health'', Health), (''/write'', WriteEP), (''/read'', ReadEP), (''/delete'', DeleteEP), (''/history'', HistoryEP),
      (''/fact'', FactEP), (''/facts'', FactsEP), (''/tag'', TagEP), (''/internal/replicate'', ReplicateEP),
      (''/internal/read'', InternalReadEP), (''/internal/digest'', DigestEP), (''/internal/hint'', ReplicateEP),
      (''/debug/kv'', DebugKVEP), (''/debug/hints'', DebugHintsEP), (''/debug/fault'', FaultEP),
      (''/debug/anti-entropy'', AntiEntropyEP), (''/debug/handoff'', HandoffEP)]"

text \<open>One request: the handler its path is registered for, none for a path the multiplexer answers itself.\<close>

definition run_endpoint ::
  "Texts \<Rightarrow> Sched \<Rightarrow> string \<Rightarrow> endpoint \<Rightarrow> Request \<Rightarrow> HTTPTransport option \<times> Cluster \<Rightarrow>
   Response option \<times> HTTPTransport option \<times> Cluster" where
  "run_endpoint tx sc c ep r st =
     (let (net, cl) = st in
      case ep of
        Health \<Rightarrow> (Some (handleHealth c cl), net, cl)
      | WriteEP \<Rightarrow> (let (x, cl) = handleWrite tx sc c r cl in (x, net, cl))
      | ReadEP \<Rightarrow> (let (x, cl) = handleRead sc c r cl in (x, net, cl))
      | DeleteEP \<Rightarrow> (let (x, cl) = handleDelete tx sc c r cl in (x, net, cl))
      | HistoryEP \<Rightarrow> (Some (handleHistory c r cl), net, cl)
      | FactEP \<Rightarrow> (let (x, cl) = handleFact tx sc c r cl in (x, net, cl))
      | FactsEP \<Rightarrow> (Some (handleFacts c r cl), net, cl)
      | TagEP \<Rightarrow> (let (x, cl) = handleTag tx sc c r cl in (x, net, cl))
      | ReplicateEP \<Rightarrow> (let (x, cl) = handleReplicate tx c r cl in (Some x, net, cl))
      | InternalReadEP \<Rightarrow> (let (x, cl) = handleInternalRead tx c r cl in (Some x, net, cl))
      | DigestEP \<Rightarrow> (let (x, cl) = handleDigest tx c cl in (Some x, net, cl))
      | DebugKVEP \<Rightarrow> (Some (handleDebugKV c r cl), net, cl)
      | DebugHintsEP \<Rightarrow> (Some (handleDebugHints c cl), net, cl)
      | FaultEP \<Rightarrow> (let (x, net) = handleFault tx r net in (Some x, net, cl))
      | AntiEntropyEP \<Rightarrow> (let (x, cl) = handleAntiEntropy c cl in (Some x, net, cl))
      | HandoffEP \<Rightarrow> (let (x, cl) = handleHandoff sc c cl in (Some x, net, cl)))"

text \<open>
  The server object: the node it serves, the routes of its multiplexer, the address to listen on, the address it got and
  whether it accepts connections. \<open>listen\<close> is \<^verbatim>\<open>net.Listen\<close>: the address of the listener, or none when it fails.
\<close>

record HTTPServer =
  hsNode :: string
  hsMux :: "(string \<times> endpoint) list"
  hsHTTPAddr :: string
  hsAddr :: string
  hsServing :: bool

definition NewHTTPServer :: "string \<Rightarrow> string \<Rightarrow> HTTPServer" where
  "NewHTTPServer n addr = \<lparr>hsNode = n, hsMux = mux_routes, hsHTTPAddr = addr, hsAddr = '''', hsServing = False\<rparr>"

definition Start :: "(string \<Rightarrow> string option) \<Rightarrow> HTTPServer \<Rightarrow> bool \<times> HTTPServer" where
  "Start listen s =
     (case listen (hsHTTPAddr s) of
        None \<Rightarrow> (False, s)
      | Some a \<Rightarrow> (True, s\<lparr>hsAddr := a, hsServing := True\<rparr>))"

definition HTTPServer_Close :: "HTTPServer \<Rightarrow> HTTPServer" where
  "HTTPServer_Close s = s\<lparr>hsServing := False\<rparr>"

definition serve ::
  "Texts \<Rightarrow> Sched \<Rightarrow> string \<Rightarrow> Request \<Rightarrow> HTTPTransport option \<times> Cluster \<Rightarrow>
   (Response option \<times> HTTPTransport option \<times> Cluster) option" where
  "serve tx sc c r st = map_option (\<lambda>ep. run_endpoint tx sc c ep r st) (map_of mux_routes (reqPath r))"

end
