(* ===== verification/HTTP_Cluster.thy ===== *)
theory HTTP_Cluster
  imports HTTP_Server Quorum_Safety
begin

text \<open>
  Two processes connected by HTTP: the client of \<^verbatim>\<open>internal/net/transport.go\<close> composed with the handlers of
  \<^verbatim>\<open>internal/node/server.go\<close>. \<open>connects\<close> states what is assumed of the network in between; under it each call of the
  transport equals the direct call of the peer's method, which is what the in-process network makes, up to the cases
  the theorems name.
\<close>

section \<open>Bodies survive the way\<close>

lemma Decode_print:
  assumes "wf_json j \<and> nests max_nesting j" "r = [] \<or> r = [nl]"
  shows "Decode into (json_print j @ r) dst = (let (v, e) = into j dst in (v, if e then Some TypeError else None))"
proof -
  have "num_stop r" using assms(2) by (auto simp: num_stop_def is_digit_def byte_def)
  then have "parse_value (Suc (length (json_print j @ r))) (json_print j @ r) = Some (j, r)"
    using assms(1) by (intro parse_print(1)) simp_all
  moreover have "skip_ws (json_print j @ r) \<noteq> []"
    using json_print_head [of j] assms(1) by (auto simp: skip_ws_head)
  ultimately show ?thesis using assms(1) by (simp add: Decode_def)
qed

lemma nests_values: "2 < d \<Longrightarrow> nests d (json_of_values t)"
  by (auto simp: json_of_values_def list_all_iff)

lemma wire_names [simp]:
  "names ''key'' ''key''" "\<not> names ''key'' ''value''" "\<not> names ''key'' ''from''" "names ''value'' ''value''"
  "\<not> names ''value'' ''from''" "names ''from'' ''from''" "\<not> names ''value'' ''found''" "names ''found'' ''found''"
  "names ''values'' ''values''" "\<not> names ''value'' ''error''" "\<not> names ''found'' ''error''" "\<not> names ''values'' ''error''"
  by (simp_all add: names_def in_range_def byte_def)

lemma wire_utf8 [simp]:
  "valid_utf8 ''key''" "valid_utf8 ''value''" "valid_utf8 ''from''" "valid_utf8 ''found''" "valid_utf8 ''values''"
  "valid_utf8 ''error''" "valid_utf8 ''ok''" "valid_utf8 ''reads disabled''"
  by (simp_all add: byte_def)

lemma readJSON_replicate:
  assumes "valid_utf8 key" "wire_value v" "valid_utf8 from"
  shows "Decode (into_struct replicateBody_member) (json_print (json_of_replicateBody \<lparr>rbKey = key, rbValue = v, rbFrom = from\<rparr>))
    zero_replicateBody = (\<lparr>rbKey = key, rbValue = v, rbFrom = from\<rparr>, None)"
proof -
  let ?j = "json_of_replicateBody \<lparr>rbKey = key, rbValue = v, rbFrom = from\<rparr>"
  have "wf_json ?j \<and> nests max_nesting ?j" using assms by (simp add: json_of_replicateBody_def wf_json_Value)
  from Decode_print [OF this, of "[]" "into_struct replicateBody_member"] show ?thesis
    using into_Value_json [OF assms(2)]
    by (simp add: into_struct_def json_of_replicateBody_def replicateBody_member_def field_def into_simps)
qed

lemma readJSON_read:
  assumes "valid_utf8 key" "valid_utf8 from"
  shows "Decode (into_struct readBody_member) (json_print (json_of_readBody \<lparr>rdKey = key, rdFrom = from\<rparr>)) zero_readBody =
    (\<lparr>rdKey = key, rdFrom = from\<rparr>, None)"
proof -
  let ?j = "json_of_readBody \<lparr>rdKey = key, rdFrom = from\<rparr>"
  have "wf_json ?j \<and> nests max_nesting ?j" using assms by (simp add: json_of_readBody_def)
  from Decode_print [OF this, of "[]" "into_struct readBody_member"] show ?thesis
    by (simp add: into_struct_def json_of_readBody_def readBody_member_def field_def into_simps)
qed

lemma Decode_readReply:
  assumes "wire_value v"
  shows "Decode (into_struct readReply_member) (json_print (JObj [(''found'', JBool b), (''value'', json_of_Value v)]) @ [nl]) zero_readReply =
    (\<lparr>rpValue = v, rpFound = b\<rparr>, None)"
proof -
  have "wf_json (JObj [(''found'', JBool b), (''value'', json_of_Value v)]) \<and> nests max_nesting (JObj [(''found'', JBool b), (''value'', json_of_Value v)])" using assms by (simp add: wf_json_Value)
  from Decode_print [OF this, of "[nl]" "into_struct readReply_member"] show ?thesis
    using into_Value_json [OF assms] by (simp add: into_struct_def readReply_member_def field_def into_simps)
qed

lemma Decode_error:
  assumes "valid_utf8 msg"
  shows "Decode (into_struct readReply_member) (json_print (error_json msg) @ [nl]) zero_readReply = (zero_readReply, None)"
    "Decode (into_struct digestReply_member) (json_print (error_json msg) @ [nl]) d = (d, None)"
proof -
  have "wf_json (error_json msg) \<and> nests max_nesting (error_json msg)" using assms by (simp add: error_json_def)
  note D = Decode_print [OF this, of "[nl]"]
  show "Decode (into_struct readReply_member) (json_print (error_json msg) @ [nl]) zero_readReply = (zero_readReply, None)"
    "Decode (into_struct digestReply_member) (json_print (error_json msg) @ [nl]) d = (d, None)"
    by (simp_all add: D) (simp_all add: error_json_def into_struct_def readReply_member_def digestReply_member_def)
qed

lemma into_values_json:
  assumes "\<And>k v. fmlookup t k = Some v \<Longrightarrow> wire_value v"
  shows "into_values (json_of_values t) None = (Some t, False)"
proof -
  have "foldl value_entry (m, False) (map (\<lambda>(k, v). (k, json_of_Value v)) es) = (foldl (\<lambda>m (k, v). fmupd k v m) m es, False)"
    if "\<And>k v. (k, v) \<in> set es \<Longrightarrow> wire_value v" for es m
    using that
  proof (induction es arbitrary: m)
    case (Cons e es)
    have "into_Value (json_of_Value (snd e)) zero_Value = (snd e, False)" by (rule into_Value_json) (use Cons.prems [of "fst e"] in simp)
    then have "value_entry (m, False) (fst e, json_of_Value (snd e)) = (fmupd (fst e) (snd e) m, False)" by (simp add: value_entry_def)
    moreover have "\<And>k v. (k, v) \<in> set es \<Longrightarrow> wire_value v" using Cons.prems by (meson list.set_intros(2))
    ultimately show ?case using Cons.IH [of "fmupd (fst e) (snd e) m"] by (simp add: case_prod_unfold)
  qed simp
  moreover have "foldl (\<lambda>m (k, v). fmupd k v m) fmempty (sorted_list_of_fmap t) = t"
    using foldl_fmupd [of "sorted_list_of_fmap t" fmempty] by simp
  ultimately have "foldl value_entry (fmempty, False) (map (\<lambda>(k, v). (k, json_of_Value v)) (sorted_list_of_fmap t)) = (t, False)"
    using assms by (metis in_sorted_list_of_fmap)
  then show ?thesis by (simp add: into_values_def json_of_values_def)
qed

lemma wf_json_values:
  assumes "\<And>k v. fmlookup t k = Some v \<Longrightarrow> valid_utf8 k \<and> wire_value v"
  shows "wf_json (json_of_values t)"
  using assms by (auto simp: json_of_values_def list_all_iff in_sorted_list_of_fmap wf_json_Value)

lemma Decode_digest:
  assumes "\<And>k v. fmlookup t k = Some v \<Longrightarrow> valid_utf8 k \<and> wire_value v"
  shows "Decode (into_struct digestReply_member) (json_print (JObj [(''values'', json_of_values t)]) @ [nl]) \<lparr>dgValues = None\<rparr> =
    (\<lparr>dgValues = Some t\<rparr>, None)"
proof -
  have "wf_json (JObj [(''values'', json_of_values t)]) \<and> nests max_nesting (JObj [(''values'', json_of_values t)])"
    using wf_json_values [OF assms] by (simp add: nests_values)
  from Decode_print [OF this, of "[nl]" "into_struct digestReply_member"] show ?thesis
    using into_values_json [of t] assms by (simp add: into_struct_def digestReply_member_def field_def)
qed

section \<open>Two processes connected by HTTP\<close>

text \<open>
  The peer \<open>to\<close> can be reached: its URLs parse, \<^verbatim>\<open>Client.Do\<close> carries the request to the process that runs node
  \<open>to\<close> on the state of the cluster and brings back what its handler answers; a handler that is
  still waiting leaves the client with an error while its effects remain.
\<close>

definition carried ::
  "(Response option \<times> HTTPTransport option \<times> Cluster) option \<Rightarrow> Cluster \<Rightarrow> (unit + Response) \<times> Cluster" where
  "carried res cl =
     (case res of
        Some (Some x, _, cl') \<Rightarrow> (Inr x, cl')
      | Some (None, _, cl') \<Rightarrow> (Inl (), cl')
      | None \<Rightarrow> (Inl (), cl))"

definition carries :: "Cluster http_lib \<Rightarrow> Texts \<Rightarrow> Sched \<Rightarrow> string \<Rightarrow> string \<Rightarrow> string \<Rightarrow> bool" where
  "carries lib tx sc c u path \<longleftrightarrow>
     (\<exists>host. lib_parse lib u = Some (host, path, []) \<and>
        (\<forall>m b cl. lib_do lib host \<lparr>reqMethod = m, reqPath = path, reqQuery = [], reqBody = b\<rparr> cl =
           carried (serve tx sc c \<lparr>reqMethod = m, reqPath = path, reqQuery = [], reqBody = b\<rparr> (None, cl)) cl))"

definition connects :: "Cluster http_lib \<Rightarrow> Texts \<Rightarrow> Sched \<Rightarrow> HTTPTransport \<Rightarrow> string \<Rightarrow> bool" where
  "connects lib tx sc t to \<longleftrightarrow>
     (\<forall>path \<in> set (map fst mux_routes). \<exists>u. url t to path = Inr u \<and> carries lib tx sc to u path)"

definition received :: "Response option \<times> HTTPTransport option \<times> Cluster \<Rightarrow> (http_error + Response) \<times> Cluster" where
  "received res = (case res of (Some x, _, cl') \<Rightarrow> (Inr x, cl') | (None, _, cl') \<Rightarrow> (Inl HDo, cl'))"

lemma carries_send:
  assumes "carries lib tx sc c u path" "map_of mux_routes path = Some ep"
  shows "send lib m u b cl =
      received (run_endpoint tx sc c ep \<lparr>reqMethod = m, reqPath = path, reqQuery = [], reqBody = b\<rparr> (None, cl))"
  using assms by (auto simp: carries_def send_def serve_def received_def carried_def split: prod.splits option.splits)

lemma route_path: "map_of mux_routes path = Some ep \<Longrightarrow> path \<in> set (map fst mux_routes)"
  by (force dest: map_of_SomeD)

lemma connects_send:
  assumes "connects lib tx sc t to" "map_of mux_routes path = Some ep"
  shows "\<exists>u. url t to path = Inr u \<and> (\<forall>m b cl. send lib m u b cl =
      received (run_endpoint tx sc to ep \<lparr>reqMethod = m, reqPath = path, reqQuery = [], reqBody = b\<rparr> (None, cl)))"
  using assms route_path [OF assms(2)] carries_send [OF _ assms(2)] by (auto simp: connects_def)

lemma routes:
  "map_of mux_routes ''/internal/replicate'' = Some ReplicateEP" "map_of mux_routes ''/internal/hint'' = Some ReplicateEP"
  "map_of mux_routes ''/internal/read'' = Some InternalReadEP" "map_of mux_routes ''/internal/digest'' = Some DigestEP"
  by (simp_all add: mux_routes_def)

lemma handleReplicate_body:
  assumes "valid_utf8 key" "wire_value v" "valid_utf8 from"
    and "reqBody r = json_print (json_of_replicateBody \<lparr>rbKey = key, rbValue = v, rbFrom = from\<rparr>)"
  shows "handleReplicate tx c r cl =
    (case ApplyReplicate c from key v cl of
       (Inl e, cl) \<Rightarrow> (writeJSON 500 (error_json (node_error_text tx e)), cl)
     | (Inr _, cl) \<Rightarrow> (writeJSON 200 (JObj [(''ok'', JBool True)]), cl))"
  using readJSON_replicate [OF assms(1-3)] by (simp add: handleReplicate_def readJSON_def assms(4))

text \<open>C14. Replication over HTTP is replication: sending a write or a hint through the JSON body, the server's handler and
  the status code applies exactly the value sent at exactly the node addressed, like the direct call of
  \<^verbatim>\<open>ApplyReplicate\<close>; the sender sees a success exactly when the peer applied it, and a failed log write as an error.\<close>

theorem http_write_equiv:
  assumes "connects lib tx sc t to" "valid_utf8 key" "wire_value v" "valid_utf8 (htID t)"
  shows "HTTP_ReplicateWrite lib t to key v cl =
      (case ApplyReplicate to (htID t) key v cl of
         (Inr _, cl') \<Rightarrow> (None, cl')
       | (Inl e, cl') \<Rightarrow> (Some (HStatus 500 (respBody (writeJSON 500 (error_json (node_error_text tx e))))), cl')) \<and>
    HTTP_ReplayHint lib t to key v cl =
      (case ApplyReplicate to (htID t) key v cl of
         (Inr _, cl') \<Rightarrow> (None, cl')
       | (Inl e, cl') \<Rightarrow> (Some (HHintStatus 500), cl'))"
proof -
  let ?b = "json_print (json_of_replicateBody \<lparr>rbKey = key, rbValue = v, rbFrom = htID t\<rparr>)"
  obtain u where u: "url t to ''/internal/replicate'' = Inr u" and s: "\<And>m b cl. send lib m u b cl =
      received (run_endpoint tx sc to ReplicateEP \<lparr>reqMethod = m, reqPath = ''/internal/replicate'', reqQuery = [], reqBody = b\<rparr> (None, cl))"
    using connects_send [OF assms(1) routes(1)] by blast
  obtain u' where u': "url t to ''/internal/hint'' = Inr u'" and s': "\<And>m b cl. send lib m u' b cl =
      received (run_endpoint tx sc to ReplicateEP \<lparr>reqMethod = m, reqPath = ''/internal/hint'', reqQuery = [], reqBody = b\<rparr> (None, cl))"
    using connects_send [OF assms(1) routes(2)] by blast
  note h = handleReplicate_body [OF assms(2-4)]
  show ?thesis
    by (auto simp: HTTP_ReplicateWrite_def HTTP_ReplayHint_def u u' s s' run_endpoint_def received_def carried_def h writeJSON_def split: prod.splits sum.splits)
qed

text \<open>C15. Reading over HTTP: a peer that serves reads answers with exactly what its replica holds. A peer whose
  reads are disabled answers with status 503 and an error body, and the client, which does not look at the status,
  reports a successful answer that the key does not exist; the direct call reports an error.\<close>

theorem http_read_equiv:
  assumes "connects lib tx sc t to" "valid_utf8 key" "valid_utf8 (htID t)"
    and "wire_value (fst (Replica_Get (nodeReplica (node_at cl to)) key))"
  shows "HTTP_ReplicateRead lib t to key cl =
      (case ServeRead to (htID t) key cl of
         (Inr (v, found), cl') \<Rightarrow> (Inr (v, found), cl')
       | (Inl _, cl') \<Rightarrow> (Inr (zero_Value, False), cl')) \<and>
    (fst (ServeRead to (htID t) key cl) = Inl ReadsDisabled) = (\<not> ReadsEnabled (nodeReplica (node_at cl to)))"
proof -
  obtain u where u: "url t to ''/internal/read'' = Inr u" and s: "\<And>m b cl. send lib m u b cl =
      received (run_endpoint tx sc to InternalReadEP \<lparr>reqMethod = m, reqPath = ''/internal/read'', reqQuery = [], reqBody = b\<rparr> (None, cl))"
    using connects_send [OF assms(1) routes(3)] by blast
  let ?g = "Replica_Get (nodeReplica (node_at cl to)) key"
  note r = readJSON_read [OF assms(2,3)] Decode_readReply [OF assms(4), of "snd ?g"] Decode_error(1) [of "''reads disabled''"]
  show ?thesis
    using r by (cases "?g") (auto simp: HTTP_ReplicateRead_def u s run_endpoint_def received_def carried_def handleInternalRead_def readJSON_def ServeRead_def
      node_error_text_def writeJSON_def Let_def)
qed

text \<open>C25. A digest fetched over HTTP is the peer's snapshot.\<close>

theorem http_digest_equiv:
  assumes "connects lib tx sc t to"
    and "\<forall>k v. fmlookup (Replica_Snapshot (nodeReplica (node_at cl to))) k = Some v \<longrightarrow> valid_utf8 k \<and> wire_value v"
  shows "HTTP_GetDigest lib t to cl = (Inr (Replica_Snapshot (nodeReplica (node_at cl to))), cl)"
proof -
  obtain u where u: "url t to ''/internal/digest'' = Inr u" and s: "\<And>m b cl. send lib m u b cl =
      received (run_endpoint tx sc to DigestEP \<lparr>reqMethod = m, reqPath = ''/internal/digest'', reqQuery = [], reqBody = b\<rparr> (None, cl))"
    using connects_send [OF assms(1) routes(4)] by blast
  show ?thesis
    using Decode_digest [of "Replica_Snapshot (nodeReplica (node_at cl to))"] assms(2)
    by (simp add: HTTP_GetDigest_def u s run_endpoint_def received_def carried_def handleDigest_def ServeDigest_def writeJSON_def)
qed

section \<open>A connected pair\<close>

definition sample_texts :: Texts where
  "sample_texts = \<lparr>txDecode = (\<lambda>_. ''bad json''), txWal = (\<lambda>_. ''disk''), txQuote = (\<lambda>s. s)\<rparr>"

definition sample_sched :: Sched where
  "sample_sched = \<lparr>sc_order = [''A'', ''B'', ''C''], sc_timeout = None, sc_late = [], sc_meanwhile = (\<lambda>_. [])\<rparr>"

definition sample_transport :: HTTPTransport where
  "sample_transport = NewHTTPTransport ''A'' (fmap_of_list [(''B'', ''b:1'')])"

definition sample_lib :: "Cluster http_lib" where
  "sample_lib =
     \<lparr>lib_parse = (\<lambda>u. if take 10 u = ''http://b:1'' then Some (''b:1'', drop 10 u, []) else None),
      lib_do = (\<lambda>host r cl. carried (serve sample_texts sample_sched ''B'' r (None, cl)) cl)\<rparr>"

lemma sample_connects: "connects sample_lib sample_texts sample_sched sample_transport ''B''"
  by (simp add: connects_def carries_def sample_lib_def sample_transport_def NewHTTPTransport_def url_def blocked_def)

lemma sample_id: "htID sample_transport = ''A''" "valid_utf8 (htID sample_transport)"
  by (simp_all add: sample_transport_def NewHTTPTransport_def byte_def)

lemma sample_wire_value: "wire_value (lww_write ''A'' 1 ''x'')"
  by (simp add: lww_write_def wire_value_def byte_def)

theorem http_write_equiv_witness:
  "fst (HTTP_ReplicateWrite sample_lib sample_transport ''B'' ''k'' (lww_write ''A'' 1 ''x'') (fresh_cluster three)) = None"
proof -
  have "fst (ApplyReplicate ''B'' ''A'' ''k'' (lww_write ''A'' 1 ''x'') (fresh_cluster three)) = Inr ()" by code_simp
  then show ?thesis
    using http_write_equiv [OF sample_connects _ sample_wire_value sample_id(2), of "''k''" "fresh_cluster three"]
    by (auto simp: sample_id(1) byte_def split: prod.splits)
qed

theorem http_read_equiv_witness:
  "fst (HTTP_ReplicateRead sample_lib sample_transport ''B'' ''k'' after_put) = Inr (lww_write ''A'' 1 ''v'', True)"
proof -
  have g: "fst (Replica_Get (nodeReplica (node_at after_put ''B'')) ''k'') = lww_write ''A'' 1 ''v''"
    "fst (ServeRead ''B'' ''A'' ''k'' after_put) = Inr (lww_write ''A'' 1 ''v'', True)" by code_simp+
  have w: "wire_value (lww_write ''A'' 1 ''v'')" by (simp add: wire_value_def lww_write_def byte_def)
  show ?thesis
    using http_read_equiv [OF sample_connects _ sample_id(2), of "''k''" after_put] g w
    by (auto simp: sample_id(1) byte_def split: prod.splits)
qed

theorem http_digest_equiv_witness:
  "fst (HTTP_GetDigest sample_lib sample_transport ''B'' after_put) = Inr (fmap_of_list [(''k'', lww_write ''A'' 1 ''v'')])"
proof -
  have "Replica_Snapshot (nodeReplica (node_at after_put ''B'')) = fmap_of_list [(''k'', lww_write ''A'' 1 ''v'')]" by code_simp
  moreover have "wire_value (lww_write ''A'' 1 ''v'')" by (simp add: wire_value_def lww_write_def byte_def)
  ultimately show ?thesis using http_digest_equiv [OF sample_connects, of after_put] by (simp add: byte_def)
qed

section \<open>Numbers in queries\<close>

lemma parse_digits_val:
  "parse_digits s (of_nat a) =
    (if list_all is_digit s then Some (of_nat (foldl (\<lambda>a c. 10 * a + (byte c - 48)) a s)) else None)"
proof (induction s arbitrary: a)
  case (Cons c s)
  have "of_nat a * 10 + of_nat (byte c - 48) = (of_nat (10 * a + (byte c - 48)) :: 64 word)" by simp
  then have "parse_digits (c # s) (of_nat a) =
      (if byte c < 48 \<or> 57 < byte c then None else parse_digits s (of_nat (10 * a + (byte c - 48))))"
    by (simp only: parse_digits.simps)
  then show ?case unfolding Cons.IH by (auto simp: is_digit_def [of c])
qed simp

text \<open>C29. The quorum sizes in a query string: a non-empty string of decimal digits is read as its value when that is
  below 2^63 and otherwise as its value wrapped into the signed 64-bit range, with success reported; anything
  else, signs and blanks included, is refused and leaves the target alone.\<close>

theorem parseInt_value:
  "parseInt s dst =
    (if s \<noteq> [] \<and> list_all is_digit s then
       (if digits_val s < 2 ^ 63 then ((int (digits_val s), True), int (digits_val s))
        else ((signed_take_bit 63 (int (digits_val s)), True), signed_take_bit 63 (int (digits_val s))))
     else ((0, False), dst))"
proof -
  have s: "sint (of_nat n :: 64 word) = signed_take_bit 63 (int n)" for n
    using sint_sbintrunc' [of "int n", where ?'a = 64] by simp
  have "signed_take_bit 63 (int n) = int n" if "n < 2 ^ 63" for n
    using that by (intro signed_take_bit_int_eq_self) simp_all
  then show ?thesis using parse_digits_val [of s 0] s by (auto simp: parseInt_def digits_val_def)
qed

end
