(* ===== verification/Agent_API.thy ===== *)
theory Agent_API
  imports HTTP_Cluster
begin

text \<open>
  \<^verbatim>\<open>internal/agentapi/memory.go\<close>: facts and tags of agents over the coordinator, on the node a \<open>Memory\<close> refers to.
  The schedule of the goroutines a call starts is an argument, as in the server. The main result carries the quorum
  guarantee up to the level of tags.
\<close>

section \<open>Operations\<close>

record Memory =
  memNode :: string

definition Memory_New :: "string \<Rightarrow> Memory" where
  "Memory_New n = \<lparr>memNode = n\<rparr>"

definition PutFact ::
  "Sched \<Rightarrow> Memory \<Rightarrow> string \<Rightarrow> string \<Rightarrow> string \<Rightarrow> Policy \<Rightarrow> int \<Rightarrow> Cluster \<Rightarrow> WriteResp option \<times> Cluster" where
  "PutFact sc m entity attribute value policy w =
     Write (memNode m)
       \<lparr>wqKey = FactKey entity attribute, wqData = Some value, wqPolicy = policy, wqW = w, wqClientTS = 0, wqORSetOp = '''',
        wqORSetElem = '''', wqTombstone = False\<rparr>
       (sc_order sc) (sc_timeout sc)"

definition GetFact :: "Sched \<Rightarrow> Memory \<Rightarrow> string \<Rightarrow> string \<Rightarrow> int \<Rightarrow> Cluster \<Rightarrow> ReadResp option \<times> Cluster" where
  "GetFact sc m entity attribute r =
     Read (memNode m) \<lparr>rqKey = FactKey entity attribute, rqR = r\<rparr> (sc_order sc) (sc_timeout sc) (sc_late sc)"

definition GetFacts :: "Memory \<Rightarrow> string \<Rightarrow> int \<Rightarrow> Cluster \<Rightarrow> (string, Value) fmap" where
  "GetFacts m entity r cl = KV_Prefix (repKV (nodeReplica (node_at cl (memNode m)))) (entity @ '':'')"

definition AddTag :: "Sched \<Rightarrow> Memory \<Rightarrow> string \<Rightarrow> string \<Rightarrow> int \<Rightarrow> Cluster \<Rightarrow> WriteResp option \<times> Cluster" where
  "AddTag sc m entity tag w =
     Write (memNode m)
       \<lparr>wqKey = FactKey entity ''tags'', wqData = None, wqPolicy = PolicyCRDTORSet, wqW = w, wqClientTS = 0, wqORSetOp = ''add'',
        wqORSetElem = tag, wqTombstone = False\<rparr>
       (sc_order sc) (sc_timeout sc)"

definition RemoveTag :: "Sched \<Rightarrow> Memory \<Rightarrow> string \<Rightarrow> string \<Rightarrow> int \<Rightarrow> Cluster \<Rightarrow> WriteResp option \<times> Cluster" where
  "RemoveTag sc m entity tag w =
     Write (memNode m)
       \<lparr>wqKey = FactKey entity ''tags'', wqData = None, wqPolicy = PolicyCRDTORSet, wqW = w, wqClientTS = 0, wqORSetOp = ''remove'',
        wqORSetElem = tag, wqTombstone = False\<rparr>
       (sc_order sc) (sc_timeout sc)"

definition GetTags :: "Sched \<Rightarrow> Memory \<Rightarrow> string \<Rightarrow> int \<Rightarrow> Cluster \<Rightarrow> (string list \<times> ReadResp) option \<times> Cluster" where
  "GetTags sc m entity r cl =
     (let (resp, cl) = GetFact sc m entity ''tags'' r cl in
      (map_option (\<lambda>x. if \<not> rrFound x then ([], x) else (ORSetElements (rrValue x), x)) resp, cl))"

definition GetHistory :: "Memory \<Rightarrow> string \<Rightarrow> string \<Rightarrow> Cluster \<Rightarrow> HistoryEntry list" where
  "GetHistory m entity attribute cl = Replica_History (nodeReplica (node_at cl (memNode m))) (FactKey entity attribute)"

definition DecodeString :: "Value \<Rightarrow> string" where
  "DecodeString v =
     (if Policy v = PolicyCRDTORSet then json_print (json_of_strings (ORSetElements v)) else bytes (Data v))"

section \<open>What a tag's add leaves in the set\<close>

lemma below_orset_tag:
  assumes "wf_orset_value a" "wf_orset_value b" "below a b" "tag_on (index (Adds (decodeORSet a)) e) t"
  shows "tag_on (index (Adds (decodeORSet b)) e) t"
proof -
  obtain s v where a: "wf_orset s" "a = encodeORSet s v" using assms(1) by (rule wf_orset_value_cases)
  obtain u w where b: "wf_orset u" "b = encodeORSet u w" using assms(2) by (rule wf_orset_value_cases)
  have "encodeORSet (mergeORSetStates s u) (max v w) = encodeORSet u w"
    using assms(1-3) a b by (simp add: below_def Resolve_orset merge_simps)
  then have "decodeORSet (encodeORSet (mergeORSetStates s u) (max v w)) = u" using b(1) by (simp add: merge_simps)
  then have m: "mergeORSetStates s u = u" using a(1) b(1) by (simp add: merge_simps wf_merge)
  have "t \<in> on_tags (index (Adds s) e)" using assms(4) a by (simp add: on_tags_def merge_simps)
  then have "t \<in> on_tags (index (Adds (mergeORSetStates s u)) e)"
    by (auto simp: on_tags_index merge_view opt_union_def split: option.splits)
  then show ?thesis using m b by (simp add: on_tags_def merge_simps)
qed

lemma Contains_iff_mark:
  assumes "wf_orset s"
  shows "Contains s e \<longleftrightarrow> (\<exists>t. tag_on (index (Adds s) e) t \<and> \<not> tag_on (index (Rems s) e) t)"
proof -
  have "set (map fst (entries (index (Adds s) e))) = {t. tag_on (index (Adds s) e) t}"
    using adds_keys [of "Adds s" e] assms by (simp only: wf_orset_def on_tags_def)
  then show ?thesis by (auto simp: Contains_def list_ex_iff simp del: set_map)
qed
lemma add_tag_on:
  assumes "found \<Longrightarrow> wf_orset_value c" "valid_utf8 e" "valid_utf8 t"
  shows "tag_on (index (Adds (decodeORSet (ApplyORSetOp c found ''add'' e t ver))) e) t"
proof -
  let ?s = "if found then decodeORSet c else emptyORSet"
  have w: "wf_orset ?s" using assms(1) by (auto simp: wf_orset_value_def wf_empty)
  have "ApplyORSetOp c found ''add'' e t ver = encodeORSet (Add ?s e t) ver" by (simp add: ApplyORSetOp_def Let_def)
  moreover have "t \<in> on_tags (index (Adds (Add ?s e t)) e)"
    by (auto simp: on_tags_index Add_def set_tag_view opt_union_def split: option.splits)
  ultimately show ?thesis using wf_Add [OF w assms(2,3)] by (simp add: merge_simps on_tags_def)
qed

section \<open>Properties\<close>

lemma nextORSetTag_replica: "fst (nextORSetTag (n\<lparr>nodeReplica := r\<rparr>)) = fst (nextORSetTag n)"
  by (simp add: nextORSetTag_def)

text \<open>C6. An acknowledged tag is found by every later overlapping read of the entity's tags, whatever the cluster went
  through in between: the mark its add was given is recorded in the value read, and the list shows the tag exactly when
  one of the tag's recorded marks is not tombstoned there. So the tag is listed unless the mark of its add is tombstoned
  in the value read. A remove that saw the mark tombstones it; so does a remove that came before, when a node that
  restarted hands out a mark it had used already (see \<open>orset_reused_tag_lost\<close>).\<close>
theorem tags_visible:
  assumes "cluster_ok pol cl" "node_of cl (memNode m) = Some n" "clock_t (repClock (nodeReplica n)) + 1 \<noteq> 0"
    and "pol (FactKey entity ''tags'') = PolicyCRDTORSet" "valid_utf8 tag"
    and "distinct (IDs ms)" "distinct (sc_order sc)" "distinct (sc_order sc')" "set (sc_order sc) \<subseteq> set (IDs ms)"
      "set (sc_order sc') \<subseteq> set (IDs ms)" "w + r > N ms"
    and "AddTag sc m entity tag w cl = (Some resp, cl1)" "wrOK resp" "(step pol)\<^sup>*\<^sup>* cl1 cl2"
    and "node_of cl2 (memNode m') \<noteq> None" "GetTags sc' m' entity r cl2 = (Some (tags, rresp), cl3)" "rrError rresp = ''''"
  shows "tag_on (index (Adds (decodeORSet (rrValue rresp))) tag) (fst (nextORSetTag n)) \<and>
    (tag \<in> set tags \<longleftrightarrow> (\<exists>mark. tag_on (index (Adds (decodeORSet (rrValue rresp))) tag) mark \<and>
      \<not> tag_on (index (Rems (decodeORSet (rrValue rresp))) tag) mark)) \<and>
    (tag \<in> set tags \<or> tag_on (index (Rems (decodeORSet (rrValue rresp))) tag) (fst (nextORSetTag n)))"
proof -
  let ?k = "FactKey entity ''tags''" and ?t = "fst (nextORSetTag n)"
  define req where "req = \<lparr>wqKey = ?k, wqData = None, wqPolicy = PolicyCRDTORSet, wqW = w, wqClientTS = 0, wqORSetOp = ''add'',
    wqORSetElem = tag, wqTombstone = False\<rparr>"
  have W: "Write (memNode m) req (sc_order sc) (sc_timeout sc) cl = (Some resp, cl1)"
    using assms(12) by (simp add: AddTag_def req_def)
  have rok: "req_ok pol req" using assms(4,5) by (simp add: req_ok_def req_def norm_policy_def)
  obtain cl3' where R: "Read (memNode m') \<lparr>rqKey = ?k, rqR = r\<rparr> (sc_order sc') (sc_timeout sc') (sc_late sc') cl2 = (Some rresp, cl3')"
    and tags: "tags = (if rrFound rresp then ORSetElements (rrValue rresp) else [])"
    using assms(16) by (auto simp: GetTags_def GetFact_def case_prod_unfold Let_def split: if_splits) (metis prod.collapse)+
  have q: "wqW req + rqR \<lparr>rqKey = ?k, rqR = r\<rparr> > N ms" "rqKey \<lparr>rqKey = ?k, rqR = r\<rparr> = wqKey req"
    using assms(11) by (simp_all add: req_def)
  note seen = overlapping_read_sees [OF assms(1,2) rok assms(3,6-10) q W assms(13,14,15) R assms(17)]
  note b = write_begin_facts [OF assms(1,2) rok assms(3)]
  let ?v = "snd (fst (write_begin (memNode m) req cl))"
  have wf: "wf_orset_value ?v" "wf_orset_value (rrValue rresp)"
    using b(3) seen(1) assms(4) by (simp_all add: req_def wf_pol_simps)
  have ok: "node_ok pol (memNode m) n" by (rule node_ok_of [OF assms(1,2)])
  have cur: "wf_orset_value (fst (Replica_Get (nodeReplica n) ?k))" if "snd (Replica_Get (nodeReplica n) ?k)"
    using that ok assms(4) Get_held [OF sound_typed, of pol "nodeReplica n" ?k]
    by (auto simp: node_ok_def sound_def typed_def wf_pol_simps split: option.splits) (metis wf_pol_simps(3))
  have "\<exists>ver. ?v = ApplyORSetOp (fst (Replica_Get (nodeReplica n) ?k)) (snd (Replica_Get (nodeReplica n) ?k)) ''add'' tag ?t ver"
    by (auto simp: write_begin_def node_at_of [OF assms(2)] localPrepare_def req_def Let_def case_prod_unfold nextORSetTag_replica Replica_Get_def)
  then have "tag_on (index (Adds (decodeORSet ?v)) tag) ?t"
    using add_tag_on [OF cur assms(5) tag_utf8 [of n]] ok by (auto simp: node_ok_def)
  then have a: "tag_on (index (Adds (decodeORSet (rrValue rresp))) tag) ?t" by (rule below_orset_tag [OF wf seen(2)])
  have "\<not> Tombstone (rrValue rresp)" using wf(2) by (auto elim!: wf_orset_value_cases)
  then have "set tags = {e. Contains (decodeORSet (rrValue rresp)) e}"
    using seen(4) tags by (simp add: ORSetElements_def Elements_props)
  moreover have "Contains (decodeORSet (rrValue rresp)) tag \<longleftrightarrow> (\<exists>mark. tag_on (index (Adds (decodeORSet (rrValue rresp))) tag) mark \<and>
      \<not> tag_on (index (Rems (decodeORSet (rrValue rresp))) tag) mark)"
    using wf(2) by (intro Contains_iff_mark) (simp add: wf_orset_value_def)
  ultimately show ?thesis using a by blast
qed

definition tag_sched :: "string list \<Rightarrow> Sched" where
  "tag_sched ids = \<lparr>sc_order = ids, sc_timeout = None, sc_late = [], sc_meanwhile = (\<lambda>_. [])\<rparr>"

definition tagged :: Cluster where
  "tagged = snd (AddTag (tag_sched [''A'', ''B'']) (Memory_New ''A'') ''e'' ''x'' 2 (fresh_cluster three))"

lemma tagged_answers:
  "map_option wrOK (fst (AddTag (tag_sched [''A'', ''B'']) (Memory_New ''A'') ''e'' ''x'' 2 (fresh_cluster three))) = Some True"
  "map_option (\<lambda>(ts, x). (ts, rrError x)) (fst (GetTags (tag_sched [''C'', ''B'']) (Memory_New ''C'') ''e'' 2 tagged)) = Some ([''x''], '''')"
  "node_of tagged ''C'' \<noteq> None"
  by code_simp+

theorem tags_visible_witness:
  "\<exists>tags rresp cl3. GetTags (tag_sched [''C'', ''B'']) (Memory_New ''C'') ''e'' 2 tagged = (Some (tags, rresp), cl3) \<and>
     tag_on (index (Adds (decodeORSet (rrValue rresp))) ''x'') (fst (nextORSetTag (fresh_node three ''A''))) \<and>
     (''x'' \<in> set tags \<longleftrightarrow> (\<exists>mark. tag_on (index (Adds (decodeORSet (rrValue rresp))) ''x'') mark \<and>
       \<not> tag_on (index (Rems (decodeORSet (rrValue rresp))) ''x'') mark)) \<and> tags = [''x'']"
proof -
  obtain resp where W: "AddTag (tag_sched [''A'', ''B'']) (Memory_New ''A'') ''e'' ''x'' 2 (fresh_cluster three) = (Some resp, tagged)" "wrOK resp"
    using tagged_answers(1) unfolding tagged_def by (auto simp: prod_eq_iff)
  obtain tags rresp cl3 where R: "GetTags (tag_sched [''C'', ''B'']) (Memory_New ''C'') ''e'' 2 tagged = (Some (tags, rresp), cl3)" "rrError rresp = ''''"
    "tags = [''x'']"
    using tagged_answers(2) by (auto simp: prod_eq_iff)
  have A: "node_of (fresh_cluster three) (memNode (Memory_New ''A'')) = Some (fresh_node three ''A'')"
    "node_of tagged (memNode (Memory_New ''C'')) \<noteq> None" using put_start(1) tagged_answers(3) by (simp_all add: Memory_New_def)
  have "tag_on (index (Adds (decodeORSet (rrValue rresp))) ''x'') (fst (nextORSetTag (fresh_node three ''A''))) \<and>
     (''x'' \<in> set tags \<longleftrightarrow> (\<exists>mark. tag_on (index (Adds (decodeORSet (rrValue rresp))) ''x'') mark \<and>
       \<not> tag_on (index (Rems (decodeORSet (rrValue rresp))) ''x'') mark)) \<and>
     (''x'' \<in> set tags \<or> tag_on (index (Rems (decodeORSet (rrValue rresp))) ''x'') (fst (nextORSetTag (fresh_node three ''A''))))"
    by (rule tags_visible [where pol = "\<lambda>_. PolicyCRDTORSet" and ms = three, OF three_ok(1) A(1) put_start(2) refl _ three_ok(2) _ _ _ _ _ W
        rtranclp.rtrancl_refl A(2) R(1,2)])
      (simp_all add: tag_sched_def three_ok(3) N_three byte_def)
  then show ?thesis using R(1,3) by blast
qed

end
