(* ===== verification/Commands.thy ===== *)
theory Commands
  imports Agent_API
begin

text \<open>
  The two programs: \<^verbatim>\<open>cmd/memctl/main.go\<close>, the command line client, and \<^verbatim>\<open>cmd/node/main.go\<close>, which wires a
  node together. Parsing of the command line by Go's \<^verbatim>\<open>flag\<close> package is not modelled: the commands take the values of
  the flags. Printing and exiting are results.
\<close>

section \<open>The command line client\<close>

record Flags =
  flKey :: string
  flData :: string
  flEntity :: string
  flAttr :: string
  flValue :: string
  flTag :: string
  flW :: int
  flR :: int
  flPolicy :: string

text \<open>The flags of every command and their defaults; a command line sets some of them.\<close>

definition default_flags :: Flags where
  "default_flags =
     \<lparr>flKey = '''', flData = '''', flEntity = '''', flAttr = '''', flValue = '''', flTag = '''', flW = 2, flR = 2, flPolicy = ''LWW''\<rparr>"

datatype memctl_error = BadRequest | DoFailed | BadStatus nat

text \<open>One request: what is printed (status and body) and the error.\<close>

definition dump :: "'s http_lib \<Rightarrow> string \<Rightarrow> string \<Rightarrow> json option \<Rightarrow> 's \<Rightarrow> ((nat \<times> string) option \<times> memctl_error option) \<times> 's" where
  "dump lib method u body s =
     (case send lib method u (case body of None \<Rightarrow> '''' | Some j \<Rightarrow> json_print j) s of
        (Inl e, s) \<Rightarrow> ((None, Some (if e = HBadURL then BadRequest else DoFailed)), s)
      | (Inr resp, s) \<Rightarrow>
          ((Some (respStatus resp, respBody resp), if respStatus resp \<ge> 300 then Some (BadStatus (respStatus resp)) else None), s))"

definition cmdWrite :: "'s http_lib \<Rightarrow> string \<Rightarrow> Flags \<Rightarrow> 's \<Rightarrow> ((nat \<times> string) option \<times> memctl_error option) \<times> 's" where
  "cmdWrite lib addr fl =
     dump lib ''POST'' (addr @ ''/write'')
       (Some (JObj [(''data'', JStr (flData fl)), (''key'', JStr (flKey fl)), (''policy'', JStr (flPolicy fl)), (''w'', json_of_int (flW fl))]))"

definition cmdRead :: "'s http_lib \<Rightarrow> string \<Rightarrow> Flags \<Rightarrow> 's \<Rightarrow> ((nat \<times> string) option \<times> memctl_error option) \<times> 's" where
  "cmdRead lib addr fl = dump lib ''GET'' (addr @ ''/read?key='' @ flKey fl @ ''&r='' @ itoa (flR fl)) None"

definition cmdFact :: "'s http_lib \<Rightarrow> string \<Rightarrow> Flags \<Rightarrow> bool \<Rightarrow> 's \<Rightarrow> ((nat \<times> string) option \<times> memctl_error option) \<times> 's" where
  "cmdFact lib addr fl get =
     (if get then
        dump lib ''GET'' (addr @ ''/fact?entity='' @ flEntity fl @ ''&attribute='' @ flAttr fl @ ''&r='' @ itoa (flR fl)) None
      else
        dump lib ''POST'' (addr @ ''/fact'')
          (Some (JObj [(''attribute'', JStr (flAttr fl)), (''entity'', JStr (flEntity fl)), (''policy'', JStr (flPolicy fl)),
             (''value'', JStr (flValue fl)), (''w'', json_of_int (flW fl))])))"

definition cmdTag :: "'s http_lib \<Rightarrow> string \<Rightarrow> Flags \<Rightarrow> string \<Rightarrow> 's \<Rightarrow> ((nat \<times> string) option \<times> memctl_error option) \<times> 's" where
  "cmdTag lib addr fl method =
     dump lib method (addr @ ''/tag'')
       (Some (JObj [(''entity'', JStr (flEntity fl)), (''tag'', JStr (flTag fl)), (''w'', json_of_int (flW fl))]))"

definition cmdHistory :: "'s http_lib \<Rightarrow> string \<Rightarrow> Flags \<Rightarrow> 's \<Rightarrow> ((nat \<times> string) option \<times> memctl_error option) \<times> 's" where
  "cmdHistory lib addr fl = dump lib ''GET'' (addr @ ''/history?key='' @ flKey fl) None"

definition env_or :: "(string \<Rightarrow> string) \<Rightarrow> string \<Rightarrow> string \<Rightarrow> string" where
  "env_or getenv key fallback = (if getenv key \<noteq> '''' then getenv key else fallback)"

text \<open>
  The command and its flags: \<open>addr_flag\<close> is the global \<^verbatim>\<open>-addr\<close> flag when it is given, \<open>parse\<close> the command's flag
  set on the remaining arguments (\<^verbatim>\<open>flag.ExitOnError\<close>: it gives the flags or ends the process with a code). The
  result is what was printed on standard output and the exit code.
\<close>

definition command ::
  "'s http_lib \<Rightarrow> string \<Rightarrow> string \<Rightarrow> (Flags \<Rightarrow> 's \<Rightarrow> ((nat \<times> string) option \<times> memctl_error option) \<times> 's) option" where
  "command lib addr cmd =
     (if cmd = ''write'' then Some (cmdWrite lib addr)
      else if cmd = ''read'' then Some (cmdRead lib addr)
      else if cmd = ''put-fact'' then Some (\<lambda>fl. cmdFact lib addr fl False)
      else if cmd = ''get-fact'' then Some (\<lambda>fl. cmdFact lib addr fl True)
      else if cmd = ''add-tag'' then Some (\<lambda>fl. cmdTag lib addr fl ''POST'')
      else if cmd = ''remove-tag'' then Some (\<lambda>fl. cmdTag lib addr fl ''DELETE'')
      else if cmd = ''history'' then Some (cmdHistory lib addr)
      else None)"

definition memctl_main ::
  "'s http_lib \<Rightarrow> (string \<Rightarrow> string) \<Rightarrow> string option \<Rightarrow> (string \<Rightarrow> string list \<Rightarrow> nat + Flags) \<Rightarrow> string list \<Rightarrow> 's \<Rightarrow>
   ((nat \<times> string) option \<times> nat) \<times> 's" where
  "memctl_main lib getenv addr_flag parse args s =
     (let addr = (case addr_flag of None \<Rightarrow> env_or getenv ''MEM_ADDR'' ''http://127.0.0.1:8081'' | Some a \<Rightarrow> a);
          finish = (\<lambda>((out, err), s). ((out, if err = None then 0 else 1), s))
      in case args of
        [] \<Rightarrow> ((None, 2), s)
      | cmd # rest \<Rightarrow>
          (if cmd = ''health'' then finish (dump lib ''GET'' (addr @ ''/health'') None s)
           else
             (case command lib addr cmd of
                None \<Rightarrow> ((None, 2), s)
              | Some f \<Rightarrow> (case parse cmd rest of Inl code \<Rightarrow> ((None, code), s) | Inr fl \<Rightarrow> finish (f fl s)))))"

lemma dump_report: "dump lib m u b s = ((out, err), s') \<Longrightarrow> err = None \<longleftrightarrow> (\<exists>st body. out = Some (st, body) \<and> st < 300)"
  by (auto simp: dump_def split: prod.splits sum.splits if_splits)

lemma cmd_dump:
  "\<exists>m u b. cmdWrite lib addr fl = dump lib m u b" "\<exists>m u b. cmdRead lib addr fl = dump lib m u b"
  "\<exists>m u b. cmdFact lib addr fl get = dump lib m u b" "\<exists>m u b. cmdTag lib addr fl method = dump lib m u b"
  "\<exists>m u b. cmdHistory lib addr fl = dump lib m u b"
  unfolding cmdWrite_def cmdRead_def cmdFact_def cmdTag_def cmdHistory_def by metis+

lemma command_dump: "command lib addr cmd = Some f \<Longrightarrow> \<exists>m u b. f fl = dump lib m u b"
  using cmd_dump by (auto simp: command_def split: if_splits)

lemma command_report:
  "command lib addr cmd = Some f \<Longrightarrow> f fl s = ((out, err), s') \<Longrightarrow> err = None \<longleftrightarrow> (\<exists>st body. out = Some (st, body) \<and> st < 300)"
  using command_dump [of lib addr cmd f fl] dump_report by metis

text \<open>C26. The exit code of memctl says what happened: without a command it knows it ends with 2 and sends nothing, bad
  flags end it with the code of the flag package and nothing is sent, and otherwise it ends with 0 exactly when a
  response with a status below 300 was received and printed, and with 1 in every other case.\<close>

theorem memctl_exit:
  "let result = memctl_main lib getenv addr_flag parse args s
   in if args = [] \<or> hd args \<notin> set [''write'', ''read'', ''put-fact'', ''get-fact'', ''add-tag'', ''remove-tag'', ''history'', ''health'']
      then result = ((None, 2), s)
      else if hd args \<noteq> ''health'' \<and> isl (parse (hd args) (tl args)) then result = ((None, projl (parse (hd args) (tl args))), s)
      else snd (fst result) = (if \<exists>st body. fst (fst result) = Some (st, body) \<and> st < 300 then 0 else 1)"
proof (cases args)
  case (Cons cmd rest)
  define addr where "addr = (case addr_flag of None \<Rightarrow> env_or getenv ''MEM_ADDR'' ''http://127.0.0.1:8081'' | Some a \<Rightarrow> a)"
  note main = memctl_main_def [of lib getenv addr_flag parse "cmd # rest" s, folded addr_def, unfolded Let_def list.case]
  have known: "command lib addr cmd = None \<longleftrightarrow>
      cmd \<notin> set [''write'', ''read'', ''put-fact'', ''get-fact'', ''add-tag'', ''remove-tag'', ''history'']"
    by (simp add: command_def)
  show ?thesis
  proof (cases "cmd = ''health''")
    case True
    obtain out err s' where d: "dump lib ''GET'' (addr @ ''/health'') None s = ((out, err), s')" by (metis prod.exhaust)
    have "memctl_main lib getenv addr_flag parse (cmd # rest) s = ((out, if err = None then 0 else 1), s')"
      unfolding main using True by (simp add: d)
    then show ?thesis using True dump_report [OF d] by (simp add: Cons)
  next
    case False
    show ?thesis
    proof (cases "command lib addr cmd")
      case None
      then have "cmd \<notin> set [''write'', ''read'', ''put-fact'', ''get-fact'', ''add-tag'', ''remove-tag'', ''history'', ''health'']"
        using known False by simp
      then show ?thesis using None False by (simp add: Let_def main Cons)
    next
      case (Some f)
      then have k: "cmd \<in> set [''write'', ''read'', ''put-fact'', ''get-fact'', ''add-tag'', ''remove-tag'', ''history'', ''health'']"
        using known by auto
      show ?thesis
      proof (cases "parse cmd rest")
        case (Inl code)
        then show ?thesis using k Some False by (simp add: Let_def main Cons)
      next
        case (Inr fl)
        obtain out err s' where d: "f fl s = ((out, err), s')" by (metis prod.exhaust)
        from k show ?thesis using Some False Inr d command_report [OF Some d] by (simp add: Let_def main Cons)
      qed
    qed
  qed
qed (simp add: memctl_main_def)

section \<open>Commands reach the API\<close>

definition serves :: "Cluster http_lib \<Rightarrow> Texts \<Rightarrow> Sched \<Rightarrow> string \<Rightarrow> string \<Rightarrow> bool" where
  "serves lib tx sc c addr \<longleftrightarrow> (\<forall>path \<in> set (map fst mux_routes). carries lib tx sc c (addr @ path) path)"

lemma serves_send:
  assumes "serves lib tx sc c addr" "map_of mux_routes path = Some ep"
  shows "send lib m (addr @ path) b cl =
      received (run_endpoint tx sc c ep \<lparr>reqMethod = m, reqPath = path, reqQuery = [], reqBody = b\<rparr> (None, cl))"
  using carries_send [OF _ assms(2)] assms(1) route_path [OF assms(2)] by (auto simp: serves_def)

lemma client_names [simp]:
  "names ''entity'' ''entity''" "\<not> names ''entity'' ''attribute''" "names ''attribute'' ''attribute''" "\<not> names ''entity'' ''policy''"
  "\<not> names ''attribute'' ''policy''" "\<not> names ''value'' ''policy''" "\<not> names ''entity'' ''value''" "\<not> names ''attribute'' ''value''"
  "\<not> names ''entity'' ''w''" "\<not> names ''attribute'' ''w''" "\<not> names ''value'' ''w''" "\<not> names ''policy'' ''w''" "names ''w'' ''w''"
  "\<not> names ''entity'' ''tag''" "names ''tag'' ''tag''" "\<not> names ''tag'' ''w''" "\<not> names ''key'' ''data''"
  "\<not> names ''key'' ''policy''" "\<not> names ''key'' ''w''" "\<not> names ''data'' ''w''" "\<not> names ''data'' ''policy''"
  by (simp_all add: names_def in_range_def byte_def)

lemma client_utf8 [simp]:
  "valid_utf8 ''entity''" "valid_utf8 ''attribute''" "valid_utf8 ''w''" "valid_utf8 ''tag''"
  by (simp_all add: byte_def)

lemma wf_json_int: "0 \<le> i \<Longrightarrow> wf_json (json_of_int i)" "nests d (json_of_int i)"
  by (simp_all add: json_of_int_def itoa_def itoa_nat_val)

lemma into_json_int: "0 \<le> i \<Longrightarrow> i < 2 ^ 63 \<Longrightarrow> into_int (json_of_int i) old = (i, False)"
  by (simp add: json_of_int_def into_int_itoa)

lemma Decode_fact:
  assumes "valid_utf8 e" "valid_utf8 a" "valid_utf8 v" "valid_utf8 p" "0 \<le> w" "w < 2 ^ 63"
  shows "Decode (into_struct factReq_member) (json_print (JObj [(''attribute'', JStr a), (''entity'', JStr e), (''policy'', JStr p),
      (''value'', JStr v), (''w'', json_of_int w)])) \<lparr>fqEntity = '''', fqAttribute = '''', fqValue = '''', fqPolicy = '''', fqW = 0\<rparr> =
    (\<lparr>fqEntity = e, fqAttribute = a, fqValue = v, fqPolicy = p, fqW = w\<rparr>, None)"
proof -
  let ?j = "JObj [(''attribute'', JStr a), (''entity'', JStr e), (''policy'', JStr p), (''value'', JStr v), (''w'', json_of_int w)]"
  have "wf_json ?j \<and> nests max_nesting ?j" using assms by (simp add: wf_json_int)
  from Decode_print [OF this, of "[]" "into_struct factReq_member"] show ?thesis
    using into_json_int [OF assms(5,6)] by (simp add: into_struct_def factReq_member_def field_def into_simps)
qed

lemma Decode_tag:
  assumes "valid_utf8 e" "valid_utf8 t" "0 \<le> w" "w < 2 ^ 63"
  shows "Decode (into_struct tagReq_member) (json_print (JObj [(''entity'', JStr e), (''tag'', JStr t), (''w'', json_of_int w)])) zero_tagReq =
    (\<lparr>tqEntity = e, tqTag = t, tqW = w\<rparr>, None)"
proof -
  let ?j = "JObj [(''entity'', JStr e), (''tag'', JStr t), (''w'', json_of_int w)]"
  have "wf_json ?j \<and> nests max_nesting ?j" using assms by (simp add: wf_json_int)
  from Decode_print [OF this, of "[]" "into_struct tagReq_member"] show ?thesis
    using into_json_int [OF assms(3,4)] by (simp add: into_struct_def tagReq_member_def field_def into_simps)
qed

lemma Decode_write:
  assumes "valid_utf8 k" "valid_utf8 d" "valid_utf8 p" "0 \<le> w" "w < 2 ^ 63"
  shows "Decode (into_struct writeJSONReq_member)
      (json_print (JObj [(''data'', JStr d), (''key'', JStr k), (''policy'', JStr p), (''w'', json_of_int w)])) zero_writeJSONReq =
    (zero_writeJSONReq\<lparr>wjKey := k, wjData := d, wjPolicy := p, wjW := w\<rparr>, None)"
proof -
  let ?j = "JObj [(''data'', JStr d), (''key'', JStr k), (''policy'', JStr p), (''w'', json_of_int w)]"
  have "wf_json ?j \<and> nests max_nesting ?j" using assms by (simp add: wf_json_int)
  from Decode_print [OF this, of "[]" "into_struct writeJSONReq_member"] show ?thesis
    using into_json_int [OF assms(4,5)] by (simp add: into_struct_def writeJSONReq_member_def field_def into_simps)
qed

text \<open>What the client prints and reports of a write's answer.\<close>

definition shown :: "WriteResp option \<times> Cluster \<Rightarrow> ((nat \<times> string) option \<times> memctl_error option) \<times> Cluster" where
  "shown res =
     (case res of
        (None, cl) \<Rightarrow> ((None, Some DoFailed), cl)
      | (Some r, cl) \<Rightarrow>
          (if wrOK r then ((Some (200, json_print (json_of_WriteResp r) @ [nl]), None), cl)
           else ((Some (503, json_print (json_of_WriteResp r) @ [nl]), Some (BadStatus 503)), cl)))"

lemma dump_answer:
  assumes "send lib m u (json_print j) cl = received (case answer_write res of (x, cl') \<Rightarrow> (x, None, cl'))"
  shows "dump lib m u (Some j) cl = shown res"
  using assms by (cases res; cases "fst res") (auto simp: dump_def received_def answer_write_def shown_def writeJSON_def)

lemma client_routes:
  "map_of mux_routes ''/write'' = Some WriteEP" "map_of mux_routes ''/fact'' = Some FactEP"
  "map_of mux_routes ''/tag'' = Some TagEP"
  by (simp_all add: mux_routes_def)

text \<open>C16. The command line does what the API does: through the JSON body, the routing and the handler, put-fact is
  \<^verbatim>\<open>PutFact\<close>, add-tag is \<^verbatim>\<open>AddTag\<close> and remove-tag is \<^verbatim>\<open>RemoveTag\<close> with the flags as given, and the exit reports
  whether the quorum was reached. Three spellings each name the register and the set policy; every other policy
  string, also one \<^verbatim>\<open>ParsePolicy\<close> refuses, writes the fact as last-writer-wins.\<close>

theorem memctl_api:
  assumes "serves lib tx sc c addr" "valid_utf8 (flEntity fl)" "valid_utf8 (flAttr fl)" "valid_utf8 (flValue fl)"
    and "valid_utf8 (flPolicy fl)" "valid_utf8 (flTag fl)" "0 < flW fl" "flW fl < 2 ^ 63"
  shows "cmdFact lib addr fl False cl =
      shown (PutFact sc (Memory_New c) (flEntity fl) (flAttr fl) (flValue fl)
        (if flPolicy fl \<in> {''CRDT_LWWREG'', ''crdt_lwwreg'', ''lwwreg''} then PolicyCRDTLWWReg
         else if flPolicy fl \<in> {''CRDT_ORSET'', ''crdt_orset'', ''orset''} then PolicyCRDTORSet else PolicyLWW) (flW fl) cl) \<and>
    cmdTag lib addr fl ''POST'' cl = shown (AddTag sc (Memory_New c) (flEntity fl) (flTag fl) (flW fl) cl) \<and>
    cmdTag lib addr fl ''DELETE'' cl = shown (RemoveTag sc (Memory_New c) (flEntity fl) (flTag fl) (flW fl) cl)"
proof -
  note s = serves_send [OF assms(1) client_routes(2)] serves_send [OF assms(1) client_routes(3)]
  note f = Decode_fact [OF assms(2-5), of "flW fl"] and t = Decode_tag [OF assms(2,6), of "flW fl"]
  have p: "fst (ParsePolicy (flPolicy fl)) =
      (if flPolicy fl \<in> {''CRDT_LWWREG'', ''crdt_lwwreg'', ''lwwreg''} then PolicyCRDTLWWReg
       else if flPolicy fl \<in> {''CRDT_ORSET'', ''crdt_orset'', ''orset''} then PolicyCRDTORSet else PolicyLWW)"
    by (simp add: ParsePolicy_def)
  have "cmdFact lib addr fl False cl =
      shown (PutFact sc (Memory_New c) (flEntity fl) (flAttr fl) (flValue fl) (fst (ParsePolicy (flPolicy fl))) (flW fl) cl)"
    unfolding cmdFact_def if_False
    by (rule dump_answer) (use f assms(7,8) in \<open>simp add: s run_endpoint_def handleFact_def readJSON_def PutFact_def
      Memory_New_def FactKey_def case_prod_unfold Let_def\<close>)
  moreover have "cmdTag lib addr fl ''POST'' cl = shown (AddTag sc (Memory_New c) (flEntity fl) (flTag fl) (flW fl) cl)"
    unfolding cmdTag_def
    by (rule dump_answer) (use t assms(7,8) in \<open>simp add: s run_endpoint_def handleTag_def readJSON_def AddTag_def
      Memory_New_def FactKey_def case_prod_unfold Let_def\<close>)
  moreover have "cmdTag lib addr fl ''DELETE'' cl = shown (RemoveTag sc (Memory_New c) (flEntity fl) (flTag fl) (flW fl) cl)"
    unfolding cmdTag_def
    by (rule dump_answer) (use t assms(7,8) in \<open>simp add: s run_endpoint_def handleTag_def readJSON_def RemoveTag_def
      Memory_New_def FactKey_def case_prod_unfold Let_def\<close>)
  ultimately show ?thesis unfolding p by (intro conjI)
qed

text \<open>C17. memctl write runs exactly one coordinator write of the key and data given, under the policy named, and
  reports its answer; a policy the store does not know is answered with status 400, exit code 1, and nothing is
  written.\<close>

theorem memctl_write:
  assumes "serves lib tx sc c addr" "valid_utf8 (flKey fl)" "valid_utf8 (flData fl)" "valid_utf8 (flPolicy fl)"
    and "0 \<le> flW fl" "flW fl < 2 ^ 63"
  shows "cmdWrite lib addr fl cl =
    (case ParsePolicy (flPolicy fl) of
       (pol, None) \<Rightarrow> shown (Write c \<lparr>wqKey = flKey fl, wqData = Some (flData fl), wqPolicy = pol, wqW = flW fl, wqClientTS = 0,
         wqORSetOp = '''', wqORSetElem = '''', wqTombstone = False\<rparr> (sc_order sc) (sc_timeout sc) cl)
     | (_, Some e) \<Rightarrow> ((Some (400, json_print (error_json (policy_error_text tx e)) @ [nl]), Some (BadStatus 400)), cl))"
proof (cases "snd (ParsePolicy (flPolicy fl))")
  case None
  then obtain pol where p: "ParsePolicy (flPolicy fl) = (pol, None)" by (metis prod.collapse)
  show ?thesis
    unfolding cmdWrite_def p prod.case option.case
    by (rule dump_answer) (use Decode_write [OF assms(2-6)] p in \<open>simp add: serves_send [OF assms(1) client_routes(1)] run_endpoint_def
      handleWrite_def readJSON_def case_prod_unfold Let_def\<close>)
next
  case (Some e)
  then obtain pol where p: "ParsePolicy (flPolicy fl) = (pol, Some e)" by (metis prod.collapse)
  show ?thesis
    using Decode_write [OF assms(2-6)] p
    by (simp add: cmdWrite_def dump_def serves_send [OF assms(1) client_routes(1)] run_endpoint_def handleWrite_def readJSON_def
      received_def writeJSON_def)
qed

definition local_lib :: "Cluster http_lib" where
  "local_lib =
     \<lparr>lib_parse = (\<lambda>u. if take 10 u = ''http://a:1'' then Some (''a:1'', drop 10 u, []) else None),
      lib_do = (\<lambda>host r cl. carried (serve sample_texts sample_sched ''A'' r (None, cl)) cl)\<rparr>"

lemma local_serves: "serves local_lib sample_texts sample_sched ''A'' ''http://a:1''"
  by (simp add: serves_def carries_def local_lib_def)

definition sample_flags :: Flags where
  "sample_flags = default_flags\<lparr>flEntity := ''e'', flAttr := ''a'', flValue := ''v'', flTag := ''t'', flKey := ''k'', flData := ''d''\<rparr>"

lemma sample_flags_ok:
  "valid_utf8 (flEntity sample_flags)" "valid_utf8 (flAttr sample_flags)" "valid_utf8 (flValue sample_flags)"
  "valid_utf8 (flPolicy sample_flags)" "valid_utf8 (flTag sample_flags)" "valid_utf8 (flKey sample_flags)"
  "valid_utf8 (flData sample_flags)" "0 < flW sample_flags" "flW sample_flags < 2 ^ 63"
  by (simp_all add: sample_flags_def default_flags_def byte_def)

theorem memctl_api_witness:
  "cmdFact local_lib ''http://a:1'' (sample_flags\<lparr>flPolicy := ''paxos''\<rparr>) False (fresh_cluster three) =
     shown (PutFact sample_sched (Memory_New ''A'') ''e'' ''a'' ''v'' PolicyLWW 2 (fresh_cluster three)) \<and>
   snd (ParsePolicy ''paxos'') \<noteq> None"
  using memctl_api [OF local_serves, of "sample_flags\<lparr>flPolicy := ''paxos''\<rparr>" "fresh_cluster three"] sample_flags_ok
  by (simp add: sample_flags_def default_flags_def ParsePolicy_def byte_def)

theorem memctl_write_witness:
  "cmdWrite local_lib ''http://a:1'' sample_flags (fresh_cluster three) =
     shown (Write ''A'' \<lparr>wqKey = ''k'', wqData = Some ''d'', wqPolicy = PolicyLWW, wqW = 2, wqClientTS = 0, wqORSetOp = '''',
       wqORSetElem = '''', wqTombstone = False\<rparr> [''A'', ''B'', ''C''] None (fresh_cluster three))"
  using memctl_write [OF local_serves sample_flags_ok(6,7,4) _ sample_flags_ok(9), of "fresh_cluster three"]
  by (simp add: sample_flags_def default_flags_def ParsePolicy_def sample_sched_def)

theorem memctl_exit_witness:
  "memctl_main local_lib (\<lambda>_. '''') (Some ''http://a:1'') (\<lambda>_ _. Inr sample_flags) [''forget''] (fresh_cluster three) =
     ((None, 2), fresh_cluster three) \<and>
   memctl_main local_lib (\<lambda>_. '''') (Some ''http://a:1'') (\<lambda>_ _. Inl 2) [''write'', ''-key''] (fresh_cluster three) =
     ((None, 2), fresh_cluster three)"
  using memctl_exit [of local_lib "\<lambda>_. ''''" "Some ''http://a:1''" "\<lambda>_ _. Inr sample_flags" "[''forget'']" "fresh_cluster three"]
    memctl_exit [of local_lib "\<lambda>_. ''''" "Some ''http://a:1''" "\<lambda>_ _. Inl 2" "[''write'', ''-key'']" "fresh_cluster three"]
  by simp

section \<open>The node process\<close>

record NodeFlags =
  nfID :: string
  nfHTTP :: string
  nfPeers :: string
  nfWAL :: string
  nfAntiEntropy :: int

definition node_defaults :: "(string \<Rightarrow> string) \<Rightarrow> NodeFlags" where
  "node_defaults getenv =
     \<lparr>nfID = env_or getenv ''NODE_ID'' ''A'', nfHTTP = env_or getenv ''HTTP_ADDR'' '':8080'', nfPeers = env_or getenv ''PEERS'' '''',
      nfWAL = env_or getenv ''WAL_PATH'' '''', nfAntiEntropy = 500 * 1000000\<rparr>"

datatype start_error = PeersError peers_error | StartWAL wal_error | StartListen

text \<open>
  From the flags to the running node, its transport and its server: \<open>join\<close> and \<open>lower\<close> are \<^verbatim>\<open>filepath.Join\<close> and
  \<^verbatim>\<open>strings.ToLower\<close>, \<open>disk\<close> what the operating system does when the log at a path is opened, \<open>listen\<close> is
  \<^verbatim>\<open>net.Listen\<close>. Each \<^verbatim>\<open>log.Fatal\<close> is an error value. A node refers to its transport by the id the transport
  sends under (\<open>LocalID\<close>); the transport itself is returned beside the node. \<open>node_stop\<close> is what follows the signal the process waits for.
\<close>

definition node_main ::
  "(string \<Rightarrow> string \<Rightarrow> string) \<Rightarrow> (string \<Rightarrow> string) \<Rightarrow> (string \<Rightarrow> wal_env) \<Rightarrow> (string \<Rightarrow> string option) \<Rightarrow> NodeFlags \<Rightarrow>
   start_error + Node \<times> HTTPTransport \<times> HTTPServer" where
  "node_main join lower disk listen fl =
     (case ParsePeers (nfID fl) (nfPeers fl) of
        Inl e \<Rightarrow> Inl (PeersError e)
      | Inr mem \<Rightarrow>
          (let path = (if nfWAL fl = '''' then join ''data'' (lower (nfID fl) @ ''.wal'') else nfWAL fl) in
           case OpenWAL path (disk path) of
             Inl e \<Rightarrow> Inl (StartWAL e)
           | Inr w \<Rightarrow>
               (let addrs = foldl (\<lambda>m p. fmupd (peerID p) (peerAddr p) m) fmempty (Peers mem);
                    tr = NewHTTPTransport (nfID fl) addrs;
                    n = New \<lparr>cfgID = nfID fl, cfgPeers = mem, cfgTransport = LocalID tr, cfgWAL = Some (NewReplica (nfID fl) (Some w)),
                      cfgTimeout = 0, cfgAntiEntropyEvery = nfAntiEntropy fl, cfgDisableReadRepair = False\<rparr>;
                    n = StartAntiEntropy n;
                    (ok, srv) = Start listen (NewHTTPServer (nfID fl) (nfHTTP fl))
                in if \<not> ok then Inl StartListen else Inr (n, tr, srv))))"

definition node_stop :: "wal_error option \<Rightarrow> Node \<times> HTTPTransport \<times> HTTPServer \<Rightarrow> Node \<times> HTTPTransport \<times> HTTPServer" where
  "node_stop answer st =
     (let (n, tr, srv) = st; srv = HTTPServer_Close srv; (_, n) = Node_Close answer n in (n, tr, srv))"

lemma addrs_lookup:
  "distinct (map peerID ps) \<Longrightarrow> p \<in> set ps \<Longrightarrow>
    fmlookup (foldl (\<lambda>m p. fmupd (peerID p) (peerAddr p) m) m ps) (peerID p) = Some (peerAddr p)"
proof (induction ps arbitrary: m)
  case (Cons q ps)
  have other: "i \<notin> set (map peerID ps) \<Longrightarrow> fmlookup (foldl (\<lambda>m p. fmupd (peerID p) (peerAddr p) m) m ps) i = fmlookup m i" for i m
    by (induction ps arbitrary: m) auto
  show ?case
  proof (cases "p = q")
    case True
    then show ?thesis using Cons.prems(1) other [of "peerID q" "fmupd (peerID q) (peerAddr q) m"] by simp
  next
    case False
    then show ?thesis using Cons by simp
  qed
qed simp

text \<open>C27. A process that starts is wired to its cluster: the peer list and the log were read without an error, the
  replica is rebuilt from the log opened at the path given, or at data/<id>.wal when no path is given (the help text of
  the flag promises a node without a log there), ids are distinct and include the node itself, the node sends through
  the transport under its own id, the transport knows the address of exactly the listed members and blocks none, reads
  repair, requests time out after two seconds, anti-entropy runs unless its interval is not positive, and the server accepts requests for the
  node at the address it was given. When the process is stopped neither the server nor anti-entropy goes on and the replica is what
  it was.\<close>

theorem node_main_wiring:
  assumes "node_main join lower disk listen fl = Inr (n, tr, srv)"
  shows "\<exists>mem w. ParsePeers (nfID fl) (nfPeers fl) = Inr mem \<and> nodeMembers n = mem \<and>
    OpenWAL (if nfWAL fl = '''' then join ''data'' (lower (nfID fl) @ ''.wal'') else nfWAL fl)
      (disk (if nfWAL fl = '''' then join ''data'' (lower (nfID fl) @ ''.wal'') else nfWAL fl)) = Inr w \<and>
    nodeReplica n = NewReplica (nfID fl) (Some w) \<and> repWAL (nodeReplica n) \<noteq> None \<and> nodeID n = nfID fl \<and>
    nodeNet n = LocalID tr \<and> LocalID tr = nodeID n \<and> nfID fl \<in> set (IDs mem) \<and> distinct (IDs mem) \<and>
    fmdom' (htAddrs tr) = set (IDs mem) \<and> (\<forall>p \<in> set (Peers mem). fmlookup (htAddrs tr) (peerID p) = Some (peerAddr p)) \<and>
    (\<forall>i. \<not> blocked tr i) \<and> nodeReadRepair n \<and> nodeTimeout n = 2000000000 \<and> nodeAntiOn n = (0 < nfAntiEntropy fl) \<and>
    hsNode srv = nodeID n \<and> hsServing srv \<and> listen (nfHTTP fl) = Some (hsAddr srv) \<and> hsMux srv = mux_routes \<and>
    (\<exists>n' srv'. node_stop answer (n, tr, srv) = (n', tr, srv') \<and> \<not> hsServing srv' \<and> \<not> nodeAntiOn n' \<and> nodeReplica n' = nodeReplica n)"
proof -
  obtain mem w where m: "ParsePeers (nfID fl) (nfPeers fl) = Inr mem"
    and w: "OpenWAL (if nfWAL fl = '''' then join ''data'' (lower (nfID fl) @ ''.wal'') else nfWAL fl)
      (disk (if nfWAL fl = '''' then join ''data'' (lower (nfID fl) @ ''.wal'') else nfWAL fl)) = Inr w"
    and n: "n = StartAntiEntropy (New \<lparr>cfgID = nfID fl, cfgPeers = mem, cfgTransport = LocalID tr,
      cfgWAL = Some (NewReplica (nfID fl) (Some w)), cfgTimeout = 0, cfgAntiEntropyEvery = nfAntiEntropy fl, cfgDisableReadRepair = False\<rparr>)"
    and tr: "tr = NewHTTPTransport (nfID fl) (foldl (\<lambda>m p. fmupd (peerID p) (peerAddr p) m) fmempty (Peers mem))"
    and srv: "Start listen (NewHTTPServer (nfID fl) (nfHTTP fl)) = (True, srv)"
    using assms by (auto simp: node_main_def Let_def split: sum.splits prod.splits if_splits)
  have wf: "wf_membership mem" "Self mem = nfID fl" using ParsePeers_member [OF m] by simp_all
  have d: "distinct (map peerID (Peers mem))" using wf(1) by (simp add: wf_membership_def IDs_def)
  have dom: "fmdom' (foldl (\<lambda>m p. fmupd (peerID p) (peerAddr p) m) t ps) = fmdom' t \<union> set (map peerID ps)" for t and ps :: "Peer list"
    by (induction ps arbitrary: t) auto
  have "\<forall>p \<in> set (Peers mem). fmlookup (htAddrs tr) (peerID p) = Some (peerAddr p)"
    using addrs_lookup [OF d] by (simp add: tr NewHTTPTransport_def)
  moreover have "fmdom' (htAddrs tr) = set (IDs mem)" by (simp add: tr NewHTTPTransport_def dom IDs_def)
  moreover have "\<forall>i. \<not> blocked tr i" by (simp add: tr NewHTTPTransport_def blocked_def)
  moreover have "hsNode srv = nfID fl" "hsServing srv" "listen (nfHTTP fl) = Some (hsAddr srv)" "hsMux srv = mux_routes"
    using srv by (auto simp: Start_def NewHTTPServer_def split: option.splits)
  moreover have "node_stop answer (n, tr, srv) = (StopAntiEntropy n, tr, HTTPServer_Close srv)"
    by (simp add: node_stop_def Node_Close_def Let_def)
  ultimately show ?thesis
    using m w wf
    by (intro exI [of _ mem] exI [of _ w])
      (auto simp: n StartAntiEntropy_def StopAntiEntropy_def HTTPServer_Close_def New_def Let_def wf_membership_def LocalID_def tr
        NewHTTPTransport_def)
qed

definition sample_node_flags :: NodeFlags where
  "sample_node_flags = (node_defaults (\<lambda>_. ''''))\<lparr>nfPeers := ''A=h:1,B=h:2''\<rparr>"

theorem node_main_wiring_witness:
  "\<exists>n tr srv. node_main (\<lambda>a b. a @ ''/'' @ b) to_lower (\<lambda>_. sample_env) Some sample_node_flags = Inr (n, tr, srv) \<and>
     nodeID n = ''A'' \<and> nodeAntiOn n \<and> fmdom' (htAddrs tr) = {''A'', ''B''} \<and> hsServing srv"
proof -
  let ?r = "node_main (\<lambda>a b. a @ ''/'' @ b) to_lower (\<lambda>_. sample_env) Some sample_node_flags"
  have p: "ParsePeers ''A'' ''A=h:1,B=h:2'' =
    Inr \<lparr>Self = ''A'', Peers = [\<lparr>peerID = ''A'', peerAddr = ''h:1''\<rparr>, \<lparr>peerID = ''B'', peerAddr = ''h:2''\<rparr>]\<rparr>" by code_simp
  have f: "nfID sample_node_flags = ''A''" "nfPeers sample_node_flags = ''A=h:1,B=h:2''" "nfWAL sample_node_flags = ''''"
    "nfAntiEntropy sample_node_flags = 500000000"
    by (simp_all add: sample_node_flags_def node_defaults_def env_or_def)
  have "\<exists>n tr srv. ?r = Inr (n, tr, srv)"
    by (simp add: node_main_def f p OpenWAL_def load_def sample_env_def Let_def Start_def)
  then obtain n tr srv where r: "?r = Inr (n, tr, srv)" by blast
  from node_main_wiring [OF r] show ?thesis using r by (auto simp: f p IDs_def)
qed

end
