(* ===== verification/Spec2Isabelle.thy ===== *)
theory Spec2Isabelle
  imports Handoff_Delivery Commands
begin

text \<open>
  \<^bold>\<open>A replicated key-value memory for agents.\<close> The program keeps facts and tags of agents on a few nodes that
  are all peers. A client talks to any node; that node coordinates the request: it sends a write to every member
  and waits for W acknowledgements, it asks every member for a read and merges the first R answers. Values are
  versioned by a Lamport clock and merged by the policy of their key (last writer wins, a register, an
  observed-remove set). Members that were missed are caught up by hinted handoff, read repair and anti-entropy, and
  every node rebuilds its store from a log of JSON lines. Nodes talk through an in-process network with injected
  faults or through HTTP; the command line client and the node process stand on top.

  \<^bold>\<open>The theories, from the bottom up.\<close> Each opens with its own summary.

  \<^item> \<open>Prelude\<close>: Go's slices and maps, byte-wise comparison, and the interfaces that several components share:
    \<open>key_order\<close> (a three-way comparison given by a sort key), \<open>merge_semilattice\<close> (closed, associative, commutative,
    idempotent merges, with the order they induce and folds over sets), \<open>forward_system\<close> (a step relation that keeps
    an invariant and only moves up an order), \<open>codec\<close> (an encoder with a decoder that reads it back).
  \<^item> \<open>Go_Text\<close>, \<open>Go_JSON\<close>: what is used of Go's library: UTF-8, decimal numbers, base64, \<^verbatim>\<open>encoding/json\<close> with its
    escapes, its errors and its way of storing a document into Go values.
  \<^item> \<open>Types\<close> (\<^verbatim>\<open>internal/types\<close>): policies, versions, values, requests and answers, the clock.
  \<^item> \<open>LWW_Merge\<close>, \<open>LWW_Register\<close>, \<open>OR_Set\<close>, \<open>Resolve_Policy\<close> (\<^verbatim>\<open>internal/conflict\<close>): the merges, each an
    instance of \<open>merge_semilattice\<close> on the values the program makes; the observed-remove set also refines the
    abstract set of live add tags.
  \<^item> \<open>Store_KV\<close>, \<open>Store_WAL\<close> (\<^verbatim>\<open>internal/store\<close>): the map with its applied versions, and the log as the bytes of
    a file, with appends that fail or tear and with reopening.
  \<^item> \<open>Replica\<close> (\<^verbatim>\<open>internal/node/replica.go\<close>): the merging apply, log first, and recovery.
  \<^item> \<open>Hinted_Handoff\<close>, \<open>Read_Repair\<close>, \<open>Anti_Entropy\<close> (\<^verbatim>\<open>internal/repair\<close>): the hint lists, the stale respondents
    and the exchange plan of two snapshots.
  \<^item> \<open>Membership\<close> (\<^verbatim>\<open>internal/cluster\<close>): the peer list and the quorum arithmetic.
  \<^item> \<open>Fault_Net\<close> (\<^verbatim>\<open>internal/net/faultnet.go\<close>): partitions, isolation, drops, delays, send limits, the hook.
  \<^item> \<open>Coordinator\<close> (\<^verbatim>\<open>internal/node/coordinator.go\<close>): \<open>Node\<close>, and the record \<open>Cluster\<close>, which holds all nodes, the
    network, and the answers the operating system and the deadlines will give. \<open>Write\<close>, \<open>Read\<close>, \<open>Delete\<close>,
    \<open>AntiEntropyRound\<close> and \<open>ReplayHints\<close> are functions on it.
  \<^item> \<open>Cluster\<close>: the invariant \<open>cluster_ok\<close>, the order \<open>evolves\<close>, and the step relation \<open>step\<close>: start of a write, one
    replication goroutine, one read goroutine, finishing a read with its repairs, one anti-entropy exchange, one hint
    replay, a change of the network's faults, of the disks or of the deadlines, a crash with restart from the
    log file of a node whose file is in step with its log. The pieces of the larger steps (a tick, a prepared payload, a value
    applied or sent, a digest) are steps of their own, so that other requests may come between them. It is an instance of
    \<open>forward_system\<close>.
  \<^item> \<open>Quorum_Safety\<close>, \<open>Convergence\<close>, \<open>Handoff_Delivery\<close>: what the protocol promises over those steps.
  \<^item> \<open>HTTP\<close>, \<open>HTTP_Transport\<close>, \<open>HTTP_Server\<close>, \<open>HTTP_Cluster\<close> (\<^verbatim>\<open>internal/net/transport.go\<close>,
    \<^verbatim>\<open>internal/node/server.go\<close>): bodies and their JSON, the client, all handlers with their routes, and the
    composition of client and handlers.
  \<^item> \<open>Agent_API\<close> (\<^verbatim>\<open>internal/agentapi\<close>), \<open>Commands\<close> (\<^verbatim>\<open>cmd/memctl\<close>, \<^verbatim>\<open>cmd/node\<close>): the layers on top.

  \<^bold>\<open>How the code is represented.\<close> Structs are records, named after the source. A Go slice of bytes that may be nil is
  an option of a string of bytes; maps are finite maps, and where the code ranges over a map the order is the sorted one
  (each theorem that depends on it shows that the order does not matter, or the code sorts afterwards). \<^verbatim>\<open>uint64\<close> is a 64-bit
  word; \<^verbatim>\<open>int\<close> is an integer where only small numbers meet it and a word in \<^verbatim>\<open>parseInt\<close>, where overflow can happen. Errors are
  values of sum or option types. Pointers to nodes are the node ids under which the cluster holds them. Methods that
  hold a mutex are atomic. The goroutines of a request run one after the other in an order that is an argument;
  \<open>None\<close> as the answer of \<open>Write\<close> or \<open>Read\<close> means that the coordinator still waits. The deadline is the number of
  results that arrive before it. The interleaving of the goroutines of different requests is what the step relation
  allows. \<open>Write\<close>, \<open>Read\<close> and \<open>exchange\<close> themselves are the uninterrupted runs of their pieces; what other requests do
  between a request's pieces is covered for the requests that the step relation runs, not for the one a theorem names.
  Code outside the repository enters as an argument: the answers of the file system (\<open>wal_env\<close>, \<open>wal_io\<close>), the random numbers of the fault network, \<^verbatim>\<open>net/http\<close> (\<open>http_lib\<close>), the texts of library errors (\<open>Texts\<close>),
  the \<^verbatim>\<open>flag\<close> package, \<^verbatim>\<open>net.Listen\<close>.

  \<^bold>\<open>What is shown.\<close>

  \<^item> Safety: a read that overlaps an acknowledged write has absorbed it, whatever happened in between
    (\<open>read_your_writes\<close>), up to the level of tags (\<open>tags_visible\<close>); no replica ever goes back
    (\<open>cluster_never_forgets\<close>). Both need that each key is used under one policy, that no clock wraps and that a node is
    restarted only when its log file is in step with its log (no append failed before); the theorems
    \<open>Resolve_delete_not_associative\<close> and \<open>clock_exact\<close> show what happens otherwise, and
    \<open>version_reused_after_crash\<close> that absorbing a write need not mean returning it when a version is used twice.
  \<^item> Answers and progress: when a write or read is answered and how (\<open>write_answer\<close>, \<open>read_answer\<close>), delivery of
    hints (\<open>write_leaves_hints\<close>, \<open>handoff_delivers\<close>), convergence in two anti-entropy rounds
    (\<open>anti_entropy_converges\<close>).
  \<^item> Convergence of replicas: \<open>replica_convergence\<close>, \<open>anti_entropy_pair\<close>, \<open>Replica_Apply_idempotent\<close>,
    \<open>ResolveMany_order_independent\<close>, resting on the semilattice laws (\<open>Resolve_semilattice\<close>).
  \<^item> Durability: \<open>crash_recovery\<close> and \<open>wal_reopen\<close>; what the next start finds after an append that failed is said by
    \<open>wal_torn_write\<close> (for every part of the line that may have reached the file, resting on \<open>json_parse_cut\<close>: no proper
    part of a document is a document) and \<open>Replica_Apply_wal_error\<close>.
  \<^item> Refinement and round trips: the observed-remove set against live tags, HTTP calls against direct calls, commands
    against the API, JSON payloads, peer lists.
  \<^item> Faults: the network's partitions and limits, the HTTP fault toggle, and the error paths of start-up and exit.

  \<^bold>\<open>Bounds and fuel.\<close> Only the JSON parser recurses on fuel; it is given the length of its input plus one, and
  \<open>parse_fuel_enough\<close> shows that more changes nothing. Go's nesting limit of 10000 is part of the model. All other loops
  are structural or have a measure.

  \<^bold>\<open>Not modelled.\<close> The accept loop of the HTTP server and the multiplexer's own answers (unknown paths, redirects) belong to
  \<^verbatim>\<open>net/http\<close>. URL encoding is an argument. Parsing of command lines, log lines and the usage text are left out. Data
  races on unprotected fields (the deny map of the HTTP transport) have no meaning in the model: its accesses are atomic. Timers
  are events, not times: a request's deadline or the anti-entropy ticker may fire at any point. The tests, their
  harness, the scripts and the container files are no part of the program.
\<close>

end
